(* ===== verification/PyBase.thy ===== *)
theory PyBase
  imports Complex_Main "HOL-Library.AList"
begin

text \<open>
  The prelude of the development: the Python values the modelled code handles, the exceptions it
  raises, and the built-in operations it applies to them (truth value, \<open>or\<close>, equality with a
  constant, \<open>int()\<close>, \<open>float()\<close>, \<open>str()\<close> of an identifier, dictionaries,
  string splitting), with the generic lemmas the component theories share.

  A string is a list of characters with code points below 256 (the range of \<open>char\<close>, and of a
  header decoded as latin-1). A float is exact: rounding is not modelled, the special values and the
  overflow of a conversion from a number or a text are. Dictionaries keep insertion order and have string keys.
\<close>

named_theorems py_defs \<open>definitions of the Python built-ins, unfolded to evaluate them\<close>
named_theorems res_simps \<open>rewriting of results that are an exception or a value\<close>

section \<open>Values and exceptions\<close>

datatype pyfloat = Fin rat | PosInf | NegInf | NaN

datatype pyval =
    PNone
  | PBool bool
  | PInt int
  | PFloat pyfloat
  | PStr string
  | PList "pyval list"
  | PDict "(string \<times> pyval) list"

type_synonym pydict = "(string \<times> pyval) list"

text \<open>Why a received frame is not an envelope; one constructor per \<open>raise InvalidEnvelope\<close>.\<close>

datatype envelope_fault =
    NotAnObject
  | BadVersion pyval
  | MissingType
  | BadPayload
  | BadSeq
  | BadStream

datatype exc =
    TypeError
  | ValueError
  | OverflowError
  | KeyError
  | AttributeError
  | NotImplementedError
  | ImportError
  | SitesConfigError
  | TimeoutError
  | AssertionError
  | InvalidStreamKey
  | InvalidEnvelope envelope_fault
  | Rollback
  | OtherError

type_synonym 'a res = "exc + 'a"

text \<open>Running one fallible operation after another: the first exception wins.\<close>

definition rbind :: "'a res \<Rightarrow> ('a \<Rightarrow> 'b res) \<Rightarrow> 'b res" where
  "rbind r f = (case r of Inl e \<Rightarrow> Inl e | Inr x \<Rightarrow> f x)"

definition rmap :: "('a \<Rightarrow> 'b) \<Rightarrow> 'a res \<Rightarrow> 'b res" where
  "rmap f r = (case r of Inl e \<Rightarrow> Inl e | Inr x \<Rightarrow> Inr (f x))"

text \<open>A comprehension over a list whose element expression may raise.\<close>

fun rmapM :: "('a \<Rightarrow> 'b res) \<Rightarrow> 'a list \<Rightarrow> 'b list res" where
  "rmapM f [] = Inr []"
| "rmapM f (x # xs) = rbind (f x) (\<lambda>y. rmap ((#) y) (rmapM f xs))"

lemma rbind_simps [simp, res_simps]:
  "rbind (Inl e) f = Inl e"
  "rbind (Inr x) f = f x"
  by (simp_all add: rbind_def)

lemma rmap_simps [simp, res_simps]:
  "rmap g (Inl e) = Inl e"
  "rmap g (Inr x) = Inr (g x)"
  by (simp_all add: rmap_def)

lemma rbind_eq_Inr_iff: "rbind r f = Inr y \<longleftrightarrow> (\<exists>x. r = Inr x \<and> f x = Inr y)"
  by (cases r) auto

lemma rmap_eq_Inr_iff: "rmap f r = Inr y \<longleftrightarrow> (\<exists>x. r = Inr x \<and> y = f x)"
  by (cases r) auto

lemma rmap_eq_Inl_iff [simp]: "rmap f r = Inl e \<longleftrightarrow> r = Inl e"
  by (cases r) auto

lemma rmapM_Inr:
  "(\<And>x. x \<in> set xs \<Longrightarrow> f x = Inr (g x)) \<Longrightarrow> rmapM f xs = Inr (map g xs)"
  by (induction xs) auto

section \<open>Truth value, \<open>or\<close>, and comparison with a constant\<close>

fun truthy :: "pyval \<Rightarrow> bool" where
  "truthy PNone = False"
| "truthy (PBool b) = b"
| "truthy (PInt i) = (i \<noteq> 0)"
| "truthy (PFloat f) = (f \<noteq> Fin 0)"
| "truthy (PStr s) = (s \<noteq> [])"
| "truthy (PList vs) = (vs \<noteq> [])"
| "truthy (PDict d) = (d \<noteq> [])"

definition py_or :: "pyval \<Rightarrow> pyval \<Rightarrow> pyval" where
  [py_defs]: "py_or a b = (if truthy a then a else b)"

text \<open>Numbers of different types compare by value: \<open>True == 1 == 1.0\<close>.\<close>

fun py_eq_int :: "pyval \<Rightarrow> int \<Rightarrow> bool" where
  "py_eq_int (PBool b) n = ((if b then 1 else 0) = n)"
| "py_eq_int (PInt i) n = (i = n)"
| "py_eq_int (PFloat (Fin q)) n = (q = of_int n)"
| "py_eq_int _ n = False"

text \<open>Membership in a set of strings hashes its argument, and a list or a dict is not hashable.\<close>

fun py_in_strings :: "pyval \<Rightarrow> string list \<Rightarrow> bool res" where
  "py_in_strings (PStr s) xs = Inr (s \<in> set xs)"
| "py_in_strings (PList _) xs = Inl TypeError"
| "py_in_strings (PDict _) xs = Inl TypeError"
| "py_in_strings _ xs = Inr False"

section \<open>Characters and decimal numerals\<close>

abbreviation ord :: "char \<Rightarrow> nat" where "ord c \<equiv> of_char c"

definition is_digit :: "char \<Rightarrow> bool" where
  [py_defs]: "is_digit c \<longleftrightarrow> 48 \<le> ord c \<and> ord c \<le> 57"

definition is_alpha :: "char \<Rightarrow> bool" where
  [py_defs]: "is_alpha c \<longleftrightarrow> 65 \<le> ord c \<and> ord c \<le> 90 \<or> 97 \<le> ord c \<and> ord c \<le> 122"

definition is_ascii :: "char \<Rightarrow> bool" where
  [py_defs]: "is_ascii c \<longleftrightarrow> ord c < 128"

text \<open>White space of the C locale, and of \<open>str.strip()\<close> below code point 256.\<close>

definition c_space :: "char \<Rightarrow> bool" where
  [py_defs]: "c_space c \<longleftrightarrow> 9 \<le> ord c \<and> ord c \<le> 13 \<or> ord c = 32"

definition py_space :: "char \<Rightarrow> bool" where
  [py_defs]: "py_space c \<longleftrightarrow>
     9 \<le> ord c \<and> ord c \<le> 13 \<or> 28 \<le> ord c \<and> ord c \<le> 32 \<or> ord c = 133 \<or> ord c = 160"

definition lower_char :: "char \<Rightarrow> char" where
  [py_defs]: "lower_char c =
     (if 65 \<le> ord c \<and> ord c \<le> 90 \<or> 192 \<le> ord c \<and> ord c \<le> 222 \<and> ord c \<noteq> 215
      then char_of (ord c + 32) else c)"

abbreviation lower :: "string \<Rightarrow> string" where "lower s \<equiv> map lower_char s"

definition strip_with :: "(char \<Rightarrow> bool) \<Rightarrow> string \<Rightarrow> string" where
  [py_defs]: "strip_with p s = rev (dropWhile p (rev (dropWhile p s)))"

definition str_strip :: "string \<Rightarrow> string" where
  [py_defs]: "str_strip s = strip_with py_space s"

text \<open>A run of digits in which single underscores may separate digits.\<close>

fun ok_run :: "string \<Rightarrow> bool" where
  "ok_run [] = False"
| "ok_run [c] = is_digit c"
| "ok_run (c # d # r) = (is_digit c \<and> (if d = CHR ''_'' then ok_run r else ok_run (d # r)))"

definition run_val :: "string \<Rightarrow> nat" where
  [py_defs]: "run_val s = foldl (\<lambda>n c. if c = CHR ''_'' then n else 10 * n + (ord c - 48)) 0 s"

definition run_len :: "string \<Rightarrow> nat" where
  [py_defs]: "run_len s = length (filter is_digit s)"

fun sign_split :: "string \<Rightarrow> int \<times> string" where
  "sign_split [] = (1, [])"
| "sign_split (c # cs) =
     (if c = CHR ''-'' then (-1, cs) else if c = CHR ''+'' then (1, cs) else (1, c # cs))"

text \<open>What \<open>int()\<close> and \<open>float()\<close> strip: C white space, and more when the string is not ASCII.\<close>

definition num_strip :: "string \<Rightarrow> string" where
  [py_defs]: "num_strip s =
     (if list_all is_ascii s then strip_with c_space s else strip_with py_space s)"

text \<open>The decimal text of a number, \<open>str(n)\<close>.\<close>

fun nat_str :: "nat \<Rightarrow> string" where
  "nat_str n = (if n < 10 then [char_of (48 + n)] else nat_str (n div 10) @ [char_of (48 + n mod 10)])"

declare nat_str.simps [simp del]

definition int_str :: "int \<Rightarrow> string" where
  "int_str i = (if i < 0 then CHR ''-'' # nat_str (nat (- i)) else nat_str (nat i))"

section \<open>\<open>int()\<close> and \<open>float()\<close>\<close>

text \<open>
  Text with more than 4300 digits is refused by \<open>int()\<close>. A float whose magnitude reaches the
  threshold below rounds to infinity.
\<close>

definition max_str_digits :: nat where
  [py_defs]: "max_str_digits = 4300"

definition float_limit :: rat where
  [py_defs]: "float_limit = 2 ^ 1024 - 2 ^ 970"

definition py_int_str :: "string \<Rightarrow> int res" where
  [py_defs]: "py_int_str s =
     (let (sg, r) = sign_split (num_strip s)
      in if ok_run r \<and> run_len r \<le> max_str_digits then Inr (sg * int (run_val r)) else Inl ValueError)"

text \<open>\<open>int(1.7)\<close> is 1 and \<open>int(-1.7)\<close> is -1: towards zero.\<close>

definition trunc :: "rat \<Rightarrow> int" where
  [py_defs]: "trunc q = (if 0 \<le> q then \<lfloor>q\<rfloor> else \<lceil>q\<rceil>)"

fun py_int :: "pyval \<Rightarrow> int res" where
  "py_int PNone = Inl TypeError"
| "py_int (PBool b) = Inr (if b then 1 else 0)"
| "py_int (PInt i) = Inr i"
| "py_int (PFloat (Fin q)) = Inr (trunc q)"
| "py_int (PFloat NaN) = Inl ValueError"
| "py_int (PFloat _) = Inl OverflowError"
| "py_int (PStr s) = py_int_str s"
| "py_int (PList _) = Inl TypeError"
| "py_int (PDict _) = Inl TypeError"

definition pf_round :: "rat \<Rightarrow> pyfloat" where
  [py_defs]: "pf_round q = (if float_limit \<le> q then PosInf else if q \<le> - float_limit then NegInf else Fin q)"

fun pf_neg :: "pyfloat \<Rightarrow> pyfloat" where
  "pf_neg (Fin q) = Fin (- q)"
| "pf_neg PosInf = NegInf"
| "pf_neg NegInf = PosInf"
| "pf_neg NaN = NaN"

text \<open>The exponent part of a float's text: nothing, or \<open>e\<close> and a signed run of digits.\<close>

definition float_exponent :: "string \<Rightarrow> int res" where
  [py_defs]: "float_exponent r =
     (case r of
        [] \<Rightarrow> Inr 0
      | c # x \<Rightarrow>
          (let (sg, x') = sign_split x
           in if lower_char c = CHR ''e'' \<and> ok_run x' then Inr (sg * int (run_val x')) else Inl ValueError))"

definition run_char :: "char \<Rightarrow> bool" where
  [py_defs]: "run_char c \<longleftrightarrow> is_digit c \<or> c = CHR ''_''"

definition scale10 :: "rat \<Rightarrow> int \<Rightarrow> rat" where
  [py_defs]: "scale10 q e = (if 0 \<le> e then q * 10 ^ nat e else q / 10 ^ nat (- e))"

definition float_decimal :: "string \<Rightarrow> pyfloat res" where
  [py_defs]: "float_decimal r =
     (let a = takeWhile run_char r;
          r1 = dropWhile run_char r;
          (b, r2) = (case r1 of
             [] \<Rightarrow> ([], [])
           | c # x \<Rightarrow> if c = CHR ''.'' then (takeWhile run_char x, dropWhile run_char x) else ([], r1))
      in if (a = [] \<and> b = []) \<or> (a \<noteq> [] \<and> \<not> ok_run a) \<or> (b \<noteq> [] \<and> \<not> ok_run b) then Inl ValueError
         else rmap (\<lambda>e. pf_round (scale10 (of_nat (run_val a) + of_nat (run_val b) / 10 ^ run_len b) e))
                (float_exponent r2))"

definition py_float_str :: "string \<Rightarrow> pyfloat res" where
  [py_defs]: "py_float_str s =
     (let (sg, r) = sign_split (num_strip s);
          v = (if lower r = ''inf'' \<or> lower r = ''infinity'' then Inr PosInf
               else if lower r = ''nan'' then Inr NaN else float_decimal r)
      in rmap (\<lambda>f. if sg = 1 then f else pf_neg f) v)"

fun py_float :: "pyval \<Rightarrow> pyfloat res" where
  "py_float PNone = Inl TypeError"
| "py_float (PBool b) = Inr (Fin (if b then 1 else 0))"
| "py_float (PInt i) = (if float_limit \<le> \<bar>of_int i\<bar> then Inl OverflowError else Inr (Fin (of_int i)))"
| "py_float (PFloat f) = Inr f"
| "py_float (PStr s) = py_float_str s"
| "py_float (PList _) = Inl TypeError"
| "py_float (PDict _) = Inl TypeError"

text \<open>Comparison and arithmetic of floats: every comparison with \<open>NaN\<close> is false.\<close>

fun pf_lt :: "pyfloat \<Rightarrow> pyfloat \<Rightarrow> bool" where
  "pf_lt (Fin a) (Fin b) = (a < b)"
| "pf_lt (Fin _) PosInf = True"
| "pf_lt NegInf (Fin _) = True"
| "pf_lt NegInf PosInf = True"
| "pf_lt _ _ = False"

fun pf_le :: "pyfloat \<Rightarrow> pyfloat \<Rightarrow> bool" where
  "pf_le NaN _ = False"
| "pf_le _ NaN = False"
| "pf_le NegInf _ = True"
| "pf_le _ PosInf = True"
| "pf_le (Fin a) (Fin b) = (a \<le> b)"
| "pf_le _ _ = False"

fun pf_add :: "pyfloat \<Rightarrow> pyfloat \<Rightarrow> pyfloat" where
  "pf_add (Fin a) (Fin b) = Fin (a + b)"
| "pf_add NaN _ = NaN"
| "pf_add _ NaN = NaN"
| "pf_add PosInf NegInf = NaN"
| "pf_add NegInf PosInf = NaN"
| "pf_add PosInf _ = PosInf"
| "pf_add NegInf _ = NegInf"
| "pf_add (Fin _) f = f"

definition pf_sub :: "pyfloat \<Rightarrow> pyfloat \<Rightarrow> pyfloat" where
  [py_defs]: "pf_sub a b = pf_add a (pf_neg b)"

text \<open>A float compared with an integer, exactly.\<close>

fun pf_le_int :: "pyfloat \<Rightarrow> int \<Rightarrow> bool" where
  "pf_le_int (Fin q) n = (q \<le> of_int n)"
| "pf_le_int NegInf n = True"
| "pf_le_int _ n = False"

text \<open>\<open>max(a, b)\<close> keeps its first argument unless the second is greater.\<close>

definition pf_max :: "pyfloat \<Rightarrow> pyfloat \<Rightarrow> pyfloat" where
  [py_defs]: "pf_max a b = (if pf_lt a b then b else a)"

section \<open>Identifiers, dictionaries and splitting\<close>

text \<open>
  A primary key or a URL keyword argument: an integer, a string, or an object (a UUID) that is known by
  its text. \<open>IdObj\<close> is always true.
\<close>

datatype ident = IdInt int | IdStr string | IdObj string

fun ident_truthy :: "ident \<Rightarrow> bool" where
  "ident_truthy (IdInt i) = (i \<noteq> 0)"
| "ident_truthy (IdStr s) = (s \<noteq> [])"
| "ident_truthy (IdObj s) = True"

fun ident_str :: "ident \<Rightarrow> string" where
  "ident_str (IdInt i) = int_str i"
| "ident_str (IdStr s) = s"
| "ident_str (IdObj s) = s"

text \<open>\<open>a or b\<close> on optional identifiers, as \<open>getattr(user, "pk", None) or getattr(user, "id", None)\<close>.\<close>

definition opt_or :: "ident option \<Rightarrow> ident option \<Rightarrow> ident option" where
  [py_defs]: "opt_or a b = (case a of None \<Rightarrow> b | Some i \<Rightarrow> if ident_truthy i then a else b)"

text \<open>
  \<open>str(v)\<close> of a value; the text of the values whose \<open>repr\<close> is not modelled is the
  parameter \<open>rp\<close>.
\<close>

fun py_str :: "(pyval \<Rightarrow> string) \<Rightarrow> pyval \<Rightarrow> string" where
  "py_str rp PNone = ''None''"
| "py_str rp (PBool b) = (if b then ''True'' else ''False'')"
| "py_str rp (PInt i) = int_str i"
| "py_str rp (PStr s) = s"
| "py_str rp v = rp v"

text \<open>
  \<open>dict(v)\<close>: a text is only a dictionary when it is empty, and so is a list (a list of pairs,
  which Python would accept, is refused).
\<close>

fun py_dict :: "pyval \<Rightarrow> pydict res" where
  "py_dict (PDict d) = Inr d"
| "py_dict (PStr s) = (if s = [] then Inr [] else Inl ValueError)"
| "py_dict (PList vs) = (if vs = [] then Inr [] else Inl TypeError)"
| "py_dict _ = Inl TypeError"

definition dict_get :: "pydict \<Rightarrow> string \<Rightarrow> pyval" where
  [py_defs]: "dict_get d k = (case map_of d k of None \<Rightarrow> PNone | Some v \<Rightarrow> v)"

definition dict_set :: "string \<Rightarrow> 'v \<Rightarrow> (string \<times> 'v) list \<Rightarrow> (string \<times> 'v) list" where
  [py_defs]: "dict_set k v d = AList.update k v d"

definition dict_pop :: "string \<Rightarrow> (string \<times> 'v) list \<Rightarrow> (string \<times> 'v) list" where
  [py_defs]: "dict_pop k d = AList.delete k d"

definition dict_setdefault :: "string \<Rightarrow> 'v \<Rightarrow> (string \<times> 'v) list \<Rightarrow> (string \<times> 'v) list" where
  [py_defs]: "dict_setdefault k v d = (case map_of d k of None \<Rightarrow> d @ [(k, v)] | Some _ \<Rightarrow> d)"

fun split_on :: "char \<Rightarrow> string \<Rightarrow> string list" where
  "split_on d [] = [[]]"
| "split_on d (c # cs) =
     (if c = d then [] # split_on d cs
      else case split_on d cs of [] \<Rightarrow> [[c]] | w # ws \<Rightarrow> (c # w) # ws)"

fun join_on :: "char \<Rightarrow> string list \<Rightarrow> string" where
  "join_on d [] = []"
| "join_on d [w] = w"
| "join_on d (w # v # ws) = w @ d # join_on d (v # ws)"

text \<open>A dictionary comprehension over keys: a repeated key keeps its first place.\<close>

definition dict_of_keys :: "(string \<Rightarrow> 'v) \<Rightarrow> string list \<Rightarrow> (string \<times> 'v) list" where
  [py_defs]: "dict_of_keys f ks = foldl (\<lambda>d k. dict_set k (f k) d) [] ks"

section \<open>Lemmas the components share\<close>

lemma dict_get_set [simp]: "dict_get (dict_set k v d) k' = (if k = k' then v else dict_get d k')"
  by (simp add: dict_get_def dict_set_def update_conv')

lemma dict_get_simps [simp]:
  "dict_get [] k = PNone"
  "dict_get ((k', v) # d) k = (if k' = k then v else dict_get d k)"
  by (simp_all add: dict_get_def)

lemma set_dict_set: "set (dict_set k v d) \<subseteq> insert (k, v) (set d)"
  unfolding dict_set_def by (induction d) auto

lemma map_of_dict_set [simp]: "map_of (dict_set k v d) = (map_of d)(k \<mapsto> v)"
  by (simp add: dict_set_def update_conv')

lemma map_of_dict_pop [simp]: "map_of (dict_pop k d) = (map_of d)(k := None)"
  by (simp add: dict_pop_def delete_conv')

lemma distinct_dict_set [intro]: "distinct (map fst d) \<Longrightarrow> distinct (map fst (dict_set k v d))"
  by (simp add: dict_set_def distinct_update)

lemma distinct_dict_pop [intro]: "distinct (map fst d) \<Longrightarrow> distinct (map fst (dict_pop k d))"
  by (simp add: dict_pop_def distinct_delete)

lemma set_dict_pop: "set (dict_pop k d) = {(k', v) \<in> set d. k' \<noteq> k}"
  by (auto simp: dict_pop_def AList.delete_eq)

lemma dict_set_fold:
  "map_of (foldl (\<lambda>d k. dict_set k (f k) d) d ks) k =
     (if k \<in> set ks then Some (f k) else map_of d k)"
  by (induction ks arbitrary: d) auto

lemma map_of_dict_of_keys [simp]:
  "map_of (dict_of_keys f ks) k = (if k \<in> set ks then Some (f k) else None)"
  by (simp add: dict_of_keys_def dict_set_fold)

lemma distinct_dict_of_keys [simp]: "distinct (map fst (dict_of_keys f ks))"
proof -
  have "distinct (map fst d) \<Longrightarrow> distinct (map fst (foldl (\<lambda>d k. dict_set k (f k) d) d ks))" for d
    by (induction ks arbitrary: d) (auto intro: distinct_dict_set)
  then show ?thesis by (simp add: dict_of_keys_def)
qed

lemma set_dict_of_keys: "set (dict_of_keys f ks) = (\<lambda>k. (k, f k)) ` set ks"
proof -
  have "(k, v) \<in> set (dict_of_keys f ks) \<longleftrightarrow> k \<in> set ks \<and> v = f k" for k v
    unfolding map_of_eq_Some_iff [OF distinct_dict_of_keys, symmetric] by auto
  then show ?thesis by auto
qed

text \<open>Filtering an association list without duplicate keys filters the map.\<close>

lemma map_of_filter_distinct:
  assumes "distinct (map fst d)"
  shows "map_of (filter (\<lambda>(k, v). P k v) d) k =
    (case map_of d k of None \<Rightarrow> None | Some v \<Rightarrow> if P k v then Some v else None)"
  using assms by (induction d) (auto simp: map_of_eq_None_iff image_iff split: option.splits if_splits)

lemma distinct_map_fst_filter: "distinct (map fst d) \<Longrightarrow> distinct (map fst (filter P d))"
  by (induction d) auto

lemma split_on_not_Nil [simp]: "split_on d s \<noteq> []"
  by (induction s) (auto split: list.splits)

lemma join_split [simp]: "join_on d (split_on d s) = s"
proof (induction s)
  case Nil
  then show ?case by simp
next
  case (Cons c cs)
  obtain w ws where w: "split_on d cs = w # ws"
    using split_on_not_Nil list.exhaust by metis
  with Cons show ?case
    by (cases ws) auto
qed

lemma split_on_free: "d \<notin> set w \<Longrightarrow> split_on d w = [w]"
  by (induction w) auto

lemma split_on_append: "d \<notin> set w \<Longrightarrow> split_on d (w @ d # s) = w # split_on d s"
  by (induction w) auto

lemma split_join:
  "ws \<noteq> [] \<Longrightarrow> \<forall>w\<in>set ws. d \<notin> set w \<Longrightarrow> split_on d (join_on d ws) = ws"
  by (induction d ws rule: join_on.induct) (auto simp: split_on_free split_on_append)

lemma split_on_parts: "w \<in> set (split_on d s) \<Longrightarrow> d \<notin> set w"
  by (induction s arbitrary: w) (auto split: if_splits list.splits)

lemma ord_char_of [simp]: "n < 256 \<Longrightarrow> ord (char_of (n::nat)) = n"
  by simp

lemma is_digit_char_of [simp]: "(d::nat) < 10 \<Longrightarrow> is_digit (char_of (48 + d))"
  by (simp add: is_digit_def)

lemma nat_str_digits: "c \<in> set (nat_str n) \<Longrightarrow> is_digit c"
proof (induction n rule: nat_str.induct)
  case (1 n)
  then show ?case
    by (cases "n < 10") (auto simp: nat_str.simps [of n])
qed

lemma nat_str_not_Nil [simp]: "nat_str n \<noteq> []"
  by (subst nat_str.simps) simp

lemma digit_not_underscore: "is_digit c \<Longrightarrow> c \<noteq> CHR ''_''"
  by (auto simp: is_digit_def)

lemma run_val_append_digit:
  "d < 10 \<Longrightarrow> run_val (s @ [char_of (48 + d)]) = 10 * run_val s + d"
  using digit_not_underscore [OF is_digit_char_of, of d] by (simp add: run_val_def)

lemma run_val_nat_str [simp]: "run_val (nat_str n) = n"
proof (induction n rule: nat_str.induct)
  case (1 n)
  show ?case
  proof (cases "n < 10")
    case True
    then show ?thesis
      using run_val_append_digit [of n "[]"] by (simp add: nat_str.simps [of n] run_val_def)
  next
    case False
    then show ?thesis
      using "1.IH" by (simp add: nat_str.simps [of n] run_val_append_digit)
  qed
qed

lemma nat_str_inject [simp]: "nat_str m = nat_str n \<longleftrightarrow> m = n"
  by (metis run_val_nat_str)

lemma nat_str_no_minus: "nat_str n \<noteq> CHR ''-'' # s"
  using nat_str_digits [of "CHR ''-''" n] by (auto simp: is_digit_def)

lemma int_str_inject [simp]: "int_str i = int_str j \<longleftrightarrow> i = j"
  using nat_str_no_minus nat_str_no_minus [symmetric] by (auto simp: int_str_def)

end
