(* ===== verification/Streams.thy ===== *)
theory Streams
  imports PyBase
begin

text \<open>
  Stream keys and group names, \<open>streams.py\<close>. The canonical builder \<open>build_stream_key\<close>
  is the core's and not part of the repository: it is the parameter \<open>build\<close> of every definition
  that calls it, with what the module documents of it as the predicate \<open>core_canon\<close>. The hexadecimal
  SHA-256 digest of a string is the parameter \<open>sha\<close>.
\<close>

type_synonym canon = "string \<Rightarrow> string \<Rightarrow> string \<Rightarrow> string option \<Rightarrow> string res"

record StreamKey =
  key_module :: string
  key_scope_type :: string
  key_scope_id :: string
  key_topic :: "string option"

definition WORKSPACE_SCOPE :: string where
  "WORKSPACE_SCOPE = ''ws''"

definition MAX_GROUP_NAME :: nat where
  "MAX_GROUP_NAME = 90"

abbreviation colon :: char where "colon \<equiv> CHR '':''"
abbreviation dot :: char where "dot \<equiv> CHR ''.''"

text \<open>The text of a key from its segments, \<open><mod>:<scope_type>:<scope_id>[:<topic>]\<close>.\<close>

definition segments :: "string \<Rightarrow> string \<Rightarrow> string \<Rightarrow> string option \<Rightarrow> string list" where
  "segments m t i tp = m # t # i # (case tp of None \<Rightarrow> [] | Some x \<Rightarrow> [x])"

definition key_text :: "string \<Rightarrow> string \<Rightarrow> string \<Rightarrow> string option \<Rightarrow> string" where
  "key_text m t i tp = join_on colon (segments m t i tp)"

text \<open>
  The documented behaviour of the core's builder: an accepted key is the segments joined by colons, and
  the segments are not empty and hold no colon. Nothing is assumed of an empty topic.
\<close>

definition core_canon :: "canon \<Rightarrow> bool" where
  "core_canon build \<longleftrightarrow>
     (\<forall>m t i tp k. build m t i tp = Inr k \<and> tp \<noteq> Some [] \<longrightarrow>
        k = key_text m t i tp \<and> m \<noteq> [] \<and> t \<noteq> [] \<and> i \<noteq> [] \<and>
        (\<forall>w\<in>set (segments m t i tp). colon \<notin> set w))"

definition stream_key_str :: "canon \<Rightarrow> StreamKey \<Rightarrow> string res" where
  "stream_key_str build sk =
     build (key_module sk) (key_scope_type sk) (key_scope_id sk) (key_topic sk)"

definition is_workspace_scoped :: "StreamKey \<Rightarrow> bool" where
  "is_workspace_scoped sk \<longleftrightarrow> key_scope_type sk = WORKSPACE_SCOPE"

definition parse_stream_key :: "canon \<Rightarrow> string \<Rightarrow> StreamKey res" where
  "parse_stream_key build key =
     (if key = [] then Inl InvalidStreamKey
      else let parts = split_on colon key in
        if length parts \<noteq> 3 \<and> length parts \<noteq> 4 then Inl InvalidStreamKey
        else let m = parts ! 0; t = parts ! 1; i = parts ! 2;
                 tp = (if length parts = 4 then Some (parts ! 3) else None)
          in rbind (build m t i tp)
               (\<lambda>_. Inr \<lparr>key_module = m, key_scope_type = t, key_scope_id = i, key_topic = tp\<rparr>))"

definition dotted :: "string \<Rightarrow> string" where
  "dotted s = map (\<lambda>c. if c = colon then dot else c) s"

text \<open>The part of \<open>group_name\<close> that both kinds of argument reach.\<close>

definition fold_name :: "(string \<Rightarrow> string) \<Rightarrow> string \<Rightarrow> string \<Rightarrow> string" where
  "fold_name sha m raw =
     (if length (dotted raw) \<le> MAX_GROUP_NAME then dotted raw
      else m @ ''.h.'' @ take 40 (sha raw))"

definition group_name :: "canon \<Rightarrow> (string \<Rightarrow> string) \<Rightarrow> string \<Rightarrow> string res" where
  "group_name build sha key =
     rmap (\<lambda>parsed. fold_name sha (key_module parsed) key) (parse_stream_key build key)"

definition group_name_of_key :: "canon \<Rightarrow> (string \<Rightarrow> string) \<Rightarrow> StreamKey \<Rightarrow> string res" where
  "group_name_of_key build sha sk =
     rmap (\<lambda>raw. fold_name sha (key_module sk) raw) (stream_key_str build sk)"

definition workspace_stream :: "canon \<Rightarrow> string \<Rightarrow> ident \<Rightarrow> string option \<Rightarrow> string res" where
  "workspace_stream build m workspace_id topic =
     build m WORKSPACE_SCOPE (ident_str workspace_id) topic"

section \<open>Lemmas\<close>

lemma length_dotted [simp]: "length (dotted s) = length s"
  by (simp add: dotted_def)

lemma dotted_append [simp]: "dotted (a @ b) = dotted a @ dotted b"
  by (simp add: dotted_def)

lemma dotted_inject:
  "dot \<notin> set a \<Longrightarrow> dot \<notin> set b \<Longrightarrow> dotted a = dotted b \<longleftrightarrow> a = b"
proof (induction a arbitrary: b)
  case Nil
  then show ?case by (auto simp: dotted_def)
next
  case (Cons x a)
  then show ?case by (cases b) (auto simp: dotted_def split: if_splits)
qed

lemma core_canonD:
  "core_canon build \<Longrightarrow> build m t i tp = Inr k \<Longrightarrow> tp \<noteq> Some [] \<Longrightarrow> k = key_text m t i tp"
  by (simp add: core_canon_def)

lemma key_text_split:
  assumes "core_canon build" "build m t i tp = Inr k" "tp \<noteq> Some []"
  shows "split_on colon k = segments m t i tp"
proof -
  have "\<forall>w\<in>set (segments m t i tp). colon \<notin> set w"
    using assms by (simp add: core_canon_def)
  then have "split_on colon (key_text m t i tp) = segments m t i tp"
    unfolding key_text_def by (intro split_join) (simp_all add: segments_def)
  then show ?thesis using core_canonD [OF assms] by simp
qed

lemma parse_stream_key_Inr:
  "parse_stream_key build key = Inr sk \<longleftrightarrow>
     key \<noteq> [] \<and> (\<exists>k. stream_key_str build sk = Inr k) \<and>
     split_on colon key =
       segments (key_module sk) (key_scope_type sk) (key_scope_id sk) (key_topic sk)"
proof -
  have 3: "length parts = 3 \<longleftrightarrow> (\<exists>m t i. parts = [m, t, i])" for parts :: "string list"
    by (auto simp: numeral_3_eq_3 length_Suc_conv)
  have 4: "length parts = 4 \<longleftrightarrow> (\<exists>m t i x. parts = [m, t, i, x])" for parts :: "string list"
    by (auto simp: eval_nat_numeral length_Suc_conv)
  show ?thesis
  proof (cases "length (split_on colon key) = 3 \<or> length (split_on colon key) = 4")
    case True
    then show ?thesis
      unfolding 3 4
      by (cases sk)
         (auto simp: parse_stream_key_def stream_key_str_def segments_def Let_def rbind_eq_Inr_iff split: option.splits)
  next
    case False
    then show ?thesis
      by (auto simp: parse_stream_key_def segments_def Let_def split: option.splits)
  qed
qed

lemma split_dotted: "dot \<notin> set s \<Longrightarrow> split_on dot (dotted s) = split_on colon s"
proof (induction s)
  case Nil
  then show ?case by (simp add: dotted_def)
next
  case (Cons c s)
  then have "split_on dot (dotted s) = split_on colon s" by simp
  with Cons.prems show ?case by (auto simp: dotted_def split: list.splits)
qed

lemma split_on_no: "e \<notin> set s \<Longrightarrow> w \<in> set (split_on d s) \<Longrightarrow> e \<notin> set w"
  by (induction s arbitrary: w) (auto split: if_splits list.splits)

lemma split_folded:
  assumes "dot \<notin> set m" "dot \<notin> set d"
  shows "split_on dot (m @ ''.h.'' @ d) = [m, ''h'', d]"
proof -
  have "split_on dot (m @ dot # ''h'' @ dot # d) = m # ''h'' # split_on dot d"
    using assms by (simp add: split_on_append)
  with assms show ?thesis by (simp add: split_on_free)
qed

lemma key_text_not_Nil: "key_text m t i tp \<noteq> []"
  by (cases m) (auto simp: key_text_def segments_def)

text \<open>The group of an accepted key: the module is the key's first segment.\<close>

lemma group_name_Inr:
  "group_name build sha key = Inr g \<longleftrightarrow>
     (\<exists>sk. parse_stream_key build key = Inr sk) \<and> g = fold_name sha (hd (split_on colon key)) key"
  by (auto simp: group_name_def rmap_eq_Inr_iff parse_stream_key_Inr segments_def)

text \<open>A builder with the documented behaviour, for the concrete instances of the theorems.\<close>

definition plain_char :: "char \<Rightarrow> bool" where
  "plain_char c \<longleftrightarrow> is_alpha c \<or> is_digit c \<or> c = CHR ''-'' \<or> c = CHR ''_''"

definition sample_canon :: canon where
  "sample_canon m t i tp =
     (if list_all (\<lambda>w. w \<noteq> [] \<and> list_all plain_char w) (segments m t i tp)
      then Inr (key_text m t i tp) else Inl InvalidStreamKey)"

lemma plain_no_colon: "list_all plain_char w \<Longrightarrow> colon \<notin> set w"
  by (auto simp: list_all_iff plain_char_def is_alpha_def is_digit_def)

lemma core_canon_sample: "core_canon sample_canon"
  by (auto simp: core_canon_def sample_canon_def segments_def dest: plain_no_colon
      split: if_splits option.splits)

section \<open>Properties\<close>

text \<open>C34: Parsing a key the builder produced returns the segments it was built from.\<close>

theorem parse_build_roundtrip:
  assumes "core_canon build" and "build m t i tp = Inr k" and "tp \<noteq> Some []"
  shows "parse_stream_key build k =
    Inr \<lparr>key_module = m, key_scope_type = t, key_scope_id = i, key_topic = tp\<rparr>"
  using assms key_text_split [OF assms] core_canonD [OF assms] key_text_not_Nil
  by (simp add: parse_stream_key_Inr stream_key_str_def)

theorem parse_build_roundtrip_witness:
  "parse_stream_key sample_canon ''tasks:ws:42:board'' =
     Inr \<lparr>key_module = ''tasks'', key_scope_type = ''ws'', key_scope_id = ''42'', key_topic = Some ''board''\<rparr>"
  by (rule parse_build_roundtrip [OF core_canon_sample])
     (simp_all add: sample_canon_def segments_def key_text_def plain_char_def py_defs)

text \<open>The text of a parsed key is the key itself, so a parsed key addresses the same
  stream.\<close>

theorem str_parse_roundtrip:
  assumes "core_canon build" and "parse_stream_key build k = Inr sk" and "key_topic sk \<noteq> Some []"
  shows "stream_key_str build sk = Inr k"
proof -
  from assms(2) obtain k' where k': "stream_key_str build sk = Inr k'"
    and parts: "split_on colon k = segments (key_module sk) (key_scope_type sk) (key_scope_id sk) (key_topic sk)"
    by (auto simp: parse_stream_key_Inr)
  then have "k' = join_on colon (split_on colon k)"
    using core_canonD [OF assms(1) _ assms(3)] by (simp add: stream_key_str_def key_text_def)
  with k' show ?thesis by simp
qed

theorem str_parse_roundtrip_witness:
  "stream_key_str sample_canon
     \<lparr>key_module = ''chat'', key_scope_type = ''conv'', key_scope_id = ''7'', key_topic = None\<rparr> = Inr ''chat:conv:7''"
  by (rule str_parse_roundtrip [OF core_canon_sample])
     (simp_all add: parse_stream_key_def sample_canon_def segments_def key_text_def plain_char_def py_defs)

text \<open>
  When two different keys can meet in one group: both are folded and their digests agree in the 40
  digits kept, or the short key of scope type \<open>h\<close> spells out the folded name of the long one.
\<close>

definition fold_collision :: "(string \<Rightarrow> string) \<Rightarrow> string \<Rightarrow> string \<Rightarrow> bool" where
  "fold_collision sha k k' \<longleftrightarrow>
     MAX_GROUP_NAME < length k \<and> MAX_GROUP_NAME < length k' \<and>
     hd (split_on colon k) = hd (split_on colon k') \<and> take 40 (sha k) = take 40 (sha k')"

definition digest_alias :: "(string \<Rightarrow> string) \<Rightarrow> string \<Rightarrow> string \<Rightarrow> bool" where
  "digest_alias sha k k' \<longleftrightarrow>
     length k \<le> MAX_GROUP_NAME \<and> MAX_GROUP_NAME < length k' \<and>
     split_on colon k = [hd (split_on colon k'), ''h'', take 40 (sha k')]"

lemma fold_name_dots:
  assumes "dot \<notin> set k" and "dot \<notin> set (take 40 (sha k))"
  shows "split_on dot (fold_name sha (hd (split_on colon k)) k) =
    (if length k \<le> MAX_GROUP_NAME then split_on colon k
     else [hd (split_on colon k), ''h'', take 40 (sha k)])"
proof -
  have "dot \<notin> set (hd (split_on colon k))"
    by (rule split_on_no [OF assms(1) hd_in_set]) simp
  then show ?thesis
    using assms split_folded [of "hd (split_on colon k)" "take 40 (sha k)"]
    by (simp add: fold_name_def split_dotted)
qed

lemma split_on_inject: "split_on d a = split_on d b \<longleftrightarrow> a = b"
  by (metis join_split)

lemma fold_name_eq_iff:
  assumes "dot \<notin> set k" "dot \<notin> set k'" and "dot \<notin> set (take 40 (sha k))" "dot \<notin> set (take 40 (sha k'))"
  shows "fold_name sha (hd (split_on colon k)) k = fold_name sha (hd (split_on colon k')) k' \<longleftrightarrow>
    k = k' \<or> fold_collision sha k k' \<or> digest_alias sha k k' \<or> digest_alias sha k' k"
proof -
  have "fold_name sha (hd (split_on colon k)) k = fold_name sha (hd (split_on colon k')) k' \<longleftrightarrow>
      split_on dot (fold_name sha (hd (split_on colon k)) k) =
      split_on dot (fold_name sha (hd (split_on colon k')) k')"
    by (simp add: split_on_inject)
  also have "\<dots> \<longleftrightarrow> k = k' \<or> fold_collision sha k k' \<or> digest_alias sha k k' \<or> digest_alias sha k' k"
    using assms by (auto simp: fold_name_dots fold_collision_def digest_alias_def split_on_inject)
  finally show ?thesis .
qed

text \<open>C23: On keys without a dot, two accepted keys share a Channels group exactly when they
  are equal, or collide in the 40 hexadecimal digits of the digest, or one spells out the folded name of
  the other; translation and folding never merge two streams otherwise.\<close>

theorem group_name_separates:
  assumes "group_name build sha k1 = Inr g1" and "group_name build sha k2 = Inr g2"
    and "dot \<notin> set k1" and "dot \<notin> set k2"
    and "dot \<notin> set (take 40 (sha k1))" and "dot \<notin> set (take 40 (sha k2))"
  shows "g1 = g2 \<longleftrightarrow>
    k1 = k2 \<or> fold_collision sha k1 k2 \<or> digest_alias sha k1 k2 \<or> digest_alias sha k2 k1"
  using assms by (auto simp: group_name_Inr fold_name_eq_iff)

theorem group_name_separates_witness:
  "''recordings.ws.1'' = ''recordings.ws.2'' \<longleftrightarrow>
     ''recordings:ws:1'' = ''recordings:ws:2'' \<or>
     fold_collision (\<lambda>s. ''9f86d081'') ''recordings:ws:1'' ''recordings:ws:2'' \<or>
     digest_alias (\<lambda>s. ''9f86d081'') ''recordings:ws:1'' ''recordings:ws:2'' \<or>
     digest_alias (\<lambda>s. ''9f86d081'') ''recordings:ws:2'' ''recordings:ws:1''"
  by (rule group_name_separates [where build = sample_canon])
     (simp_all add: group_name_def parse_stream_key_def sample_canon_def segments_def key_text_def
        plain_char_def fold_name_def dotted_def MAX_GROUP_NAME_def py_defs)

text \<open>A group name stays within 90 characters whenever the module segment has at most 47;
  a longer module is the only way past the ceiling.\<close>

theorem group_name_length:
  assumes "group_name build sha key = Inr g"
  shows "length g \<le> max 90 (length (hd (split_on colon key)) + 43)"
  using assms by (auto simp: group_name_Inr fold_name_def MAX_GROUP_NAME_def)

theorem group_name_length_witness:
  "length ''chat.conv.7'' \<le> max 90 (length (hd (split_on colon ''chat:conv:7'')) + 43)"
  by (rule group_name_length [where build = sample_canon and sha = "\<lambda>s. s"])
     (simp add: group_name_def parse_stream_key_def sample_canon_def segments_def key_text_def
        plain_char_def fold_name_def dotted_def MAX_GROUP_NAME_def py_defs)

end
