(* ===== verification/Authorize.thy ===== *)
theory Authorize
  imports Streams
begin

text \<open>
  The authorize seam, \<open>authorize.py\<close>, and the connection scope it reads. An authorizer maps a
  scope and a stream key to a verdict or an exception. The core's capability lookup is the parameter
  \<open>require\<close>: an exception, no capability, or a capability.
\<close>

record user =
  is_authenticated :: bool
  user_pk :: "ident option"
  user_id :: "ident option"

record scope =
  scope_user :: "user option"
  scope_claims :: "pydict option"
  scope_kwargs :: "(string \<times> ident) list"

type_synonym authorizer = "scope \<Rightarrow> string \<Rightarrow> bool res"
type_synonym 'r capability_lookup = "string \<Rightarrow> ident \<Rightarrow> string \<Rightarrow> 'r option res"

definition deny :: authorizer where
  "deny sc stream_key = Inr False"

definition user_id_from_scope :: "scope \<Rightarrow> ident option" where
  "user_id_from_scope sc =
     (case scope_user sc of
        None \<Rightarrow> None
      | Some u \<Rightarrow> if \<not> is_authenticated u then None else opt_or (user_pk u) (user_id u))"

definition has_capability :: "'r capability_lookup \<Rightarrow> string \<Rightarrow> ident \<Rightarrow> string \<Rightarrow> bool" where
  "has_capability require workspace_id uid capability =
     (case require workspace_id uid capability of
        Inl _ \<Rightarrow> False
      | Inr r \<Rightarrow> r \<noteq> None)"

definition workspace_capability :: "canon \<Rightarrow> 'r capability_lookup \<Rightarrow> string \<Rightarrow> authorizer" where
  "workspace_capability build require capability sc stream_key =
     (case user_id_from_scope sc of
        None \<Rightarrow> Inr False
      | Some uid \<Rightarrow>
          (case parse_stream_key build stream_key of
             Inl e \<Rightarrow> if e = InvalidStreamKey then Inr False else Inl e
           | Inr key \<Rightarrow>
               if key_scope_type key \<noteq> WORKSPACE_SCOPE then Inr False
               else Inr (has_capability require (key_scope_id key) uid capability)))"

section \<open>The contract of an authorizer that identifies its user\<close>

text \<open>
  A verdict of yes from such an authorizer names a person: an anonymous scope, and one whose user has
  no identifier, is refused. Both shipped authorizers keep it.
\<close>

locale identifying_authorizer =
  fixes auth :: "scope \<Rightarrow> string \<Rightarrow> bool res"
  assumes unidentified_refused: "user_id_from_scope sc = None \<Longrightarrow> auth sc k = Inr False"
begin

lemma allowed_has_id: "auth sc k = Inr True \<Longrightarrow> \<exists>uid. user_id_from_scope sc = Some uid"
  using unidentified_refused by (cases "user_id_from_scope sc") auto

lemma allowed_authenticated:
  assumes "auth sc k = Inr True"
  shows "\<exists>u. scope_user sc = Some u \<and> is_authenticated u"
  using allowed_has_id [OF assms]
  by (auto simp: user_id_from_scope_def split: option.splits if_splits)

end

interpretation denier: identifying_authorizer deny
  by unfold_locales (simp add: deny_def)

interpretation ws_auth: identifying_authorizer "workspace_capability build require capability"
  for build require capability
  by unfold_locales (simp add: workspace_capability_def)

section \<open>Properties\<close>

text \<open>C35: \<open>WorkspaceCapability\<close> allows a subscription exactly when the scope names an
  authenticated user with an identifier, the key parses as a workspace-scoped key, and the capability
  lookup for that workspace and user returns a capability; every other outcome refuses or raises.\<close>

theorem workspace_capability_allows:
  "workspace_capability build require cap sc key = Inr True \<longleftrightarrow>
     (\<exists>uid sk c. user_id_from_scope sc = Some uid \<and> parse_stream_key build key = Inr sk \<and>
        is_workspace_scoped sk \<and> require (key_scope_id sk) uid cap = Inr (Some c))"
  by (auto simp: workspace_capability_def has_capability_def is_workspace_scoped_def
      split: option.splits sum.splits)

text \<open>The verdict of \<open>WorkspaceCapability\<close> is never an exception when the core's
  builder raises nothing but \<open>InvalidStreamKey\<close>, whatever the capability lookup does: a lookup
  that raises is a refusal.\<close>

theorem workspace_capability_closed:
  assumes "\<And>m t i tp e. build m t i tp = Inl e \<Longrightarrow> e = InvalidStreamKey"
  shows "(\<exists>b. workspace_capability build require cap sc key = Inr b) \<and>
    workspace_capability build (\<lambda>w u c. Inl OtherError) cap sc key = Inr False"
proof -
  have "parse_stream_key build key = Inl e \<Longrightarrow> e = InvalidStreamKey" for e
    using assms by (auto simp: parse_stream_key_def Let_def rbind_def split: if_splits sum.splits)
  then show ?thesis
    by (auto simp: workspace_capability_def has_capability_def split: option.splits sum.splits)
qed

theorem workspace_capability_closed_witness:
  "(\<exists>b. workspace_capability sample_canon (\<lambda>w u c. Inr (Some ())) ''r''
        \<lparr>scope_user = None, scope_claims = None, scope_kwargs = []\<rparr> ''a:ws:1'' = Inr b) \<and>
   workspace_capability sample_canon (\<lambda>w u c. Inl OtherError :: unit option res) ''r''
     \<lparr>scope_user = None, scope_claims = None, scope_kwargs = []\<rparr> ''a:ws:1'' = Inr False"
  by (rule workspace_capability_closed) (simp add: sample_canon_def split: if_splits)

end
