(* ===== verification/Conf.thy ===== *)
theory Conf
  imports PyBase
begin

text \<open>
  The settings of \<open>conf.py\<close>. The record holds the value each axis resolves to (the resolution
  over the namespaced dictionary, the flat settings and the environment is the core's
  \<open>AppSettings\<close>); the values are Python values, because the code converts them where it reads
  them. \<open>URL_PREFIX\<close> is read from the Django settings by \<open>url_prefix\<close>.
\<close>

named_theorems conf_defs \<open>how the code reads an axis\<close>

record settings =
  HEARTBEAT_S :: pyval
  HEARTBEAT_TIMEOUT_S :: pyval
  MAX_REPLAY :: pyval
  SEND_QUEUE_SIZE :: pyval
  AUTHORIZE_CACHE_S :: pyval
  PRESENCE_TTL_S :: pyval
  ALLOWED_ORIGINS :: pyval
  LAYER_SOCKET_TIMEOUT_MIN :: pyval

definition defaults :: settings where
  "defaults =
     \<lparr>HEARTBEAT_S = PInt 25,
      HEARTBEAT_TIMEOUT_S = PInt 10,
      MAX_REPLAY = PInt 500,
      SEND_QUEUE_SIZE = PInt 100,
      AUTHORIZE_CACHE_S = PInt 30,
      PRESENCE_TTL_S = PInt 60,
      ALLOWED_ORIGINS = PList [],
      LAYER_SOCKET_TIMEOUT_MIN = PNone\<rparr>"

definition namespace :: string where
  "namespace = ''STAPEL_REALTIME''"

definition URL_PREFIX_DEFAULT :: string where
  "URL_PREFIX_DEFAULT = ''ws''"

definition NON_APPSETTINGS_AXES :: "string list" where
  "NON_APPSETTINGS_AXES = [''URL_PREFIX'']"

text \<open>\<open>getattr(settings, namespace, None) or {}\<close> on the Django settings.\<close>

definition overrides :: "pydict \<Rightarrow> pydict" where
  "overrides django = (case dict_get django namespace of PDict d \<Rightarrow> d | _ \<Rightarrow> [])"

definition url_prefix :: "(pyval \<Rightarrow> string) \<Rightarrow> pydict \<Rightarrow> string" where
  "url_prefix rp django =
     (case map_of (overrides django) ''URL_PREFIX'' of
        Some v \<Rightarrow> py_str rp v
      | None \<Rightarrow> URL_PREFIX_DEFAULT)"

text \<open>The conversions the consumers apply to the axes they read.\<close>

definition send_queue_maxsize :: "settings \<Rightarrow> int res" where
  [conf_defs]: "send_queue_maxsize st = rmap (max 1) (py_int (SEND_QUEUE_SIZE st))"

definition heartbeat_interval :: "settings \<Rightarrow> pyfloat res" where
  [conf_defs]: "heartbeat_interval st = py_float (py_or (HEARTBEAT_S st) (PInt 0))"

definition heartbeat_timeout :: "settings \<Rightarrow> pyfloat res" where
  [conf_defs]: "heartbeat_timeout st = rmap (pf_max (Fin 1)) (py_float (HEARTBEAT_TIMEOUT_S st))"

definition authorize_ttl :: "settings \<Rightarrow> pyfloat res" where
  [conf_defs]: "authorize_ttl st = rmap (pf_max (Fin 0)) (py_float (py_or (AUTHORIZE_CACHE_S st) (PInt 0)))"

definition max_replay :: "settings \<Rightarrow> int res" where
  [conf_defs]: "max_replay st = py_int (MAX_REPLAY st)"

lemma send_queue_maxsize_pos: "send_queue_maxsize st = Inr n \<Longrightarrow> 1 \<le> n"
  by (auto simp: send_queue_maxsize_def rmap_eq_Inr_iff)

lemma pf_max_Fin_ge: "pf_max (Fin a) f = Fin b \<Longrightarrow> a \<le> b"
  by (cases f) (auto simp: pf_max_def split: if_splits)

lemma heartbeat_timeout_ge: "heartbeat_timeout st = Inr (Fin q) \<Longrightarrow> 1 \<le> q"
  by (auto simp: heartbeat_timeout_def rmap_eq_Inr_iff dest: pf_max_Fin_ge [OF sym])

lemma float_limit_big [simp]: "10 ^ 9 < float_limit"
  by (simp add: float_limit_def)

text \<open>What the defaults resolve to.\<close>

lemma defaults_read [simp]:
  "send_queue_maxsize defaults = Inr 100"
  "heartbeat_interval defaults = Inr (Fin 25)"
  "heartbeat_timeout defaults = Inr (Fin 10)"
  "authorize_ttl defaults = Inr (Fin 30)"
  "max_replay defaults = Inr 500"
  by (simp_all add: conf_defs defaults_def py_or_def float_limit_def pf_max_def)

text \<open>The flat Django setting of the same name never reaches the socket prefix.\<close>

lemma url_prefix_ignores_flat:
  "k \<noteq> namespace \<Longrightarrow> url_prefix rp (dict_set k v django) = url_prefix rp django"
  by (simp add: url_prefix_def overrides_def)

end
