(* ===== verification/Envelope.thy ===== *)
theory Envelope
  imports PyBase
begin

text \<open>
  The wire envelope of \<open>envelope.py\<close>: the frame types, building a frame and an error frame,
  and parsing a received value. \<open>parse_frame\<close> is the code's chain of checks, one
  \<open>envelope_fault\<close> per \<open>raise\<close>; the conversion of \<open>seq\<close> re-raises as
  \<open>InvalidEnvelope\<close> the exceptions the code catches and lets the others through.
\<close>

named_theorems wire_defs \<open>the frame types and error codes as strings\<close>

definition WIRE_VERSION :: int where [wire_defs]: "WIRE_VERSION = 1"

definition HELLO :: string where [wire_defs]: "HELLO = ''hello''"
definition PING :: string where [wire_defs]: "PING = ''ping''"
definition PONG :: string where [wire_defs]: "PONG = ''pong''"
definition WELCOME :: string where [wire_defs]: "WELCOME = ''welcome''"
definition REPLAY :: string where [wire_defs]: "REPLAY = ''replay''"
definition REPLAY_DONE :: string where [wire_defs]: "REPLAY_DONE = ''replay_done''"
definition LIVE :: string where [wire_defs]: "LIVE = ''live''"
definition EPHEMERAL :: string where [wire_defs]: "EPHEMERAL = ''ephemeral''"
definition RESYNC :: string where [wire_defs]: "RESYNC = ''resync''"
definition KICK :: string where [wire_defs]: "KICK = ''kick''"
definition ERROR :: string where [wire_defs]: "ERROR = ''error''"

definition CLIENT_FRAME_TYPES :: "string list" where
  "CLIENT_FRAME_TYPES = [HELLO, PING, PONG]"

definition SERVER_FRAME_TYPES :: "string list" where
  "SERVER_FRAME_TYPES = [WELCOME, REPLAY, REPLAY_DONE, LIVE, RESYNC, KICK, ERROR, PING, PONG]"

text \<open>The union of the three sets, without duplicates.\<close>

definition PROTOCOL_FRAME_TYPES :: "string list" where
  "PROTOCOL_FRAME_TYPES = remdups (CLIENT_FRAME_TYPES @ SERVER_FRAME_TYPES @ [EPHEMERAL])"

definition ERROR_BAD_ENVELOPE :: string where [wire_defs]: "ERROR_BAD_ENVELOPE = ''bad_envelope''"
definition ERROR_BAD_TYPE :: string where [wire_defs]: "ERROR_BAD_TYPE = ''bad_type''"
definition ERROR_UNAUTHORIZED :: string where [wire_defs]: "ERROR_UNAUTHORIZED = ''unauthorized''"

record Frame =
  ftype :: string
  fpayload :: pydict
  fseq :: "int option"
  fstream :: "string option"

definition is_journal :: "Frame \<Rightarrow> bool" where
  "is_journal f \<longleftrightarrow> fseq f \<noteq> None"

definition is_signal :: "Frame \<Rightarrow> bool" where
  "is_signal f \<longleftrightarrow> ftype f \<notin> set PROTOCOL_FRAME_TYPES"

definition opt_field :: "string \<Rightarrow> ('a \<Rightarrow> pyval) \<Rightarrow> 'a option \<Rightarrow> pydict" where
  "opt_field k f x = (case x of None \<Rightarrow> [] | Some v \<Rightarrow> [(k, f v)])"

definition frame :: "string \<Rightarrow> pydict option \<Rightarrow> int option \<Rightarrow> string option \<Rightarrow> pydict" where
  "frame frame_type payload seq stream =
     [(''v'', PInt WIRE_VERSION),
      (''type'', PStr frame_type),
      (''payload'', PDict (case payload of None \<Rightarrow> [] | Some d \<Rightarrow> d))]
     @ opt_field ''seq'' PInt seq
     @ opt_field ''stream'' PStr stream"

definition error_frame :: "string \<Rightarrow> string \<Rightarrow> string option \<Rightarrow> pydict" where
  "error_frame code message stream =
     frame ERROR (Some [(''code'', PStr code), (''message'', PStr message)]) None stream"

text \<open>The text of the exception, \<open>str(exc)\<close>; the version's \<open>repr\<close> is a parameter.\<close>

definition quoted :: "string \<Rightarrow> string" where
  "quoted s = CHR 0x27 # s @ [CHR 0x27]"

fun fault_text :: "(pyval \<Rightarrow> string) \<Rightarrow> envelope_fault \<Rightarrow> string" where
  "fault_text rp NotAnObject = ''frame must be a JSON object''"
| "fault_text rp (BadVersion v) = ''unsupported envelope version '' @ rp v"
| "fault_text rp MissingType = ''frame is missing a string '' @ quoted ''type''"
| "fault_text rp BadPayload = quoted ''payload'' @ '' must be a JSON object''"
| "fault_text rp BadSeq = quoted ''seq'' @ '' must be an integer''"
| "fault_text rp BadStream = quoted ''stream'' @ '' must be a string''"

definition parse_payload :: "pydict \<Rightarrow> pydict res" where
  "parse_payload d =
     (case dict_get d ''payload'' of
        PNone \<Rightarrow> Inr []
      | PDict p \<Rightarrow> Inr p
      | _ \<Rightarrow> Inl (InvalidEnvelope BadPayload))"

definition parse_seq :: "pydict \<Rightarrow> int option res" where
  "parse_seq d =
     (case dict_get d ''seq'' of
        PNone \<Rightarrow> Inr None
      | v \<Rightarrow>
          (case py_int v of
             Inr n \<Rightarrow> Inr (Some n)
           | Inl e \<Rightarrow> if e = TypeError \<or> e = ValueError then Inl (InvalidEnvelope BadSeq) else Inl e))"

definition parse_stream :: "pydict \<Rightarrow> string option res" where
  "parse_stream d =
     (case dict_get d ''stream'' of
        PNone \<Rightarrow> Inr None
      | PStr s \<Rightarrow> Inr (Some s)
      | _ \<Rightarrow> Inl (InvalidEnvelope BadStream))"

definition parse_frame :: "pyval \<Rightarrow> Frame res" where
  "parse_frame raw =
     (case raw of
        PDict d \<Rightarrow>
          (if \<not> py_eq_int (dict_get d ''v'') WIRE_VERSION
           then Inl (InvalidEnvelope (BadVersion (dict_get d ''v'')))
           else (case dict_get d ''type'' of
                   PStr t \<Rightarrow>
                     (if t = [] then Inl (InvalidEnvelope MissingType)
                      else rbind (parse_payload d) (\<lambda>p.
                           rbind (parse_seq d) (\<lambda>q.
                           rbind (parse_stream d) (\<lambda>s.
                             Inr \<lparr>ftype = t, fpayload = p, fseq = q, fstream = s\<rparr>))))
                 | _ \<Rightarrow> Inl (InvalidEnvelope MissingType)))
      | _ \<Rightarrow> Inl (InvalidEnvelope NotAnObject))"

section \<open>Lemmas\<close>

lemma dict_get_append: "dict_get (d @ e) k = (if k \<in> fst ` set d then dict_get d k else dict_get e k)"
  by (simp add: dict_get_def map_of_append map_add_def split: option.splits)
     (metis map_of_eq_None_iff option.distinct(1))

lemma dict_get_opt_field [simp]:
  "dict_get (opt_field k f x @ d) k' =
     (if k = k' \<and> x \<noteq> None then f (the x) else dict_get d k')"
  "dict_get (opt_field k f x) k' = (if k = k' \<and> x \<noteq> None then f (the x) else PNone)"
  by (auto simp: opt_field_def split: option.splits)

lemma frame_fields [simp]:
  "dict_get (frame t p q s) ''v'' = PInt WIRE_VERSION"
  "dict_get (frame t p q s) ''type'' = PStr t"
  "dict_get (frame t p q s) ''payload'' = PDict (case p of None \<Rightarrow> [] | Some d \<Rightarrow> d)"
  "dict_get (frame t p q s) ''seq'' = (case q of None \<Rightarrow> PNone | Some n \<Rightarrow> PInt n)"
  "dict_get (frame t p q s) ''stream'' = (case s of None \<Rightarrow> PNone | Some k \<Rightarrow> PStr k)"
  by (auto simp: frame_def split: option.splits)

lemma parse_seq_overflow:
  "parse_seq d = Inl OverflowError \<longleftrightarrow>
     dict_get d ''seq'' = PFloat PosInf \<or> dict_get d ''seq'' = PFloat NegInf"
proof (cases "dict_get d ''seq''")
  case (PFloat f)
  then show ?thesis by (cases f) (auto simp: parse_seq_def)
next
  case (PStr s)
  then show ?thesis by (auto simp: parse_seq_def py_int_str_def Let_def split: prod.splits)
qed (auto simp: parse_seq_def)

lemma parse_seq_errors:
  "parse_seq d = Inl e \<Longrightarrow> e = InvalidEnvelope BadSeq \<or> e = OverflowError"
proof (cases "dict_get d ''seq''")
  case (PFloat f)
  then show "parse_seq d = Inl e \<Longrightarrow> ?thesis" by (cases f) (auto simp: parse_seq_def)
next
  case (PStr s)
  then show "parse_seq d = Inl e \<Longrightarrow> ?thesis"
    by (auto simp: parse_seq_def py_int_str_def Let_def split: prod.splits if_splits)
qed (auto simp: parse_seq_def)

definition well_formed_envelope :: "pydict \<Rightarrow> bool" where
  "well_formed_envelope d \<longleftrightarrow>
     py_eq_int (dict_get d ''v'') WIRE_VERSION \<and>
     (\<exists>t. dict_get d ''type'' = PStr t \<and> t \<noteq> []) \<and>
     (dict_get d ''payload'' = PNone \<or> (\<exists>p. dict_get d ''payload'' = PDict p)) \<and>
     (dict_get d ''seq'' = PNone \<or> (\<exists>n. py_int (dict_get d ''seq'') = Inr n)) \<and>
     (dict_get d ''stream'' = PNone \<or> (\<exists>s. dict_get d ''stream'' = PStr s))"

lemma parse_payload_Inr:
  "(\<exists>p. parse_payload d = Inr p) \<longleftrightarrow>
     dict_get d ''payload'' = PNone \<or> (\<exists>p. dict_get d ''payload'' = PDict p)"
  by (cases "dict_get d ''payload''") (auto simp: parse_payload_def)

lemma parse_seq_Inr:
  "(\<exists>q. parse_seq d = Inr q) \<longleftrightarrow>
     dict_get d ''seq'' = PNone \<or> (\<exists>n. py_int (dict_get d ''seq'') = Inr n)"
  by (cases "dict_get d ''seq''") (auto simp: parse_seq_def split: sum.splits if_splits)

lemma parse_stream_Inr:
  "(\<exists>s. parse_stream d = Inr s) \<longleftrightarrow>
     dict_get d ''stream'' = PNone \<or> (\<exists>s. dict_get d ''stream'' = PStr s)"
  by (cases "dict_get d ''stream''") (auto simp: parse_stream_def)

lemma parse_payload_errors: "parse_payload d = Inl e \<Longrightarrow> e = InvalidEnvelope BadPayload"
  by (cases "dict_get d ''payload''") (auto simp: parse_payload_def)

lemma parse_stream_errors: "parse_stream d = Inl e \<Longrightarrow> e = InvalidEnvelope BadStream"
  by (cases "dict_get d ''stream''") (auto simp: parse_stream_def)

lemmas parse_errors = parse_payload_errors parse_seq_errors parse_stream_errors
lemmas parse_accepts = parse_payload_Inr parse_seq_Inr parse_stream_Inr

lemma parse_frame_PDict:
  "parse_frame (PDict d) = Inr f \<longleftrightarrow>
     py_eq_int (dict_get d ''v'') WIRE_VERSION \<and> dict_get d ''type'' = PStr (ftype f) \<and> ftype f \<noteq> [] \<and>
     parse_payload d = Inr (fpayload f) \<and> parse_seq d = Inr (fseq f) \<and> parse_stream d = Inr (fstream f)"
  by (cases f) (auto simp: parse_frame_def rbind_eq_Inr_iff split: pyval.splits)

lemma parse_frame_built:
  "parse_frame (PDict (frame t p q s)) =
     (if t = [] then Inl (InvalidEnvelope MissingType)
      else Inr \<lparr>ftype = t, fpayload = (case p of None \<Rightarrow> [] | Some d \<Rightarrow> d), fseq = q, fstream = s\<rparr>)"
  by (cases q; cases s)
     (simp_all add: parse_frame_def parse_payload_def parse_seq_def parse_stream_def wire_defs)

text \<open>C32: A frame built by \<open>frame\<close> parses back to exactly its type, payload, sequence
  and stream; only an empty type is refused.\<close>

theorem parse_frame_of_frame:
  "parse_frame (PDict (frame t p q s)) =
     (if t = [] then Inl (InvalidEnvelope MissingType)
      else Inr \<lparr>ftype = t, fpayload = (case p of None \<Rightarrow> [] | Some d \<Rightarrow> d), fseq = q, fstream = s\<rparr>)"
  by (rule parse_frame_built)

lemma parse_frame_iff: "(\<exists>f. parse_frame (PDict d) = Inr f) \<longleftrightarrow> well_formed_envelope d"
proof -
  have "(\<exists>f. parse_frame (PDict d) = Inr f) \<longleftrightarrow>
      py_eq_int (dict_get d ''v'') WIRE_VERSION \<and> (\<exists>t. dict_get d ''type'' = PStr t \<and> t \<noteq> []) \<and>
      (\<exists>p. parse_payload d = Inr p) \<and> (\<exists>q. parse_seq d = Inr q) \<and> (\<exists>s. parse_stream d = Inr s)"
    (is "?accepts \<longleftrightarrow> ?checks")
  proof
    assume ?checks
    then obtain t p q s where "parse_frame (PDict d) = Inr \<lparr>ftype = t, fpayload = p, fseq = q, fstream = s\<rparr>"
      unfolding parse_frame_PDict by auto
    then show ?accepts by blast
  qed (auto simp: parse_frame_PDict)
  then show ?thesis by (simp add: well_formed_envelope_def parse_accepts)
qed

text \<open>A received value is accepted exactly when it is a JSON object that satisfies the
  envelope's schema (version equal to 1, non-empty string type, object payload, sequence convertible to an
  integer, string stream), so no partially trusted frame is ever returned.\<close>

theorem parse_frame_accepts:
  "(\<exists>f. parse_frame raw = Inr f) \<longleftrightarrow> (\<exists>d. raw = PDict d \<and> well_formed_envelope d)"
proof (cases raw)
  case (PDict d)
  then show ?thesis by (simp add: parse_frame_iff)
qed (simp_all add: parse_frame_def)

text \<open>The only exception other than \<open>InvalidEnvelope\<close> that leaves
  \<open>parse_frame\<close> is the \<open>OverflowError\<close> of an infinite \<open>seq\<close>: it
  escapes exactly on an otherwise well-formed object whose \<open>seq\<close> is a float infinity (the JSON
  number \<open>1e999\<close>).\<close>

theorem parse_frame_exceptions:
  "(parse_frame raw = Inl e \<and> \<not> (\<exists>f. e = InvalidEnvelope f)) \<longleftrightarrow>
     e = OverflowError \<and>
     (\<exists>d. raw = PDict d \<and> py_eq_int (dict_get d ''v'') WIRE_VERSION \<and>
        (\<exists>t. dict_get d ''type'' = PStr t \<and> t \<noteq> []) \<and>
        (dict_get d ''payload'' = PNone \<or> (\<exists>p. dict_get d ''payload'' = PDict p)) \<and>
        dict_get d ''seq'' \<in> {PFloat PosInf, PFloat NegInf})"
proof (cases raw)
  case (PDict d)
  let ?head = "py_eq_int (dict_get d ''v'') WIRE_VERSION \<and>
      (\<exists>t. dict_get d ''type'' = PStr t \<and> t \<noteq> [])"
  have "(parse_frame (PDict d) = Inl e \<and> \<not> (\<exists>f. e = InvalidEnvelope f)) \<longleftrightarrow>
      e = OverflowError \<and> ?head \<and> (\<exists>p. parse_payload d = Inr p) \<and> parse_seq d = Inl OverflowError"
  proof (cases ?head)
    case True
    then obtain t where "parse_frame (PDict d) = rbind (parse_payload d) (\<lambda>p. rbind (parse_seq d) (\<lambda>q.
        rbind (parse_stream d) (\<lambda>s. Inr \<lparr>ftype = t, fpayload = p, fseq = q, fstream = s\<rparr>)))"
      by (auto simp: parse_frame_def)
    with True show ?thesis
      by (cases "parse_payload d"; cases "parse_seq d"; cases "parse_stream d") (auto dest: parse_errors)
  next
    case False
    then show ?thesis by (auto simp: parse_frame_def split: pyval.splits)
  qed
  with PDict show ?thesis
    by (simp add: parse_accepts parse_seq_overflow)
qed (auto simp: parse_frame_def)

end
