(* ===== verification/CloseCodes.thy ===== *)
theory CloseCodes
  imports PyBase
begin

text \<open>
  The close-code table of \<open>close_codes.py\<close>. The codes are the numbers of the module; 4401 is the
  number the module falls back to and documents as the contract with the core's handshake.
\<close>

named_theorems close_defs \<open>the close codes as numbers\<close>

definition CLOSE_PROTOCOL_ERROR :: int where [close_defs]: "CLOSE_PROTOCOL_ERROR = 4400"
definition CLOSE_UNAUTHENTICATED :: int where [close_defs]: "CLOSE_UNAUTHENTICATED = 4401"
definition CLOSE_FORBIDDEN :: int where [close_defs]: "CLOSE_FORBIDDEN = 4403"
definition CLOSE_STREAM_UNKNOWN :: int where [close_defs]: "CLOSE_STREAM_UNKNOWN = 4404"
definition CLOSE_HEARTBEAT_TIMEOUT :: int where [close_defs]: "CLOSE_HEARTBEAT_TIMEOUT = 4408"
definition CLOSE_REVOKED :: int where [close_defs]: "CLOSE_REVOKED = 4410"
definition CLOSE_OVERFLOW :: int where [close_defs]: "CLOSE_OVERFLOW = 4413"
definition CLOSE_DATA_HOME_UNAVAILABLE :: int where [close_defs]: "CLOSE_DATA_HOME_UNAVAILABLE = 4503"

definition CLOSE_CODE_NAMES :: "(int \<times> string) list" where
  "CLOSE_CODE_NAMES =
     [(CLOSE_PROTOCOL_ERROR, ''protocol_error''),
      (CLOSE_UNAUTHENTICATED, ''unauthenticated''),
      (CLOSE_FORBIDDEN, ''forbidden''),
      (CLOSE_STREAM_UNKNOWN, ''stream_unknown''),
      (CLOSE_HEARTBEAT_TIMEOUT, ''heartbeat_timeout''),
      (CLOSE_REVOKED, ''revoked''),
      (CLOSE_OVERFLOW, ''overflow''),
      (CLOSE_DATA_HOME_UNAVAILABLE, ''data_home_unavailable'')]"

definition TERMINAL_CLOSE_CODES :: "int list" where
  "TERMINAL_CLOSE_CODES = [CLOSE_FORBIDDEN, CLOSE_STREAM_UNKNOWN, CLOSE_REVOKED]"

definition close_code_name :: "int \<Rightarrow> string" where
  "close_code_name code =
     (case map_of CLOSE_CODE_NAMES code of None \<Rightarrow> ''unknown'' | Some n \<Rightarrow> n)"

text \<open>The table is a faithful dictionary: one entry per code, and no two codes share a name.\<close>

lemma close_codes_distinct: "distinct (map fst CLOSE_CODE_NAMES)"
  by (simp add: CLOSE_CODE_NAMES_def close_defs)

lemma close_names_distinct: "distinct (map snd CLOSE_CODE_NAMES)"
  by (simp add: CLOSE_CODE_NAMES_def)

lemma close_code_name_known: "(c, n) \<in> set CLOSE_CODE_NAMES \<Longrightarrow> close_code_name c = n"
  using close_codes_distinct by (simp add: close_code_name_def)

lemma close_code_name_unknown: "c \<notin> fst ` set CLOSE_CODE_NAMES \<Longrightarrow> close_code_name c = ''unknown''"
  by (simp add: close_code_name_def map_of_eq_None_iff [THEN iffD2])

end
