(* ===== verification/Delivery.thy ===== *)
theory Delivery
  imports Streams Envelope
begin

text \<open>
  The three send paths of \<open>delivery.py\<close>. The channel layer is a third-party object: its
  \<open>group_send\<close> is the parameter \<open>gsend\<close>, which returns or raises and says what the layer is
  afterwards, in both cases (a call that raises may have reached some of the group already);
  \<open>None\<close> for the layer is a process where no layer is configured. A send path returns its result
  (a verdict, or the exception that leaves it) and the layer.
\<close>

type_synonym 'l group_sender = "'l \<Rightarrow> string \<Rightarrow> pydict \<Rightarrow> unit res \<times> 'l"

definition TRANSPORT_NAME :: string where
  "TRANSPORT_NAME = ''channels''"

definition GROUP_TYPE_SIGNAL :: string where
  "GROUP_TYPE_SIGNAL = ''realtime.signal''"

definition GROUP_TYPE_FRAME :: string where
  "GROUP_TYPE_FRAME = ''realtime.frame''"

definition GROUP_TYPE_REVOKE :: string where
  "GROUP_TYPE_REVOKE = ''realtime.revoke''"

text \<open>\<open>_channel_layer\<close>: whether Channels is installed, and what \<open>get_channel_layer\<close> gives.\<close>

definition channel_layer :: "bool \<Rightarrow> 'l option res \<Rightarrow> 'l option" where
  "channel_layer installed got =
     (if installed then (case got of Inl _ \<Rightarrow> None | Inr layer \<Rightarrow> layer) else None)"

text \<open>\<open>_group_send\<close>: an unusable key and a failing layer are the verdict false.\<close>

definition do_group_send :: "canon \<Rightarrow> (string \<Rightarrow> string) \<Rightarrow> 'l group_sender \<Rightarrow>
    string \<Rightarrow> pydict \<Rightarrow> 'l option \<Rightarrow> bool \<times> 'l option" where
  "do_group_send build sha gsend stream_key message layer =
     (case layer of
        None \<Rightarrow> (False, None)
      | Some l \<Rightarrow>
          (case group_name build sha stream_key of
             Inl _ \<Rightarrow> (False, layer)
           | Inr g \<Rightarrow>
               (case gsend l g message of
                  (Inl _, l') \<Rightarrow> (False, Some l')
                | (Inr _, l') \<Rightarrow> (True, Some l'))))"

definition signal_message :: "string \<Rightarrow> pydict \<Rightarrow> pydict" where
  "signal_message stream_key fr =
     [(''type'', PStr GROUP_TYPE_SIGNAL), (''stream'', PStr stream_key), (''frame'', PDict fr)]"

definition frame_message :: "string \<Rightarrow> int \<Rightarrow> pydict \<Rightarrow> pydict" where
  "frame_message stream_key seq payload =
     [(''type'', PStr GROUP_TYPE_FRAME), (''stream'', PStr stream_key), (''seq'', PInt seq),
      (''payload'', PDict payload)]"

definition revoke_message :: "string \<Rightarrow> ident option \<Rightarrow> string \<Rightarrow> pydict" where
  "revoke_message stream_key uid reason =
     [(''type'', PStr GROUP_TYPE_REVOKE), (''stream'', PStr stream_key),
      (''user_id'', (case uid of None \<Rightarrow> PNone | Some u \<Rightarrow> PStr (ident_str u))), (''reason'', PStr reason)]"

definition deliver :: "canon \<Rightarrow> (string \<Rightarrow> string) \<Rightarrow> 'l group_sender \<Rightarrow>
    string \<Rightarrow> pyval \<Rightarrow> 'l option \<Rightarrow> bool res \<times> 'l option" where
  "deliver build sha gsend stream_key fr layer =
     (case fr of
        PDict d \<Rightarrow>
          (case py_in_strings (dict_get d ''type'') PROTOCOL_FRAME_TYPES of
             Inl e \<Rightarrow> (Inl e, layer)
           | Inr reserved \<Rightarrow>
               if reserved then (Inr False, layer)
               else map_prod Inr id
                 (do_group_send build sha gsend stream_key (signal_message stream_key d) layer))
      | _ \<Rightarrow> (Inr False, layer))"

definition deliver_frame :: "canon \<Rightarrow> (string \<Rightarrow> string) \<Rightarrow> 'l group_sender \<Rightarrow>
    string \<Rightarrow> pyval \<Rightarrow> pyval \<Rightarrow> 'l option \<Rightarrow> bool res \<times> 'l option" where
  "deliver_frame build sha gsend stream_key payload seq layer =
     (case rbind (py_int seq) (\<lambda>n. rmap (Pair n) (py_dict payload)) of
        Inl e \<Rightarrow> (Inl e, layer)
      | Inr (n, d) \<Rightarrow>
          map_prod Inr id (do_group_send build sha gsend stream_key (frame_message stream_key n d) layer))"

definition revoke :: "canon \<Rightarrow> (string \<Rightarrow> string) \<Rightarrow> 'l group_sender \<Rightarrow>
    string \<Rightarrow> ident option \<Rightarrow> string \<Rightarrow> 'l option \<Rightarrow> bool res \<times> 'l option" where
  "revoke build sha gsend stream_key uid reason layer =
     map_prod Inr id (do_group_send build sha gsend stream_key (revoke_message stream_key uid reason) layer)"

text \<open>The core's registry of transports is the parameter \<open>register\<close>.\<close>

definition register_transport ::
    "(string \<Rightarrow> (string \<Rightarrow> pyval \<Rightarrow> 'l option \<Rightarrow> bool res \<times> 'l option) \<Rightarrow> 'r \<Rightarrow> 'r) \<Rightarrow>
     canon \<Rightarrow> (string \<Rightarrow> string) \<Rightarrow> 'l group_sender \<Rightarrow> 'r \<Rightarrow> 'r" where
  "register_transport register build sha gsend = register TRANSPORT_NAME (deliver build sha gsend)"

section \<open>Lemmas\<close>

lemma message_fields [simp]:
  "dict_get (signal_message k d) ''frame'' = PDict d"
  "dict_get (frame_message k n d) ''seq'' = PInt n"
  "dict_get (frame_message k n d) ''payload'' = PDict d"
  "dict_get (revoke_message k uid r) ''user_id'' = (case uid of None \<Rightarrow> PNone | Some u \<Rightarrow> PStr (ident_str u))"
  "dict_get (revoke_message k uid r) ''reason'' = PStr r"
  by (simp_all add: signal_message_def frame_message_def revoke_message_def)

lemma do_group_send_True:
  "do_group_send build sha gsend k msg layer = (True, layer') \<longleftrightarrow>
     (\<exists>l l' g. layer = Some l \<and> layer' = Some l' \<and> group_name build sha k = Inr g \<and> gsend l g msg = (Inr (), l'))"
  by (cases layer) (auto simp: do_group_send_def split: sum.splits prod.splits)

text \<open>A process without a usable layer: every send is the verdict false, whatever the key.\<close>

lemma unwired_send:
  "\<not> installed \<or> got = Inl e \<or> got = Inr None \<Longrightarrow>
     do_group_send build sha gsend k msg (channel_layer installed got) = (False, None)"
  by (auto simp: do_group_send_def channel_layer_def)

text \<open>What one call of a send path may do: nothing but answer false, or one \<open>group_send\<close> of one
  of its messages to the group of its own stream, the answer being whether that call returned.\<close>

definition sends_at_most_once :: "canon \<Rightarrow> (string \<Rightarrow> string) \<Rightarrow> 'l group_sender \<Rightarrow> string \<Rightarrow> pydict set \<Rightarrow>
    'l option \<Rightarrow> bool res \<times> 'l option \<Rightarrow> bool" where
  "sends_at_most_once build sha gsend k msgs layer r \<longleftrightarrow>
     fst r \<noteq> Inr True \<and> snd r = layer \<or>
     (\<exists>l g msg. layer = Some l \<and> group_name build sha k = Inr g \<and> msg \<in> msgs \<and>
        fst r = Inr (fst (gsend l g msg) = Inr ()) \<and> snd r = Some (snd (gsend l g msg)))"

lemma group_send_once:
  "msg \<in> msgs \<Longrightarrow>
     sends_at_most_once build sha gsend k msgs layer (map_prod Inr id (do_group_send build sha gsend k msg layer))"
  by (cases layer) (fastforce simp: do_group_send_def sends_at_most_once_def split: sum.splits prod.splits)+

lemma py_in_strings_error: "py_in_strings v xs = Inl e \<longleftrightarrow>
    e = TypeError \<and> ((\<exists>vs. v = PList vs) \<or> (\<exists>d. v = PDict d))"
  by (cases v) auto

lemma map_verdict_iff: "map_prod Inr id p = (Inr b, l) \<longleftrightarrow> p = (b, l)"
  by (cases p) auto

lemma deliver_accept_iff:
  "deliver build sha gsend k fr layer = (Inr True, layer') \<longleftrightarrow>
     (\<exists>d l l' g. fr = PDict d \<and> layer = Some l \<and> layer' = Some l' \<and>
        py_in_strings (dict_get d ''type'') PROTOCOL_FRAME_TYPES = Inr False \<and>
        group_name build sha k = Inr g \<and> gsend l g (signal_message k d) = (Inr (), l'))"
proof (cases fr)
  case (PDict d)
  show ?thesis
  proof (cases "py_in_strings (dict_get d ''type'') PROTOCOL_FRAME_TYPES")
    case (Inl e)
    then show ?thesis by (simp add: deliver_def PDict)
  next
    case (Inr b)
    then show ?thesis
      by (auto simp: deliver_def PDict map_verdict_iff do_group_send_True)
  qed
qed (simp_all add: deliver_def)

text \<open>The three paths, each as one send, and what leaves them.\<close>

lemma deliver_once: "sends_at_most_once build sha gsend k {m. \<exists>d. fr = PDict d \<and> m = signal_message k d} layer
    (deliver build sha gsend k fr layer)"
proof (cases fr)
  case (PDict d)
  have "sends_at_most_once build sha gsend k {m. \<exists>d. fr = PDict d \<and> m = signal_message k d} layer
      (map_prod Inr id (do_group_send build sha gsend k (signal_message k d) layer))"
    by (rule group_send_once) (simp add: PDict)
  then show ?thesis
    by (auto simp: PDict deliver_def sends_at_most_once_def [of _ _ _ _ _ _ "(Inl _, _)"]
        sends_at_most_once_def [of _ _ _ _ _ _ "(Inr False, _)"] split: sum.splits)
qed (simp_all add: deliver_def sends_at_most_once_def)

lemma deliver_raises: "fst (deliver build sha gsend k fr layer) = Inl e \<longleftrightarrow>
    e = TypeError \<and> (\<exists>d. fr = PDict d \<and>
      ((\<exists>vs. dict_get d ''type'' = PList vs) \<or> (\<exists>o'. dict_get d ''type'' = PDict o')))"
proof (cases fr)
  case (PDict d)
  let ?t = "py_in_strings (dict_get d ''type'') PROTOCOL_FRAME_TYPES"
  show ?thesis
  proof (cases ?t)
    case (Inl e')
    with PDict py_in_strings_error [of "dict_get d ''type''" PROTOCOL_FRAME_TYPES e']
    show ?thesis by (auto simp: deliver_def)
  next
    case (Inr b)
    then have "\<not> ((\<exists>vs. dict_get d ''type'' = PList vs) \<or> (\<exists>o'. dict_get d ''type'' = PDict o'))"
      by auto
    with PDict Inr show ?thesis by (auto simp: deliver_def)
  qed
qed (simp_all add: deliver_def)

lemma deliver_frame_once: "sends_at_most_once build sha gsend k
    {m. \<exists>n d. py_int seq = Inr n \<and> py_dict payload = Inr d \<and> m = frame_message k n d} layer
    (deliver_frame build sha gsend k payload seq layer)" (is "sends_at_most_once _ _ _ _ ?ms _ _")
proof (cases "\<exists>n d. py_int seq = Inr n \<and> py_dict payload = Inr d")
  case True
  then obtain n d where nd: "py_int seq = Inr n" "py_dict payload = Inr d" by blast
  then have "sends_at_most_once build sha gsend k ?ms layer
      (map_prod Inr id (do_group_send build sha gsend k (frame_message k n d) layer))"
    by (intro group_send_once) simp
  with nd show ?thesis by (simp add: deliver_frame_def)
next
  case False
  then show ?thesis
    by (cases "py_int seq"; cases "py_dict payload") (simp_all add: deliver_frame_def sends_at_most_once_def)
qed

lemma deliver_frame_raises: "fst (deliver_frame build sha gsend k payload seq layer) = Inl e \<longleftrightarrow>
    py_int seq = Inl e \<or> (\<exists>n. py_int seq = Inr n) \<and> py_dict payload = Inl e"
  by (cases "py_int seq"; cases "py_dict payload") (auto simp: deliver_frame_def)

section \<open>Properties\<close>

text \<open>\<open>deliver\<close> answers true exactly when the frame is a dictionary whose type the protocol
  does not own and the layer accepted the message for the stream's group; that message carries the frame
  verbatim, and no frame wearing a protocol name ever reaches the layer.\<close>

theorem deliver_accepts:
  "deliver build sha gsend k fr layer = (Inr True, layer') \<longleftrightarrow>
     (\<exists>d l l' g. fr = PDict d \<and> layer = Some l \<and> layer' = Some l' \<and>
        py_in_strings (dict_get d ''type'') PROTOCOL_FRAME_TYPES = Inr False \<and>
        group_name build sha k = Inr g \<and> gsend l g (signal_message k d) = (Inr (), l'))"
  by (rule deliver_accept_iff)



end
