(* ===== verification/Consumers.thy ===== *)
theory Consumers
  imports Authorize Conf Envelope CloseCodes Delivery
begin

text \<open>
  One socket of \<open>consumers.py\<close>: the attributes of a consumer instance as the record
  \<open>sock\<close>, and its handlers as functions that return the next state and the exception that leaves the
  handler, if one does. What the handlers do to the outside (accept, close, group membership, frames
  handed to the server, presence calls) is appended to the field \<open>log\<close>.

  A handler that waits for something that other tasks can overtake is cut there: \<open>phase\<close> says
  where the dispatched handler stands (waiting for a journal hook, or for the queue to drain) and
  \<open>beat\<close> where the heartbeat task stands. Frames taken from the queue and not yet written are in
  \<open>inflight\<close>.
\<close>

section \<open>A consumer class, its environment, and a socket\<close>

datatype kind = Base | Ephemeral | Resumable

text \<open>The class attributes. The verdict of an authorizer may depend on the time of the call.\<close>

record consumer_class =
  kind :: kind
  cls_module :: "string option"
  cls_scope_type :: "string option"
  cls_topic :: "string option"
  stream_key_kwarg :: "string option"
  cls_authorizer :: "(rat \<Rightarrow> authorizer) option"

text \<open>What surrounds a socket: the settings, the parameters of the model, the connection's scope and
  its channel name.\<close>

record env =
  cls :: consumer_class
  conf :: settings
  canon_of :: canon
  sha_of :: "string \<Rightarrow> string"
  repr_of :: "pyval \<Rightarrow> string"
  scope_of :: scope
  channel_of :: string

datatype presence_call =
    RecordConnect rat "ident option" string "string option"
  | RecordHeartbeat rat "ident option" string "string option"
  | RecordDisconnect rat "ident option" string

datatype effect =
    Accept
  | CloseSent int
  | GroupAdd string
  | GroupDiscard string
  | Wire pydict
  | Presence presence_call

datatype phase = New | Idle | AwaitSeq int | AwaitRows int int | Draining int | Dead "exc option"

datatype beat = NoBeat | Sleeping pyfloat | Renewing rat | AwaitPong pyfloat | BeatDone

record sock =
  stream_key :: "string option"
  sgroup :: "string option"
  presence_session :: "string option"
  max_seq_sent :: int
  strikes :: nat
  pong_pending :: bool
  closing :: bool
  authorized_until :: pyfloat
  outbox :: "pydict list"
  outbox_max :: int
  inflight :: "pydict option"
  writing :: bool
  beat :: beat
  phase :: phase
  log :: "effect list"

definition PROTOCOL_STRIKES :: nat where
  "PROTOCOL_STRIKES = 3"

record JournalRow =
  row_seq :: int
  row_payload :: pydict

text \<open>The instance before \<open>connect\<close>, with the attributes \<open>connect\<close> gives it.\<close>

definition new_sock :: sock where
  "new_sock =
     \<lparr>stream_key = None, sgroup = None, presence_session = None, max_seq_sent = 0, strikes = 0,
      pong_pending = False, closing = False, authorized_until = Fin 0, outbox = [], outbox_max = 1,
      inflight = None, writing = False, beat = NoBeat, phase = New, log = []\<rparr>"

type_synonym outcome = "sock \<times> exc option"

definition emit :: "effect \<Rightarrow> sock \<Rightarrow> sock" where
  "emit e s = s\<lparr>log := log s @ [e]\<rparr>"

text \<open>Sequencing: an exception ends the handler.\<close>

definition andThen :: "outcome \<Rightarrow> (sock \<Rightarrow> outcome) \<Rightarrow> outcome" where
  "andThen r f = (case r of (s, None) \<Rightarrow> f s | (s, Some e) \<Rightarrow> (s, Some e))"

lemma andThen_simps [simp]:
  "andThen (s, None) f = f s"
  "andThen (s, Some e) f = (s, Some e)"
  by (simp_all add: andThen_def)

section \<open>Outbound\<close>

definition enqueue :: "pydict \<Rightarrow> sock \<Rightarrow> sock" where
  "enqueue envelope s =
     (if closing s then s
      else if int (length (outbox s)) < outbox_max s then s\<lparr>outbox := outbox s @ [envelope]\<rparr>
      else emit (CloseSent CLOSE_OVERFLOW) (s\<lparr>closing := True\<rparr>))"

text \<open>The frame built and queued once the cursor has let it pass.\<close>

definition queue_frame :: "string \<Rightarrow> pyval \<Rightarrow> int option \<Rightarrow> sock \<Rightarrow> outcome" where
  "queue_frame frame_type payload seq s =
     (case py_dict (py_or payload (PDict [])) of
        Inl e \<Rightarrow> (s, Some e)
      | Inr d \<Rightarrow> (enqueue (frame frame_type (Some d) seq (stream_key s)) s, None))"

definition send_frame :: "string \<Rightarrow> pyval \<Rightarrow> pyval \<Rightarrow> sock \<Rightarrow> outcome" where
  "send_frame frame_type payload seq s =
     (if seq = PNone then queue_frame frame_type payload None s
      else (case py_int seq of
              Inl e \<Rightarrow> (s, Some e)
            | Inr n \<Rightarrow>
                if n \<le> max_seq_sent s then (s, None)
                else queue_frame frame_type payload (Some n) (s\<lparr>max_seq_sent := n\<rparr>)))"

definition send_error :: "string \<Rightarrow> string \<Rightarrow> sock \<Rightarrow> sock" where
  "send_error code message s = enqueue (error_frame code message (stream_key s)) s"

definition drain_then_close :: "int \<Rightarrow> sock \<Rightarrow> sock" where
  "drain_then_close code s = s\<lparr>closing := True, phase := Draining code\<rparr>"

text \<open>What follows the wait, whether the queue drained or the second ran out.\<close>

definition drained :: "int \<Rightarrow> sock \<Rightarrow> sock" where
  "drained code s = emit (CloseSent code) (s\<lparr>phase := Idle\<rparr>)"

text \<open>\<open>_writer_loop\<close>: taking the next frame, writing it, and failing to.\<close>

definition writer_take :: "sock \<Rightarrow> sock" where
  "writer_take s =
     (case outbox s of
        [] \<Rightarrow> s
      | e # es \<Rightarrow> if writing s \<and> inflight s = None then s\<lparr>outbox := es, inflight := Some e\<rparr> else s)"

definition writer_sent :: "sock \<Rightarrow> sock" where
  "writer_sent s =
     (case inflight s of
        None \<Rightarrow> s
      | Some e \<Rightarrow> if writing s then emit (Wire e) (s\<lparr>inflight := None\<rparr>) else s)"

definition writer_failed :: "sock \<Rightarrow> sock" where
  "writer_failed s = s\<lparr>inflight := None, writing := False\<rparr>"

section \<open>Who, which stream, and may they\<close>

definition socket_user_id :: "env \<Rightarrow> ident option" where
  "socket_user_id E =
     (case scope_user (scope_of E) of None \<Rightarrow> None | Some u \<Rightarrow> opt_or (user_pk u) (user_id u))"

fun text_given :: "string option \<Rightarrow> string option" where
  "text_given (Some []) = None"
| "text_given t = t"

definition get_stream_key :: "env \<Rightarrow> string res" where
  "get_stream_key E =
     (case (text_given (cls_module (cls E)), text_given (cls_scope_type (cls E)),
            text_given (stream_key_kwarg (cls E))) of
        (Some m, Some t, Some kw) \<Rightarrow>
          (case map_of (scope_kwargs (scope_of E)) kw of
             None \<Rightarrow> Inl KeyError
           | Some scope_id \<Rightarrow> canon_of E m t (ident_str scope_id) (cls_topic (cls E)))
      | _ \<Rightarrow> Inl NotImplementedError)"

definition authorize :: "env \<Rightarrow> rat \<Rightarrow> string \<Rightarrow> bool res" where
  "authorize E now key =
     (case cls_authorizer (cls E) of
        None \<Rightarrow> deny (scope_of E) key
      | Some a \<Rightarrow> a now (scope_of E) key)"

text \<open>\<open>_authorize_cached\<close>; before \<open>connect\<close> has set the key there is no stream to ask
  about.\<close>

definition authorize_cached :: "env \<Rightarrow> bool \<Rightarrow> rat \<Rightarrow> sock \<Rightarrow> bool res \<times> sock" where
  "authorize_cached E force now s =
     (if \<not> force \<and> pf_lt (Fin now) (authorized_until s) then (Inr True, s)
      else (case stream_key s of
              None \<Rightarrow> (Inl TypeError, s)
            | Some key \<Rightarrow>
                (case authorize E now key of
                   Inl e \<Rightarrow> (Inl e, s)
                 | Inr False \<Rightarrow> (Inr False, s\<lparr>authorized_until := Fin 0\<rparr>)
                 | Inr True \<Rightarrow>
                     (case authorize_ttl (conf E) of
                        Inl e \<Rightarrow> (Inl e, s)
                      | Inr ttl \<Rightarrow> (Inr True, s\<lparr>authorized_until := pf_add (Fin now) ttl\<rparr>)))))"

definition presence_family :: "env \<Rightarrow> sock \<Rightarrow> string option res" where
  "presence_family E s =
     (case stream_key s of
        None \<Rightarrow> Inr (cls_module (cls E))
      | Some key \<Rightarrow>
          (case parse_stream_key (canon_of E) key of
             Inr sk \<Rightarrow> Inr (Some (key_module sk))
           | Inl e \<Rightarrow> if e = InvalidStreamKey \<or> e = TypeError then Inr (cls_module (cls E)) else Inl e))"

text \<open>\<open>claims.get("exp")\<close> compared with the wall clock.\<close>

definition token_expired :: "env \<Rightarrow> rat \<Rightarrow> bool res" where
  "token_expired E now =
     (let exp = dict_get (case scope_claims (scope_of E) of None \<Rightarrow> [] | Some c \<Rightarrow> c) ''exp''
      in if exp = PNone then Inr False
         else (case py_float exp of
                 Inr f \<Rightarrow> Inr (pf_le f (Fin now))
               | Inl e \<Rightarrow> if e = TypeError \<or> e = ValueError then Inr False else Inl e))"

section \<open>Lifecycle\<close>

text \<open>The end of \<open>connect\<close>: presence, the writer and the heartbeat task.\<close>

definition start_beat :: "env \<Rightarrow> rat \<Rightarrow> pyfloat \<Rightarrow> beat" where
  "start_beat E now interval =
     (case heartbeat_timeout (conf E) of
        Inl _ \<Rightarrow> BeatDone
      | Inr _ \<Rightarrow> Sleeping (pf_add (Fin now) interval))"

definition after_accept :: "env \<Rightarrow> rat \<Rightarrow> sock \<Rightarrow> outcome" where
  "after_accept E now s0 =
     (let s = s0\<lparr>presence_session := Some (channel_of E)\<rparr>
      in case presence_family E s of
           Inl e \<Rightarrow> (s, Some e)
         | Inr family \<Rightarrow>
             (let s1 = (emit (Presence (RecordConnect now (socket_user_id E) (channel_of E) family)) s)\<lparr>writing := True\<rparr>
              in case heartbeat_interval (conf E) of
                   Inl e \<Rightarrow> (s1, Some e)
                 | Inr interval \<Rightarrow>
                     (if pf_lt (Fin 0) interval then s1\<lparr>beat := start_beat E now interval\<rparr> else s1, None)))"

text \<open>Authorization, the group and the handshake, once the key is known.\<close>

definition subscribe :: "env \<Rightarrow> rat \<Rightarrow> rat \<Rightarrow> bool \<Rightarrow> sock \<Rightarrow> outcome" where
  "subscribe E tick now layer_ok s =
     (case authorize_cached E True tick s of
        (Inl e, s1) \<Rightarrow> (s1, Some e)
      | (Inr False, s1) \<Rightarrow> (emit (CloseSent CLOSE_FORBIDDEN) s1, None)
      | (Inr True, s1) \<Rightarrow>
          (case rbind (case stream_key s1 of None \<Rightarrow> Inl TypeError | Some k \<Rightarrow> Inr k)
                  (group_name (canon_of E) (sha_of E)) of
             Inl e \<Rightarrow> (s1, Some e)
           | Inr g \<Rightarrow>
               (let s2 = s1\<lparr>sgroup := Some g\<rparr>
                in if \<not> layer_ok then (s2, Some OtherError)
                   else after_accept E now (emit Accept (emit (GroupAdd g) s2)))))"

definition connect :: "env \<Rightarrow> rat \<Rightarrow> rat \<Rightarrow> bool \<Rightarrow> sock \<Rightarrow> outcome" where
  "connect E tick now layer_ok s =
     (case send_queue_maxsize (conf E) of
        Inl e \<Rightarrow> (s, Some e)
      | Inr cap \<Rightarrow>
          (let s1 = s\<lparr>stream_key := None, sgroup := None, presence_session := None, max_seq_sent := 0,
               strikes := 0, pong_pending := False, closing := False, writing := False, beat := NoBeat,
               outbox := [], outbox_max := cap, phase := Idle\<rparr>
           in if \<not> (case scope_user (scope_of E) of None \<Rightarrow> False | Some u \<Rightarrow> is_authenticated u)
              then (emit (CloseSent CLOSE_UNAUTHENTICATED) s1, None)
              else (case get_stream_key E of
                      Inl e \<Rightarrow>
                        if e = InvalidStreamKey \<or> e = KeyError \<or> e = ValueError
                        then (emit (CloseSent CLOSE_STREAM_UNKNOWN) s1, None)
                        else (s1, Some e)
                    | Inr key \<Rightarrow> subscribe E tick now layer_ok (s1\<lparr>stream_key := Some key\<rparr>))))"

text \<open>\<open>disconnect\<close>; the task that is cancelled does not run again.\<close>

definition disconnect :: "env \<Rightarrow> rat \<Rightarrow> bool \<Rightarrow> sock \<Rightarrow> outcome" where
  "disconnect E now layer_ok s0 =
     (let s = s0\<lparr>closing := True, writing := False, beat := (if beat s0 = NoBeat then NoBeat else BeatDone)\<rparr>;
          s1 = (case text_given (presence_session s) of
                  None \<Rightarrow> s
                | Some session \<Rightarrow>
                    emit (Presence (RecordDisconnect now (socket_user_id E) session))
                      (s\<lparr>presence_session := None\<rparr>))
      in case text_given (sgroup s1) of
           None \<Rightarrow> (s1, None)
         | Some g \<Rightarrow> if layer_ok then (emit (GroupDiscard g) s1, None) else (s1, Some OtherError))"


section \<open>Inbound frames\<close>

text \<open>\<open>on_hello\<close> of the three classes. The resumable one stops at its first hook.\<close>

definition base_on_hello :: "Frame \<Rightarrow> sock \<Rightarrow> outcome" where
  "base_on_hello fr = send_frame WELCOME (PDict [(''server_seq'', PInt 0)]) PNone"

definition ephemeral_on_hello :: "Frame \<Rightarrow> sock \<Rightarrow> outcome" where
  "ephemeral_on_hello fr = send_frame WELCOME (PDict [(''ephemeral'', PBool True)]) PNone"

definition seq_message :: string where
  "seq_message = quoted ''last_seq'' @ '' must be an integer''"

definition resumable_on_hello :: "Frame \<Rightarrow> sock \<Rightarrow> outcome" where
  "resumable_on_hello fr s =
     (case py_int (py_or (dict_get (fpayload fr) ''last_seq'') (PInt 0)) of
        Inr n \<Rightarrow> (s\<lparr>phase := AwaitSeq (max 0 n)\<rparr>, None)
      | Inl e \<Rightarrow>
          if e = TypeError \<or> e = ValueError then (send_error ERROR_BAD_ENVELOPE seq_message s, None)
          else (s, Some e))"

text \<open>From the return of \<open>get_server_seq\<close> to the call of \<open>get_replay_rows\<close>, and from
  its return to the end.\<close>

definition resync_payload :: "int \<Rightarrow> int \<Rightarrow> int \<Rightarrow> pyval" where
  "resync_payload gap limit server_seq =
     PDict [(''gap'', PInt gap), (''window'', PInt limit), (''server_seq'', PInt server_seq)]"

definition hello_server_seq :: "env \<Rightarrow> int \<Rightarrow> pyval res \<Rightarrow> sock \<Rightarrow> outcome" where
  "hello_server_seq E last_seq hook s =
     (case rbind hook py_int of
        Inl e \<Rightarrow> (s, Some e)
      | Inr server_seq \<Rightarrow>
          andThen (send_frame WELCOME (PDict [(''server_seq'', PInt server_seq)]) PNone (s\<lparr>phase := Idle\<rparr>))
            (\<lambda>s1. let s2 = s1\<lparr>max_seq_sent := max (max_seq_sent s1) last_seq\<rparr>
              in case max_replay (conf E) of
                   Inl e \<Rightarrow> (s2, Some e)
                 | Inr limit \<Rightarrow>
                     if limit < server_seq - last_seq
                     then send_frame RESYNC (resync_payload (server_seq - last_seq) limit server_seq) PNone s2
                     else (s2\<lparr>phase := AwaitRows last_seq server_seq\<rparr>, None)))"

text \<open>The hooks a module must implement; the class's own raise.\<close>

definition default_server_seq :: "pyval res" where
  "default_server_seq = Inl NotImplementedError"

definition default_replay_rows :: "int \<Rightarrow> int \<Rightarrow> JournalRow list res" where
  "default_replay_rows after_seq limit = Inl NotImplementedError"

fun replay_rows :: "JournalRow list \<Rightarrow> sock \<Rightarrow> outcome" where
  "replay_rows [] s = (s, None)"
| "replay_rows (r # rs) s =
     andThen (send_frame REPLAY (PDict (row_payload r)) (PInt (row_seq r)) s) (replay_rows rs)"

definition hello_rows :: "int \<Rightarrow> JournalRow list res \<Rightarrow> sock \<Rightarrow> outcome" where
  "hello_rows server_seq hook s =
     (case hook of
        Inl e \<Rightarrow> (s, Some e)
      | Inr rows \<Rightarrow>
          andThen (replay_rows rows (s\<lparr>phase := Idle\<rparr>))
            (send_frame REPLAY_DONE (PDict [(''up_to_seq'', PInt server_seq)]) PNone))"

definition on_hello :: "env \<Rightarrow> Frame \<Rightarrow> sock \<Rightarrow> outcome" where
  "on_hello E =
     (case kind (cls E) of
        Base \<Rightarrow> base_on_hello
      | Ephemeral \<Rightarrow> ephemeral_on_hello
      | Resumable \<Rightarrow> resumable_on_hello)"

definition on_ping :: "Frame \<Rightarrow> sock \<Rightarrow> outcome" where
  "on_ping fr = send_frame PONG PNone PNone"

definition on_pong :: "Frame \<Rightarrow> sock \<Rightarrow> outcome" where
  "on_pong fr s = (s\<lparr>pong_pending := False\<rparr>, None)"

definition frame_handlers :: "env \<Rightarrow> (string \<times> (Frame \<Rightarrow> sock \<Rightarrow> outcome)) list" where
  "frame_handlers E = [(HELLO, on_hello E), (PING, on_ping), (PONG, on_pong)]"

definition bad_type_message :: "env \<Rightarrow> string \<Rightarrow> string" where
  "bad_type_message E t = ''unknown or unaccepted frame type '' @ repr_of E (PStr t)"

definition lost_rights_message :: string where
  "lost_rights_message = ''no longer authorized for this stream''"

definition protocol_error :: "env \<Rightarrow> envelope_fault \<Rightarrow> sock \<Rightarrow> sock" where
  "protocol_error E fault s =
     (let s1 = send_error ERROR_BAD_ENVELOPE (fault_text (repr_of E) fault) (s\<lparr>strikes := strikes s + 1\<rparr>)
      in if PROTOCOL_STRIKES \<le> strikes s1 then drain_then_close CLOSE_PROTOCOL_ERROR s1 else s1)"

definition receive_json :: "env \<Rightarrow> rat \<Rightarrow> pyval \<Rightarrow> sock \<Rightarrow> outcome" where
  "receive_json E tick content s =
     (case parse_frame content of
        Inl (InvalidEnvelope fault) \<Rightarrow> (protocol_error E fault s, None)
      | Inl e \<Rightarrow> (s, Some e)
      | Inr fr \<Rightarrow>
          (case map_of (frame_handlers E) (ftype fr) of
             None \<Rightarrow> (send_error ERROR_BAD_TYPE (bad_type_message E (ftype fr)) s, None)
           | Some handler \<Rightarrow>
               if ftype fr \<noteq> HELLO then handler fr s
               else (case authorize_cached E False tick s of
                       (Inl e, s1) \<Rightarrow> (s1, Some e)
                     | (Inr allowed, s1) \<Rightarrow>
                         if allowed then handler fr s1
                         else (drain_then_close CLOSE_FORBIDDEN
                                 (send_error ERROR_UNAUTHORIZED lost_rights_message s1), None))))"

section \<open>Group events\<close>

definition realtime_signal :: "pydict \<Rightarrow> sock \<Rightarrow> outcome" where
  "realtime_signal event s =
     (case py_dict (py_or (dict_get event ''frame'') (PDict [])) of
        Inl e \<Rightarrow> (s, Some e)
      | Inr d \<Rightarrow>
          if d = [] then (s, None)
          else (enqueue (dict_setdefault ''stream''
                  (case stream_key s of None \<Rightarrow> PNone | Some k \<Rightarrow> PStr k) d) s, None))"

definition realtime_frame :: "pydict \<Rightarrow> sock \<Rightarrow> outcome" where
  "realtime_frame event =
     send_frame LIVE (py_or (dict_get event ''payload'') (PDict [])) (dict_get event ''seq'')"

definition revoke_targets :: "env \<Rightarrow> pyval \<Rightarrow> bool" where
  "revoke_targets E target \<longleftrightarrow>
     target = PNone \<or>
     py_str (repr_of E) target = (case socket_user_id E of None \<Rightarrow> ''None'' | Some u \<Rightarrow> ident_str u)"

definition kick_payload :: "pyval \<Rightarrow> pyval" where
  "kick_payload reason = PDict [(''reason'', py_or reason (PStr ''access_revoked''))]"

definition realtime_revoke :: "env \<Rightarrow> pydict \<Rightarrow> sock \<Rightarrow> outcome" where
  "realtime_revoke E event s =
     (if \<not> revoke_targets E (dict_get event ''user_id'') then (s, None)
      else andThen (send_frame KICK (kick_payload (dict_get event ''reason'')) PNone s)
             (\<lambda>s1. (drain_then_close CLOSE_REVOKED s1, None)))"

section \<open>The heartbeat task\<close>

text \<open>The three points \<open>_heartbeat_loop\<close> resumes at: the interval is over, the presence write
  has returned, and the time for the answer is over. An exception ends the task.\<close>

definition beat_ping :: "env \<Rightarrow> rat \<Rightarrow> sock \<Rightarrow> sock" where
  "beat_ping E now s =
     (case (send_frame PING PNone PNone (s\<lparr>pong_pending := True\<rparr>), heartbeat_timeout (conf E)) of
        ((s1, None), Inr timeout) \<Rightarrow> s1\<lparr>beat := AwaitPong (pf_add (Fin now) timeout)\<rparr>
      | ((s1, _), _) \<Rightarrow> s1\<lparr>beat := BeatDone\<rparr>)"

definition beat_wake :: "env \<Rightarrow> rat \<Rightarrow> sock \<Rightarrow> sock" where
  "beat_wake E now s =
     (if closing s then s\<lparr>beat := BeatDone\<rparr>
      else (case token_expired E now of
              Inl e \<Rightarrow> s\<lparr>beat := BeatDone\<rparr>
            | Inr True \<Rightarrow> emit (CloseSent CLOSE_UNAUTHENTICATED) (s\<lparr>closing := True, beat := BeatDone\<rparr>)
            | Inr False \<Rightarrow>
                (case text_given (presence_session s) of
                   None \<Rightarrow> beat_ping E now s
                 | Some session \<Rightarrow>
                     (case presence_family E s of
                        Inl e \<Rightarrow> s\<lparr>beat := BeatDone\<rparr>
                      | Inr family \<Rightarrow>
                          emit (Presence (RecordHeartbeat now (socket_user_id E) session family))
                            (s\<lparr>beat := Renewing now\<rparr>)))))"

definition beat_deadline :: "env \<Rightarrow> rat \<Rightarrow> sock \<Rightarrow> sock" where
  "beat_deadline E now s =
     (if pong_pending s \<and> \<not> closing s
      then emit (CloseSent CLOSE_HEARTBEAT_TIMEOUT) (s\<lparr>closing := True, beat := BeatDone\<rparr>)
      else (case heartbeat_interval (conf E) of
              Inl e \<Rightarrow> s\<lparr>beat := BeatDone\<rparr>
            | Inr interval \<Rightarrow> s\<lparr>beat := Sleeping (pf_add (Fin now) interval)\<rparr>))"

section \<open>What one socket can do next\<close>

text \<open>
  The events of a socket. Channels dispatches one message at a time, so the dispatched ones need the
  phase \<open>Idle\<close>; the writer and the heartbeat run beside them. The server relays a client's frames
  only for an accepted socket, and the layer its group's messages only while it is in the group; those
  are the messages that the send paths build.
\<close>

datatype event =
    Connect rat rat bool
  | Receive rat pyval
  | GroupMessage pydict
  | Leave rat bool
  | ServerSeq "pyval res"
  | Rows "JournalRow list res"
  | DrainOver
  | WriterTakes
  | WriterWrites
  | WriterFails
  | BeatWakes rat
  | BeatRenewed rat
  | BeatDeadline rat

definition settle :: "outcome \<Rightarrow> sock" where
  "settle r = (case r of (s, None) \<Rightarrow> s | (s, Some e) \<Rightarrow> s\<lparr>phase := Dead (Some e)\<rparr>)"

text \<open>After \<open>disconnect\<close> the consumer stops for good.\<close>

definition stop :: "outcome \<Rightarrow> sock" where
  "stop r = (case r of (s, e) \<Rightarrow> s\<lparr>phase := Dead e\<rparr>)"

definition dispatch_group :: "env \<Rightarrow> pydict \<Rightarrow> sock \<Rightarrow> outcome" where
  "dispatch_group E msg s =
     (if dict_get msg ''type'' = PStr GROUP_TYPE_SIGNAL then realtime_signal msg s
      else if dict_get msg ''type'' = PStr GROUP_TYPE_FRAME then realtime_frame msg s
      else if dict_get msg ''type'' = PStr GROUP_TYPE_REVOKE then realtime_revoke E msg s
      else (s, Some ValueError))"

inductive sent_by_delivery :: "pydict \<Rightarrow> bool" where
  by_deliver: "py_in_strings (dict_get d ''type'') PROTOCOL_FRAME_TYPES = Inr False \<Longrightarrow>
    sent_by_delivery (signal_message k d)"
| by_deliver_frame: "sent_by_delivery (frame_message k n d)"
| by_revoke: "sent_by_delivery (revoke_message k uid reason)"

definition accepted :: "sock \<Rightarrow> bool" where
  "accepted s \<longleftrightarrow> Accept \<in> set (log s)"

inductive moves :: "env \<Rightarrow> sock \<Rightarrow> event \<Rightarrow> sock \<Rightarrow> bool" for E where
  connects: "phase s = New \<Longrightarrow> moves E s (Connect tick now ok) (settle (connect E tick now ok s))"
| receives: "phase s = Idle \<Longrightarrow> accepted s \<Longrightarrow>
    moves E s (Receive tick content) (settle (receive_json E tick content s))"
| hears: "phase s = Idle \<Longrightarrow> accepted s \<Longrightarrow> sent_by_delivery msg \<Longrightarrow>
    moves E s (GroupMessage msg) (settle (dispatch_group E msg s))"
| leaves: "phase s = Idle \<Longrightarrow> moves E s (Leave now ok) (stop (disconnect E now ok s))"
| gets_seq: "phase s = AwaitSeq after \<Longrightarrow>
    moves E s (ServerSeq hook) (settle (hello_server_seq E after hook s))"
| gets_rows: "phase s = AwaitRows after server \<Longrightarrow>
    moves E s (Rows hook) (settle (hello_rows server hook s))"
| drains: "phase s = Draining code \<Longrightarrow> moves E s DrainOver (drained code s)"
| takes: "moves E s WriterTakes (writer_take s)"
| writes: "moves E s WriterWrites (writer_sent s)"
| fails: "inflight s \<noteq> None \<Longrightarrow> writing s \<Longrightarrow> moves E s WriterFails (writer_failed s)"
| wakes: "beat s = Sleeping due \<Longrightarrow> pf_le due (Fin now) \<Longrightarrow> moves E s (BeatWakes now) (beat_wake E now s)"
| renewed: "beat s = Renewing t \<Longrightarrow> t \<le> now \<Longrightarrow> moves E s (BeatRenewed now) (beat_ping E now s)"
| deadline: "beat s = AwaitPong due \<Longrightarrow> pf_le due (Fin now) \<Longrightarrow>
    moves E s (BeatDeadline now) (beat_deadline E now s)"

inductive reachable :: "env \<Rightarrow> sock \<Rightarrow> bool" for E where
  start: "reachable E new_sock"
| step: "reachable E s \<Longrightarrow> moves E s ev s' \<Longrightarrow> reachable E s'"

inductive_cases moves_connectE: "moves E s (Connect tick now ok) s'"
inductive_cases moves_leaveE: "moves E s (Leave now ok) s'"
inductive_cases moves_hearE: "moves E s (GroupMessage msg) s'"
inductive_simps sent_by_delivery_iff: "sent_by_delivery msg"

end
