(* ===== verification/ConsumerSafety.thy ===== *)
theory ConsumerSafety
  imports Consumers "HOL-Library.Sublist"
begin

text \<open>
  Safety of a socket over every sequence of moves. All moves but \<open>connect\<close> and
  \<open>disconnect\<close> are compositions of a few small steps (\<open>small\<close>); an invariant is proved for the
  small steps once and for the two ends of the lifecycle directly.
\<close>

section \<open>Frames and small steps\<close>

definition wire_frames :: "effect list \<Rightarrow> pydict list" where
  "wire_frames es = List.map_filter (\<lambda>e. case e of Wire f \<Rightarrow> Some f | _ \<Rightarrow> None) es"

text \<open>All the frames of a socket in their order: written, being written, queued.\<close>

definition frames :: "sock \<Rightarrow> pydict list" where
  "frames s = wire_frames (log s) @ (case inflight s of None \<Rightarrow> [] | Some f \<Rightarrow> [f]) @ outbox s"

text \<open>The sequence of a journal frame.\<close>

definition journal_seq :: "pydict \<Rightarrow> int option" where
  "journal_seq f =
     (if dict_get f ''type'' = PStr LIVE \<or> dict_get f ''type'' = PStr REPLAY
      then (case dict_get f ''seq'' of PInt n \<Rightarrow> Some n | _ \<Rightarrow> None) else None)"

definition journal_seqs :: "sock \<Rightarrow> int list" where
  "journal_seqs s = List.map_filter journal_seq (frames s)"

definition codes :: "int set" where
  "codes = fst ` set CLOSE_CODE_NAMES"

text \<open>What a small step may add to the log besides a frame: a close of a closing socket, and a
  presence renewal.\<close>

fun quiet :: "sock \<Rightarrow> effect \<Rightarrow> bool" where
  "quiet s (CloseSent c) = (closing s \<and> c \<in> codes \<or> phase s = Draining c)"
| "quiet s (Presence (RecordHeartbeat t u sid f)) = True"
| "quiet s _ = False"

text \<open>The frames a socket sends outside its journal: the protocol's own, each with the payload its type
  has, and the frame of a delivered signal, of a type the protocol does not own, completed by the
  socket's stream.\<close>

definition protocol_payload :: "string \<Rightarrow> pydict \<Rightarrow> bool" where
  "protocol_payload t d \<longleftrightarrow>
     t = WELCOME \<and> (d = [(''ephemeral'', PBool True)] \<or> (\<exists>n. d = [(''server_seq'', PInt n)])) \<or>
     (t = PING \<or> t = PONG) \<and> d = [] \<or>
     t = REPLAY_DONE \<and> (\<exists>n. d = [(''up_to_seq'', PInt n)]) \<or>
     t = RESYNC \<and> (\<exists>gap limit n. PDict d = resync_payload gap limit n) \<or>
     t = KICK \<and> (\<exists>r. d = [(''reason'', PStr r)]) \<or>
     t = ERROR \<and> (\<exists>c m. c \<in> {ERROR_BAD_ENVELOPE, ERROR_BAD_TYPE, ERROR_UNAUTHORIZED} \<and>
       d = [(''code'', PStr c), (''message'', PStr m)])"

definition key_value :: "string option \<Rightarrow> pyval" where
  "key_value k = (case k of None \<Rightarrow> PNone | Some key \<Rightarrow> PStr key)"

inductive plain_frame :: "(event \<Rightarrow> bool) \<Rightarrow> string option \<Rightarrow> pydict \<Rightarrow> bool" for R k where
  protocol: "protocol_payload t d \<Longrightarrow> plain_frame R k (frame t (Some d) None k)"
| relayed: "d \<noteq> [] \<Longrightarrow> py_in_strings (dict_get d ''type'') PROTOCOL_FRAME_TYPES = Inr False \<Longrightarrow>
    R (GroupMessage (signal_message key d)) \<Longrightarrow> plain_frame R k (dict_setdefault ''stream'' (key_value k) d)"

text \<open>The row an event brings to a socket, and the type of the frame it leaves in: a live frame from its
  group, a replayed one from its replay hook.\<close>

fun brings :: "event \<Rightarrow> string \<Rightarrow> int \<Rightarrow> pydict \<Rightarrow> bool" where
  "brings (GroupMessage msg) t n d = (t = LIVE \<and> (\<exists>key. msg = frame_message key n d))"
| "brings (Rows (Inr rows)) t n d = (t = REPLAY \<and> (\<exists>r\<in>set rows. n = row_seq r \<and> d = row_payload r))"
| "brings _ t n d = False"

inductive small :: "(event \<Rightarrow> bool) \<Rightarrow> sock \<Rightarrow> sock \<Rightarrow> bool" for R where
  tune: "\<lbrakk>log s' = log s; outbox s' = outbox s; outbox_max s' = outbox_max s; inflight s' = inflight s;
    writing s' = writing s; max_seq_sent s' = max_seq_sent s; closing s \<longrightarrow> closing s'; stream_key s' = stream_key s;
    sgroup s' = sgroup s; presence_session s' = presence_session s;
    phase s' \<noteq> New \<or> phase s = New; phase s' \<noteq> Dead None \<or> phase s = Dead None;
    \<forall>c. phase s' = Draining c \<longrightarrow> closing s' \<and> c \<in> codes \<or> phase s = Draining c\<rbrakk> \<Longrightarrow> small R s s'"
| note_effect: "quiet s e \<Longrightarrow> small R s (emit e s)"
| raise_cursor: "max_seq_sent s \<le> n \<Longrightarrow> small R s (s\<lparr>max_seq_sent := n\<rparr>)"
| plain: "plain_frame R (stream_key s) f \<Longrightarrow> small R s (enqueue f s)"
| journal: "max_seq_sent s < n \<Longrightarrow> t = LIVE \<or> t = REPLAY \<Longrightarrow> R ev \<Longrightarrow> brings ev t n d \<Longrightarrow>
    small R s (enqueue (frame t (Some d) (Some n) (stream_key s)) (s\<lparr>max_seq_sent := n\<rparr>))"
| take_frame: "small R s (writer_take s)"
| write_frame: "small R s (writer_sent s)"
| drop_frame: "inflight s \<noteq> None \<Longrightarrow> writing s \<Longrightarrow> small R s (writer_failed s)"

abbreviation smalls :: "(event \<Rightarrow> bool) \<Rightarrow> sock \<Rightarrow> sock \<Rightarrow> bool" where
  "smalls R \<equiv> (small R)\<^sup>*\<^sup>*"

lemma wire_frames_simps [simp]:
  "wire_frames [] = []"
  "wire_frames (es @ es') = wire_frames es @ wire_frames es'"
  "wire_frames [Wire f] = [f]"
  "wire_frames [Accept] = []" "wire_frames [CloseSent c] = []" "wire_frames [GroupAdd g] = []"
  "wire_frames [GroupDiscard g] = []" "wire_frames [Presence p] = []"
  by (simp_all add: wire_frames_def List.map_filter_def)

lemma quiet_silent [simp]: "quiet s e \<Longrightarrow> wire_frames [e] = []"
  by (cases e) auto

lemma journal_seq_frame [simp]:
  "journal_seq (frame t p q k) = (if t = LIVE \<or> t = REPLAY then q else None)"
  by (auto simp: journal_seq_def split: option.splits)

lemma codes_known [simp]:
  "CLOSE_PROTOCOL_ERROR \<in> codes" "CLOSE_UNAUTHENTICATED \<in> codes" "CLOSE_FORBIDDEN \<in> codes"
  "CLOSE_STREAM_UNKNOWN \<in> codes" "CLOSE_HEARTBEAT_TIMEOUT \<in> codes" "CLOSE_REVOKED \<in> codes"
  "CLOSE_OVERFLOW \<in> codes"
  by (simp_all add: codes_def CLOSE_CODE_NAMES_def close_defs)

lemma wire_distinct [simp]:
  "LIVE \<noteq> REPLAY" "WELCOME \<noteq> LIVE" "WELCOME \<noteq> REPLAY" "KICK \<noteq> LIVE" "KICK \<noteq> REPLAY" "PING \<noteq> LIVE"
  "PING \<noteq> REPLAY" "PONG \<noteq> LIVE" "PONG \<noteq> REPLAY" "ERROR \<noteq> LIVE" "ERROR \<noteq> REPLAY" "RESYNC \<noteq> LIVE"
  "RESYNC \<noteq> REPLAY" "REPLAY_DONE \<noteq> LIVE" "REPLAY_DONE \<noteq> REPLAY" "HELLO \<noteq> PING" "HELLO \<noteq> PONG" "PING \<noteq> PONG"
  by (simp_all add: wire_defs)

lemma emit_fields [simp]:
  "log (emit e s) = log s @ [e]" "outbox (emit e s) = outbox s" "outbox_max (emit e s) = outbox_max s"
  "inflight (emit e s) = inflight s" "max_seq_sent (emit e s) = max_seq_sent s" "closing (emit e s) = closing s"
  "stream_key (emit e s) = stream_key s" "sgroup (emit e s) = sgroup s"
  "presence_session (emit e s) = presence_session s" "phase (emit e s) = phase s" "beat (emit e s) = beat s"
  "writing (emit e s) = writing s" "strikes (emit e s) = strikes s" "pong_pending (emit e s) = pong_pending s"
  "authorized_until (emit e s) = authorized_until s"
  by (simp_all add: emit_def)

lemma dict_get_setdefault:
  "k \<noteq> k' \<Longrightarrow> dict_get (dict_setdefault k v d) k' = dict_get d k'"
  by (auto simp: dict_setdefault_def dict_get_def map_of_append map_add_def split: option.splits)

lemma signal_not_journal:
  assumes "py_in_strings (dict_get d ''type'') PROTOCOL_FRAME_TYPES = Inr False"
  shows "journal_seq (dict_setdefault ''stream'' v d) = None"
proof -
  have "dict_get d ''type'' \<noteq> PStr LIVE" "dict_get d ''type'' \<noteq> PStr REPLAY"
    using assms by (auto simp: PROTOCOL_FRAME_TYPES_def SERVER_FRAME_TYPES_def)
  then show ?thesis by (simp add: journal_seq_def dict_get_setdefault)
qed

lemma plain_not_journal [dest]: "plain_frame R k f \<Longrightarrow> journal_seq f = None"
proof (induction rule: plain_frame.induct)
  case (protocol t d)
  then have "t \<noteq> LIVE \<and> t \<noteq> REPLAY" by (auto simp: protocol_payload_def)
  then show ?case by simp
qed (simp add: signal_not_journal)

section \<open>Every handler is a composition of small steps\<close>

named_theorems smalls_intro \<open>handlers as compositions of small steps\<close>

lemma smalls_tune:
  assumes "log s' = log s" "outbox s' = outbox s" "outbox_max s' = outbox_max s" "inflight s' = inflight s"
    "writing s' = writing s" "max_seq_sent s' = max_seq_sent s" "closing s \<longrightarrow> closing s'" "stream_key s' = stream_key s"
    "sgroup s' = sgroup s" "presence_session s' = presence_session s" "phase s' \<noteq> New \<or> phase s = New"
    "phase s' \<noteq> Dead None \<or> phase s = Dead None"
    "\<forall>c. phase s' = Draining c \<longrightarrow> closing s' \<and> c \<in> codes \<or> phase s = Draining c"
  shows "smalls R s s'"
  using assms by (intro r_into_rtranclp small.tune) auto

lemma smalls_enqueue: "plain_frame R (stream_key s) f \<Longrightarrow> smalls R s (enqueue f s)"
  by (intro r_into_rtranclp small.plain)

lemma smalls_error:
  "c \<in> {ERROR_BAD_ENVELOPE, ERROR_BAD_TYPE, ERROR_UNAUTHORIZED} \<Longrightarrow> smalls R s (send_error c m s)"
  unfolding send_error_def error_frame_def
  by (intro smalls_enqueue plain_frame.protocol) (auto simp: protocol_payload_def)

lemmas smalls_errors [smalls_intro, simp] =
  smalls_error [of ERROR_BAD_ENVELOPE, simplified] smalls_error [of ERROR_BAD_TYPE, simplified]
  smalls_error [of ERROR_UNAUTHORIZED, simplified]

lemma smalls_send_plain:
  assumes "\<And>d. py_dict (py_or p (PDict [])) = Inr d \<Longrightarrow> protocol_payload t d"
  shows "smalls R s (fst (send_frame t p PNone s))"
  using assms
  by (auto simp: send_frame_def queue_frame_def intro!: smalls_enqueue plain_frame.protocol split: sum.splits)

text \<open>The frames the handlers send, with their payloads.\<close>

lemma ping_sends: "send_frame PING PNone PNone s = (enqueue (frame PING (Some []) None (stream_key s)) s, None)"
  by (simp add: send_frame_def queue_frame_def py_or_def)

lemma smalls_sends [smalls_intro]:
  "smalls R s (fst (send_frame WELCOME (PDict [(''server_seq'', PInt n)]) PNone s))"
  "smalls R s (fst (send_frame WELCOME (PDict [(''ephemeral'', PBool True)]) PNone s))"
  "smalls R s (fst (send_frame PING PNone PNone s))"
  "smalls R s (fst (send_frame PONG PNone PNone s))"
  "smalls R s (fst (send_frame REPLAY_DONE (PDict [(''up_to_seq'', PInt n)]) PNone s))"
  "smalls R s (fst (send_frame RESYNC (resync_payload gap limit n) PNone s))"
  "smalls R s (fst (send_frame KICK (kick_payload (PStr r)) PNone s))"
  by (rule smalls_send_plain, auto simp: protocol_payload_def py_or_def resync_payload_def kick_payload_def)+

lemma smalls_send_journal:
  assumes "\<And>d. py_dict (py_or p (PDict [])) = Inr d \<Longrightarrow> brings ev t n d"
    and "t = LIVE \<or> t = REPLAY" "R ev"
  shows "smalls R s (fst (send_frame t p (PInt n) s))"
proof (cases "n \<le> max_seq_sent s")
  case True
  then show ?thesis by (simp add: send_frame_def)
next
  case False
  then have n: "max_seq_sent s < n" by simp
  show ?thesis
  proof (cases "py_dict (py_or p (PDict []))")
    case (Inl e)
    with n assms(2) show ?thesis
      by (auto simp: send_frame_def queue_frame_def intro!: r_into_rtranclp small.raise_cursor)
  next
    case (Inr d)
    then show ?thesis
      using small.journal [where R = R and ev = ev and d = d, OF n assms(2,3) assms(1) [OF Inr]] n
      by (auto simp: send_frame_def queue_frame_def)
  qed
qed

lemma smalls_drain_then_close: "c \<in> codes \<Longrightarrow> smalls R s (drain_then_close c s)"
  by (rule smalls_tune) (auto simp: drain_then_close_def)

lemma smalls_emit: "quiet s e \<Longrightarrow> smalls R s (emit e s)"
  by (intro r_into_rtranclp small.note_effect)

lemma smalls_andThen:
  "smalls R s (fst r) \<Longrightarrow> (\<And>s1. smalls R s1 (fst (f s1))) \<Longrightarrow> smalls R s (fst (andThen r f))"
  by (cases r rule: prod.exhaust; cases "snd r")
     (auto simp: andThen_def intro: rtranclp_trans)

lemma smalls_settle: "smalls R s (fst r) \<Longrightarrow> smalls R s (settle r)"
proof (cases r)
  case (Pair s1 e)
  have "smalls R s1 (s1\<lparr>phase := Dead (Some e)\<rparr>)" for e by (rule smalls_tune) auto
  then show "smalls R s (fst r) \<Longrightarrow> smalls R s (settle r)"
    using Pair by (cases e) (auto simp: settle_def intro: rtranclp_trans)
qed


lemma smalls_authorize: "smalls R s (snd (authorize_cached E force tick s))"
  by (rule smalls_tune) (auto simp: authorize_cached_def split: option.splits sum.splits bool.splits)

lemma smalls_protocol_error: "smalls R s (protocol_error E fault s)"
proof -
  let ?m = "fault_text (repr_of E) fault"
  let ?s1 = "send_error ERROR_BAD_ENVELOPE ?m (s\<lparr>strikes := strikes s + 1\<rparr>)"
  have "smalls R s (s\<lparr>strikes := strikes s + 1\<rparr>)" by (rule smalls_tune) auto
  then have s1: "smalls R s ?s1" by (rule rtranclp_trans [OF _ smalls_errors(1)])
  then have "smalls R s (drain_then_close CLOSE_PROTOCOL_ERROR ?s1)"
    by (rule rtranclp_trans [OF _ smalls_drain_then_close]) simp
  with s1 show ?thesis by (simp add: protocol_error_def Let_def)
qed

lemma smalls_set_phase:
  "p \<noteq> New \<Longrightarrow> p \<noteq> Dead None \<Longrightarrow> \<forall>c. p \<noteq> Draining c \<Longrightarrow> smalls R s (s\<lparr>phase := p\<rparr>)"
  by (rule smalls_tune) auto

lemma smalls_resumable_hello: "smalls R s (fst (resumable_on_hello fr s))"
  by (auto simp: resumable_on_hello_def intro!: smalls_set_phase split: sum.splits)

lemma smalls_on_hello [smalls_intro]: "smalls R s (fst (on_hello E fr s))"
  by (cases "kind (cls E)")
     (simp_all add: on_hello_def base_on_hello_def ephemeral_on_hello_def smalls_sends
        smalls_resumable_hello)

lemma smalls_handler:
  assumes "map_of (frame_handlers E) t = Some handler"
  shows "smalls R s (fst (handler fr s))"
proof -
  have "smalls R s (s\<lparr>pong_pending := False\<rparr>)" by (rule smalls_tune) auto
  then show ?thesis
    using assms by (auto simp: frame_handlers_def on_ping_def on_pong_def smalls_on_hello smalls_sends
        split: if_splits)
qed

lemma smalls_receive: "smalls R s (fst (receive_json E tick content s))"
proof (cases "parse_frame content")
  case (Inl e)
  then show ?thesis by (cases e) (simp_all add: receive_json_def smalls_protocol_error)
next
  case (Inr fr)
  show ?thesis
  proof (cases "map_of (frame_handlers E) (ftype fr)")
    case None
    with Inr show ?thesis by (simp add: receive_json_def)
  next
    case (Some handler)
    obtain r s1 where a: "authorize_cached E False tick s = (r, s1)" by fastforce
    have s1: "smalls R s s1" using smalls_authorize [of R s E False tick] a by simp
    have ok: "smalls R s (fst (handler fr s1))" "smalls R s (fst (handler fr s))"
      using s1 smalls_handler [OF Some] by (auto intro: rtranclp_trans)
    have no: "smalls R s (drain_then_close CLOSE_FORBIDDEN (send_error ERROR_UNAUTHORIZED lost_rights_message s1))"
      by (rule rtranclp_trans [OF s1 rtranclp_trans [OF smalls_errors(3) smalls_drain_then_close]]) simp
    show ?thesis
      using Inr Some a s1 ok no by (cases r) (simp_all add: receive_json_def)
  qed
qed

lemma smalls_server_seq: "smalls R s (fst (hello_server_seq E lq hook s))"
proof -
  have idle: "smalls R s (s\<lparr>phase := Idle\<rparr>)" by (rule smalls_set_phase) simp_all
  have raised: "smalls R s1 (s1\<lparr>max_seq_sent := max (max_seq_sent s1) lq\<rparr>)" for s1
    by (intro r_into_rtranclp small.raise_cursor) simp
  have body: "smalls R s1 (fst (let s2 = s1\<lparr>max_seq_sent := max (max_seq_sent s1) lq\<rparr>
      in case max_replay (conf E) of Inl e \<Rightarrow> (s2, Some e)
       | Inr limit \<Rightarrow>
           if limit < server_seq - lq
           then send_frame RESYNC (resync_payload (server_seq - lq) limit server_seq) PNone s2
           else (s2\<lparr>phase := AwaitRows lq server_seq\<rparr>, None)))" for s1 server_seq
    using raised [of s1] rtranclp_trans [OF raised [of s1] smalls_sends(6)]
      rtranclp_trans [OF raised [of s1] smalls_set_phase]
    by (auto simp: Let_def split: sum.splits)
  show ?thesis
    unfolding hello_server_seq_def
    by (auto intro!: smalls_andThen rtranclp_trans [OF idle smalls_sends(1)] body split: sum.splits)
qed

lemma smalls_row:
  assumes "R (Rows (Inr rows))" "r \<in> set rows"
  shows "smalls R s (fst (send_frame REPLAY (PDict (row_payload r)) (PInt (row_seq r)) s))"
  using assms by (intro smalls_send_journal [of _ "Rows (Inr rows)"]) (auto simp: py_or_def split: if_splits)

lemma smalls_replay:
  "R (Rows (Inr rows)) \<Longrightarrow> set rs \<subseteq> set rows \<Longrightarrow> smalls R s (fst (replay_rows rs s))"
  by (induction rs arbitrary: s) (auto intro!: smalls_andThen smalls_row)

lemma smalls_rows:
  assumes "R (Rows hook)"
  shows "smalls R s (fst (hello_rows server hook s))"
proof -
  have idle: "smalls R s (s\<lparr>phase := Idle\<rparr>)" by (rule smalls_set_phase) simp_all
  have "smalls R s (fst (replay_rows rows (s\<lparr>phase := Idle\<rparr>)))" if "hook = Inr rows" for rows
    using rtranclp_trans [OF idle smalls_replay [of R rows rows]] assms that by simp
  then show ?thesis
    unfolding hello_rows_def by (auto intro!: smalls_andThen smalls_sends split: sum.splits)
qed

lemma group_type_distinct [simp]:
  "dict_get (signal_message k d) ''type'' = PStr GROUP_TYPE_SIGNAL"
  "dict_get (frame_message k n d) ''type'' = PStr GROUP_TYPE_FRAME"
  "dict_get (revoke_message k uid r) ''type'' = PStr GROUP_TYPE_REVOKE"
  "GROUP_TYPE_FRAME \<noteq> GROUP_TYPE_SIGNAL" "GROUP_TYPE_REVOKE \<noteq> GROUP_TYPE_SIGNAL"
  "GROUP_TYPE_REVOKE \<noteq> GROUP_TYPE_FRAME"
  by (simp_all add: signal_message_def frame_message_def revoke_message_def GROUP_TYPE_SIGNAL_def
      GROUP_TYPE_FRAME_def GROUP_TYPE_REVOKE_def)

lemma smalls_revoke: "smalls R s (fst (realtime_revoke E (revoke_message k uid r) s))"
  by (auto simp: realtime_revoke_def revoke_message_def intro!: smalls_andThen smalls_sends smalls_drain_then_close)

lemma smalls_group:
  assumes "sent_by_delivery msg" "R (GroupMessage msg)"
  shows "smalls R s (fst (dispatch_group E msg s))"
  using assms(1)
proof cases
  case (by_deliver d k)
  have "realtime_signal msg s = (if d = [] then (s, None)
      else (enqueue (dict_setdefault ''stream'' (key_value (stream_key s)) d) s, None))"
    by (simp add: by_deliver realtime_signal_def py_or_def key_value_def)
  then show ?thesis
    using by_deliver plain_frame.relayed assms(2) by (simp add: dispatch_group_def smalls_enqueue)
next
  case (by_deliver_frame k n d)
  have "smalls R s (fst (send_frame LIVE (py_or (PDict d) (PDict [])) (PInt n) s))"
    using assms(2) by_deliver_frame by (intro smalls_send_journal [of _ "GroupMessage msg"]) (auto simp: py_or_def split: if_splits)
  then show ?thesis
    by (simp add: by_deliver_frame(1) dispatch_group_def realtime_frame_def)
qed (simp add: dispatch_group_def smalls_revoke)

lemma smalls_drained: "phase s = Draining c \<Longrightarrow> smalls R s (drained c s)"
proof -
  assume p: "phase s = Draining c"
  have "drained c s = (emit (CloseSent c) s)\<lparr>phase := Idle\<rparr>"
    by (simp add: drained_def emit_def)
  then show ?thesis
    using rtranclp_trans [OF smalls_emit [of s "CloseSent c" R] smalls_set_phase [of Idle R]] p by simp
qed

lemma smalls_beat_ping: "smalls R s (beat_ping E now s)"
proof -
  have pp: "smalls R s (s\<lparr>pong_pending := True\<rparr>)" by (rule smalls_tune) auto
  let ?r = "send_frame PING PNone PNone (s\<lparr>pong_pending := True\<rparr>)"
  have s1: "smalls R s (fst ?r)" by (rule rtranclp_trans [OF pp smalls_sends(3)])
  have b: "smalls R s1 (s1\<lparr>beat := b\<rparr>)" for s1 b by (rule smalls_tune) auto
  show ?thesis
    using rtranclp_trans [OF s1 b]
    by (auto simp: beat_ping_def split: prod.splits option.splits sum.splits)
qed

lemma smalls_emit_after:
  assumes "smalls R s t" "quiet t e"
  shows "smalls R s (emit e t)"
  by (rule rtranclp_trans [OF assms(1) smalls_emit [OF assms(2)]])

lemma smalls_beat_wake: "smalls R s (beat_wake E now s)"
proof -
  have b: "smalls R s (s\<lparr>beat := x\<rparr>)" for x by (rule smalls_tune) auto
  have c: "smalls R s (s\<lparr>closing := True, beat := x\<rparr>)" for x by (rule smalls_tune) auto
  show ?thesis
    using b c smalls_beat_ping [of R s E now]
    by (auto simp: beat_wake_def intro!: smalls_emit_after split: sum.splits bool.splits option.splits)
qed

lemma smalls_beat_deadline: "smalls R s (beat_deadline E now s)"
proof -
  have b: "smalls R s (s\<lparr>beat := x\<rparr>)" for x by (rule smalls_tune) auto
  have c: "smalls R s (s\<lparr>closing := True, beat := x\<rparr>)" for x by (rule smalls_tune) auto
  show ?thesis
    using b c by (auto simp: beat_deadline_def intro!: smalls_emit_after split: sum.splits)
qed

text \<open>The moves that are neither end of the lifecycle.\<close>

lemma moves_smalls:
  assumes "moves E s ev s'" and "R ev"
  shows "(\<exists>tick now ok. phase s = New \<and> s' = settle (connect E tick now ok s)) \<or>
    (\<exists>now ok. phase s = Idle \<and> s' = stop (disconnect E now ok s)) \<or> smalls R s s'"
  using assms(1)
proof cases
  case takes
  then show ?thesis using r_into_rtranclp small.take_frame by metis
next
  case writes
  then show ?thesis using r_into_rtranclp small.write_frame by metis
next
  case fails
  then show ?thesis using r_into_rtranclp small.drop_frame by metis
qed (use assms(2) in \<open>auto intro!: smalls_settle smalls_receive smalls_group smalls_server_seq smalls_rows smalls_drained
    smalls_beat_ping smalls_beat_wake smalls_beat_deadline\<close>)

lemma small_phase_New: "smalls R s s' \<Longrightarrow> phase s' = New \<Longrightarrow> phase s = New"
proof (induction rule: rtranclp_induct)
  case (step s1 s2)
  from step.hyps(2) step.prems have "phase s1 = New"
    by cases (auto simp: enqueue_def writer_take_def writer_sent_def writer_failed_def
        split: list.splits option.splits if_splits)
  with step.IH show ?case by simp
qed simp


section \<open>The lifecycle's two ends\<close>

lemma enqueue_fields [simp]:
  "outbox_max (enqueue f s) = outbox_max s" "inflight (enqueue f s) = inflight s"
  "max_seq_sent (enqueue f s) = max_seq_sent s" "stream_key (enqueue f s) = stream_key s"
  "sgroup (enqueue f s) = sgroup s" "presence_session (enqueue f s) = presence_session s"
  "phase (enqueue f s) = phase s" "beat (enqueue f s) = beat s" "writing (enqueue f s) = writing s"
  "strikes (enqueue f s) = strikes s"
  by (simp_all add: enqueue_def)

lemma frames_enqueue:
  "frames (enqueue f s) = frames s @ [f] \<and> \<not> closing s \<or> frames (enqueue f s) = frames s"
  by (auto simp: enqueue_def frames_def split: option.splits)

lemma frames_emit_quiet [simp]: "quiet s e \<Longrightarrow> frames (emit e t) = frames t"
  by (cases e) (auto simp: frames_def)

lemma frames_update [simp]:
  "frames (s\<lparr>max_seq_sent := n\<rparr>) = frames s"
  by (simp add: frames_def)

lemma frames_writer [simp]:
  "frames (writer_take s) = frames s"
  "frames (writer_sent s) = frames s"
  by (auto simp: frames_def writer_take_def writer_sent_def split: list.splits option.splits)

text \<open>A socket that was never accepted has done nothing but refuse.\<close>

definition unopened :: "sock \<Rightarrow> bool" where
  "unopened s \<longleftrightarrow>
     (\<forall>e\<in>set (log s). \<exists>c\<in>codes. e = CloseSent c) \<and> outbox s = [] \<and> inflight s = None \<and>
     max_seq_sent s = 0 \<and> beat s = NoBeat \<and> presence_session s = None \<and> 1 \<le> outbox_max s \<and>
     (phase s = New \<or> phase s = Idle \<and> sgroup s = None \<or> (\<exists>e. phase s = Dead e)) \<and>
     (phase s = New \<longrightarrow> s = new_sock)"

text \<open>What the log and the attributes of an accepted socket say about its admission.\<close>

definition admitted :: "env \<Rightarrow> sock \<Rightarrow> bool" where
  "admitted E s \<longleftrightarrow>
     (\<exists>u key g tick. scope_user (scope_of E) = Some u \<and> is_authenticated u \<and>
        get_stream_key E = Inr key \<and> authorize E tick key = Inr True \<and>
        group_name (canon_of E) (sha_of E) key = Inr g \<and>
        stream_key s = Some key \<and> sgroup s = Some g \<and>
        (\<exists>rest. log s = GroupAdd g # Accept # rest))"

text \<open>What holds of an accepted socket right after \<open>connect\<close>.\<close>

definition opened :: "env \<Rightarrow> sock \<Rightarrow> bool" where
  "opened E s \<longleftrightarrow> admitted E s \<and> outbox s = [] \<and> inflight s = None \<and> max_seq_sent s = 0 \<and> \<not> closing s \<and>
     send_queue_maxsize (conf E) = Inr (outbox_max s) \<and> presence_session s = Some (channel_of E) \<and>
     (phase s = Idle \<or> (\<exists>e. phase s = Dead (Some e))) \<and>
     (\<exists>now family. log s = [GroupAdd (the (sgroup s)), Accept,
        Presence (RecordConnect now (socket_user_id E) (channel_of E) family)])"

lemma new_sock_fields [simp]:
  "log new_sock = []" "outbox new_sock = []" "inflight new_sock = None" "phase new_sock = New"
  "beat new_sock = NoBeat" "max_seq_sent new_sock = 0" "presence_session new_sock = None"
  "sgroup new_sock = None" "outbox_max new_sock = 1" "closing new_sock = False" "stream_key new_sock = None"
  by (simp_all add: new_sock_def)

lemma unopened_new [simp]: "unopened new_sock"
  by (simp add: unopened_def)

lemma authorize_forced:
  "authorize_cached E True tick s = (Inr True, s1) \<Longrightarrow>
     \<exists>key. stream_key s = Some key \<and> authorize E tick key = Inr True"
  by (auto simp: authorize_cached_def split: option.splits sum.splits bool.splits)

lemma authorize_keeps:
  "authorize_cached E force tick s = (r, s1) \<Longrightarrow> \<exists>a. s1 = s\<lparr>authorized_until := a\<rparr>"
  by (force simp: authorize_cached_def split: option.splits sum.splits bool.splits if_splits
      intro: exI [of _ "authorized_until s"])

lemma group_name_family:
  assumes "group_name (canon_of E) sha key = Inr g" "stream_key s = Some key"
  shows "\<exists>family. presence_family E s = Inr family"
  using assms by (auto simp: group_name_def presence_family_def rmap_eq_Inr_iff)

lemma after_accept_opened:
  assumes adm: "admitted E s" and log: "log s = [GroupAdd (the (sgroup s)), Accept]"
    and "outbox s = []" "inflight s = None" "max_seq_sent s = 0" "\<not> closing s" "phase s = Idle"
    "send_queue_maxsize (conf E) = Inr (outbox_max s)"
  shows "opened E (settle (after_accept E now s))"
proof -
  let ?s = "s\<lparr>presence_session := Some (channel_of E)\<rparr>"
  obtain family where family: "presence_family E ?s = Inr family"
    using adm group_name_family [of E "sha_of E" _ _ ?s] by (auto simp: admitted_def)
  let ?s1 = "(emit (Presence (RecordConnect now (socket_user_id E) (channel_of E) family)) ?s)\<lparr>writing := True\<rparr>"
  have "after_accept E now s = (case heartbeat_interval (conf E) of Inl e \<Rightarrow> (?s1, Some e)
      | Inr interval \<Rightarrow> (if pf_lt (Fin 0) interval then ?s1\<lparr>beat := start_beat E now interval\<rparr> else ?s1, None))"
    using family by (simp add: after_accept_def Let_def)
  with assms show ?thesis
    by (cases "heartbeat_interval (conf E)") (auto simp: settle_def opened_def admitted_def)
qed

lemma subscribe_outcome:
  assumes key: "stream_key s = Some key" "get_stream_key E = Inr key"
    and user: "scope_user (scope_of E) = Some u" "is_authenticated u"
    and s: "log s = []" "outbox s = []" "inflight s = None" "max_seq_sent s = 0" "\<not> closing s"
    "phase s = Idle" "beat s = NoBeat" "presence_session s = None" "sgroup s = None"
    "send_queue_maxsize (conf E) = Inr (outbox_max s)"
  shows "unopened (settle (subscribe E tick now ok s)) \<or> opened E (settle (subscribe E tick now ok s))"
proof -
  obtain r s1 where a: "authorize_cached E True tick s = (r, s1)" by fastforce
  from authorize_keeps [OF a] obtain x where s1: "s1 = s\<lparr>authorized_until := x\<rparr>" by blast
  have cap: "1 \<le> outbox_max s" using s send_queue_maxsize_pos by blast
  have refused: "unopened (settle (subscribe E tick now ok s))"
    if "r \<noteq> Inr True \<or> (\<exists>e. group_name (canon_of E) (sha_of E) key = Inl e) \<or> \<not> ok"
    using that a s1 s cap key
    by (auto simp: subscribe_def settle_def unopened_def Let_def split: sum.splits bool.splits)
  show ?thesis
  proof (cases "r \<noteq> Inr True \<or> (\<exists>e. group_name (canon_of E) (sha_of E) key = Inl e) \<or> \<not> ok")
    case True
    then show ?thesis using refused by blast
  next
    case False
    then obtain g where g: "group_name (canon_of E) (sha_of E) key = Inr g" and r: "r = Inr True" and ok
      by (cases "group_name (canon_of E) (sha_of E) key") auto
    let ?s3 = "emit Accept (emit (GroupAdd g) (s1\<lparr>sgroup := Some g\<rparr>))"
    have sub: "subscribe E tick now ok s = after_accept E now ?s3"
      using a r g \<open>ok\<close> s1 key by (simp add: subscribe_def Let_def)
    have "authorize E tick key = Inr True"
      using authorize_forced [of E tick s s1] a r key by simp
    then have "admitted E ?s3"
      using key user g s s1 by (auto simp: admitted_def)
    then show ?thesis
      unfolding sub using s s1 by (intro disjI2 after_accept_opened) simp_all
  qed
qed

lemma connect_outcome:
  "unopened (settle (connect E tick now ok new_sock)) \<or> opened E (settle (connect E tick now ok new_sock))"
proof (cases "send_queue_maxsize (conf E)")
  case (Inl e)
  then show ?thesis by (simp add: connect_def settle_def unopened_def)
next
  case (Inr cap)
  have cap: "1 \<le> cap" using Inr send_queue_maxsize_pos by blast
  let ?s1 = "new_sock\<lparr>stream_key := None, sgroup := None, presence_session := None, max_seq_sent := 0,
      strikes := 0, pong_pending := False, closing := False, writing := False, beat := NoBeat,
      outbox := [], outbox_max := cap, phase := Idle\<rparr>"
  show ?thesis
  proof (cases "\<exists>u key. scope_user (scope_of E) = Some u \<and> is_authenticated u \<and> get_stream_key E = Inr key")
    case True
    then obtain u key where u: "scope_user (scope_of E) = Some u" "is_authenticated u" "get_stream_key E = Inr key"
      by blast
    then have "connect E tick now ok new_sock = subscribe E tick now ok (?s1\<lparr>stream_key := Some key\<rparr>)"
      using Inr by (simp add: connect_def Let_def)
    moreover have "unopened (settle (subscribe E tick now ok (?s1\<lparr>stream_key := Some key\<rparr>))) \<or>
        opened E (settle (subscribe E tick now ok (?s1\<lparr>stream_key := Some key\<rparr>)))"
      using u Inr by (intro subscribe_outcome [where key = key and u = u]) simp_all
    ultimately show ?thesis by simp
  next
    case False
    then have "unopened (settle (connect E tick now ok new_sock))"
      using Inr cap by (auto simp: connect_def Let_def settle_def unopened_def
          split: option.splits sum.splits if_splits)
    then show ?thesis ..
  qed
qed


section \<open>The induction principle of reachable sockets\<close>

lemma unopened_not_accepted: "unopened s \<Longrightarrow> \<not> accepted s"
  by (auto simp: unopened_def accepted_def)

lemma disconnect_unopened:
  "unopened s \<Longrightarrow> phase s = Idle \<Longrightarrow> unopened (stop (disconnect E now ok s))"
  by (auto simp: unopened_def disconnect_def stop_def Let_def)

lemma unopened_moves:
  assumes u: "unopened s" and m: "moves E s ev s'"
  shows "unopened s' \<or> opened E s'"
  using m
proof cases
  case (connects tick now ok)
  with u have "s = new_sock" by (simp add: unopened_def)
  with connects connect_outcome show ?thesis by simp
next
  case (leaves now ok)
  with disconnect_unopened u show ?thesis by simp
next
  case takes
  with u show ?thesis by (simp add: unopened_def writer_take_def)
next
  case writes
  with u show ?thesis by (simp add: unopened_def writer_sent_def)
qed (use u in \<open>auto simp: unopened_not_accepted unopened_def\<close>)

lemma small_log: "small R s s' \<Longrightarrow> \<exists>es. log s' = log s @ es"
  by (erule small.cases)
     (auto simp: enqueue_def writer_take_def writer_sent_def writer_failed_def split: list.splits option.splits)

lemma small_admitted: "small R s s' \<Longrightarrow> admitted E s \<Longrightarrow> admitted E s'"
proof -
  assume sm: "small R s s'" and adm: "admitted E s"
  obtain es where "log s' = log s @ es" using small_log [OF sm] by blast
  moreover have "stream_key s' = stream_key s" "sgroup s' = sgroup s"
    using sm by (cases; simp add: writer_take_def writer_sent_def writer_failed_def split: list.splits option.splits)+
  ultimately show ?thesis using adm by (auto simp: admitted_def)
qed

lemma disconnect_log: "\<exists>es. log (stop (disconnect E now ok s)) = log s @ es"
  by (auto simp: disconnect_def stop_def Let_def split: option.splits)

lemma disconnect_keeps [simp]:
  "stream_key (stop (disconnect E now ok s)) = stream_key s" "sgroup (stop (disconnect E now ok s)) = sgroup s"
  "outbox (stop (disconnect E now ok s)) = outbox s" "outbox_max (stop (disconnect E now ok s)) = outbox_max s"
  "inflight (stop (disconnect E now ok s)) = inflight s" "closing (stop (disconnect E now ok s)) = True"
  "max_seq_sent (stop (disconnect E now ok s)) = max_seq_sent s"
  "frames (stop (disconnect E now ok s)) = frames s"
  by (auto simp: disconnect_def stop_def Let_def frames_def split: option.splits)

lemma disconnect_phase: "\<exists>e. phase (stop (disconnect E now ok s)) = Dead e"
  by (cases "disconnect E now ok s") (simp add: stop_def)

text \<open>To show a property of every reachable socket: it holds until the socket is accepted, right after
  that, and small steps and \<open>disconnect\<close> keep it.\<close>

lemma reachable_invariant:
  assumes r: "reachable E s"
    and unopened: "\<And>s. unopened s \<Longrightarrow> P s"
    and opened: "\<And>s. opened E s \<Longrightarrow> P s"
    and small: "\<And>R s s'. admitted E s \<Longrightarrow> P s \<Longrightarrow> small R s s' \<Longrightarrow> P s'"
    and leave: "\<And>s now ok. admitted E s \<Longrightarrow> phase s = Idle \<Longrightarrow> P s \<Longrightarrow> P (stop (disconnect E now ok s))"
  shows "P s \<and> (unopened s \<or> admitted E s)"
proof -
  have smalls: "admitted E s' \<and> P s'" if "smalls R s s'" "admitted E s" "P s" for R s s'
    using that by (induction rule: rtranclp_induct) (auto intro: small small_admitted)
  have "P s \<and> (unopened s \<or> admitted E s \<and> phase s \<noteq> New)"
    using r
  proof (induction rule: reachable.induct)
    case start
    then show ?case by (simp add: unopened)
  next
    case (step s ev s')
    show ?case
    proof (cases "unopened s")
      case True
      have "opened E s' \<Longrightarrow> phase s' \<noteq> New" for s' by (auto simp: opened_def)
      with unopened_moves [OF True step.hyps(2)] show ?thesis
        by (auto simp: unopened opened opened_def [of E s'])
    next
      case False
      with step.IH have adm: "admitted E s" "phase s \<noteq> New" "P s" by auto
      from moves_smalls [OF step.hyps(2), of "\<lambda>_. True", OF TrueI] adm consider
        (leave) now ok where "phase s = Idle" "s' = stop (disconnect E now ok s)" | (small) "smalls (\<lambda>_. True) s s'"
        by blast
      then show ?thesis
      proof cases
        case leave
        obtain es where "log s' = log s @ es" using disconnect_log leave by metis
        then have "admitted E s'" using adm leave by (auto simp: admitted_def)
        then show ?thesis using leave adm assms(5) disconnect_phase by (metis phase.distinct(9))
      next
        case small
        then show ?thesis using smalls adm small_phase_New by blast
      qed
    qed
  qed
  then show ?thesis by blast
qed


lemma reachable_cases: "reachable E s \<Longrightarrow> unopened s \<or> admitted E s"
  using reachable_invariant [of E s "\<lambda>_. True"] by blast

lemma reachable_New: "reachable E s \<Longrightarrow> phase s = New \<Longrightarrow> s = new_sock"
proof -
  assume r: "reachable E s" and p: "phase s = New"
  have "(\<lambda>s. admitted E s \<longrightarrow> phase s \<noteq> New) s \<and> (unopened s \<or> admitted E s)"
  proof (rule reachable_invariant [OF r])
    fix R s s' assume "admitted E s" "admitted E s \<longrightarrow> phase s \<noteq> New" "small R s s'"
    then show "admitted E s' \<longrightarrow> phase s' \<noteq> New" using small_phase_New [of R s s'] by blast
  next
    fix s now ok show "admitted E (stop (disconnect E now ok s)) \<longrightarrow> phase (stop (disconnect E now ok s)) \<noteq> New"
      using disconnect_phase [of E now ok s] by auto
  next
    fix s assume "unopened s" then show "admitted E s \<longrightarrow> phase s \<noteq> New"
      by (auto simp: unopened_def admitted_def)
  qed (auto simp: opened_def)
  with p show ?thesis by (auto simp: unopened_def)
qed

section \<open>Invariants\<close>

text \<open>The send queue never exceeds its bound.\<close>

lemma small_stream_key: "small R s s' \<Longrightarrow> stream_key s' = stream_key s"
  by (erule small.cases) (auto simp: writer_take_def writer_sent_def writer_failed_def split: list.splits option.splits)

lemma small_cursor: "small R s s' \<Longrightarrow> max_seq_sent s \<le> max_seq_sent s'"
  by (erule small.cases) (auto simp: writer_take_def writer_sent_def writer_failed_def split: list.splits option.splits)

lemma small_outbox_max: "small R s s' \<Longrightarrow> outbox_max s' = outbox_max s"
  by (erule small.cases)
     (auto simp: writer_take_def writer_sent_def writer_failed_def split: list.splits option.splits)

lemma small_bounded:
  "small R s s' \<Longrightarrow> int (length (outbox s)) \<le> outbox_max s \<Longrightarrow> int (length (outbox s')) \<le> outbox_max s'"
  by (erule small.cases)
     (auto simp: enqueue_def writer_take_def writer_sent_def writer_failed_def split: list.splits option.splits)

definition bounded :: "env \<Rightarrow> sock \<Rightarrow> bool" where
  "bounded E s \<longleftrightarrow> int (length (outbox s)) \<le> outbox_max s \<and>
     (unopened s \<or> send_queue_maxsize (conf E) = Inr (outbox_max s))"

lemma admitted_accepted: "admitted E s \<Longrightarrow> accepted s"
  by (auto simp: admitted_def accepted_def)

lemma admitted_opened: "admitted E s \<Longrightarrow> \<not> unopened s"
  using admitted_accepted unopened_not_accepted by blast

lemma reachable_bounded: "reachable E s \<Longrightarrow> bounded E s"
proof (drule reachable_invariant [where P = "bounded E"])
  fix R s s' assume "admitted E s" "bounded E s" "small R s s'"
  then show "bounded E s'"
    using small_bounded small_outbox_max admitted_opened by (auto simp: bounded_def)
next
  fix s assume "opened E s"
  then show "bounded E s"
    using send_queue_maxsize_pos [of "conf E" "outbox_max s"] by (auto simp: bounded_def opened_def)
qed (auto simp: bounded_def unopened_def dest: admitted_opened)

text \<open>The journal frames of a socket carry strictly increasing sequences, bounded by the cursor.\<close>

definition journal_ok :: "sock \<Rightarrow> bool" where
  "journal_ok s \<longleftrightarrow> sorted_wrt (<) (journal_seqs s) \<and> (\<forall>n\<in>set (journal_seqs s). n \<le> max_seq_sent s)"

lemma map_filter_append [simp]: "List.map_filter f (xs @ ys) = List.map_filter f xs @ List.map_filter f ys"
  by (simp add: List.map_filter_def)

lemma map_filter_single [simp]:
  "List.map_filter f [x] = (case f x of None \<Rightarrow> [] | Some y \<Rightarrow> [y])"
  by (simp add: List.map_filter_def split: option.splits)

lemma journal_seqs_enqueue:
  "journal_seqs (enqueue f s) = journal_seqs s \<or>
   (\<exists>n. journal_seq f = Some n \<and> journal_seqs (enqueue f s) = journal_seqs s @ [n])"
  using frames_enqueue [of f s] by (cases "journal_seq f") (auto simp: journal_seqs_def)

lemma journal_ok_frames:
  "frames s' = frames s \<Longrightarrow> max_seq_sent s \<le> max_seq_sent s' \<Longrightarrow> journal_ok s \<Longrightarrow> journal_ok s'"
  by (auto simp: journal_ok_def journal_seqs_def)

lemma journal_ok_failed: "journal_ok s \<Longrightarrow> journal_ok (writer_failed s)"
  by (cases "inflight s"; cases "journal_seq (the (inflight s))")
     (auto simp: journal_ok_def journal_seqs_def frames_def writer_failed_def sorted_wrt_append)

lemma small_journal_ok:
  assumes "small R s s'" and ok: "journal_ok s"
  shows "journal_ok s'"
  using assms(1)
proof cases
  case tune
  then have "frames s' = frames s" by (simp add: frames_def)
  with tune ok show ?thesis by (intro journal_ok_frames [of s' s]) simp_all
next
  case (note_effect e)
  with ok show ?thesis by (intro journal_ok_frames [of s' s]) simp_all
next
  case (raise_cursor n)
  with ok show ?thesis by (intro journal_ok_frames [of s' s]) simp_all
next
  case (plain f)
  with ok journal_seqs_enqueue [of f s] show ?thesis by (auto simp: journal_ok_def dest!: plain_not_journal)
next
  case (journal n t ev d)
  let ?s1 = "s\<lparr>max_seq_sent := n\<rparr>"
  let ?f = "frame t (Some d) (Some n) (stream_key s)"
  have "journal_seqs ?s1 = journal_seqs s" by (simp add: journal_seqs_def)
  moreover have "journal_seq ?f = Some n" using journal by auto
  ultimately have "journal_seqs s' = journal_seqs s \<or> journal_seqs s' = journal_seqs s @ [n]"
    using journal_seqs_enqueue [of ?f ?s1] journal by auto
  then show ?thesis
    using ok journal by (fastforce simp: journal_ok_def sorted_wrt_append)
next
  case take_frame
  with ok show ?thesis
    by (intro journal_ok_frames [of s' s]) (simp, simp add: writer_take_def split: list.splits, simp)
next
  case write_frame
  with ok show ?thesis
    by (intro journal_ok_frames [of s' s]) (simp, simp add: writer_sent_def split: option.splits, simp)
next
  case drop_frame
  with ok journal_ok_failed show ?thesis by simp
qed

lemma wire_frames_Nil_iff: "wire_frames es = [] \<longleftrightarrow> (\<forall>e\<in>set es. wire_frames [e] = [])"
  by (auto simp: wire_frames_def List.map_filter_def filter_empty_conv split: effect.splits)

lemma frames_fresh: "\<forall>e\<in>set (log s). wire_frames [e] = [] \<Longrightarrow>
    outbox s = [] \<Longrightarrow> inflight s = None \<Longrightarrow> frames s = []"
  using wire_frames_Nil_iff [of "log s"] by (simp add: frames_def)

lemma frames_unopened: "unopened s \<Longrightarrow> frames s = []"
  by (rule frames_fresh) (force simp: unopened_def)+

lemma frames_opened: "opened E s \<Longrightarrow> frames s = []"
proof (rule frames_fresh)
  assume o: "opened E s"
  then obtain g rest where l: "log s = GroupAdd g # Accept # rest" by (auto simp: opened_def admitted_def)
  with o have "\<forall>e\<in>set rest. \<exists>c. e = Presence c" by (auto simp: opened_def)
  with l show "\<forall>e\<in>set (log s). wire_frames [e] = []" by auto
qed (auto simp: opened_def)

lemma journal_ok_fresh: "frames s = [] \<Longrightarrow> journal_ok s"
  by (simp add: journal_ok_def journal_seqs_def List.map_filter_def)

lemma reachable_journal_ok: "reachable E s \<Longrightarrow> journal_ok s"
proof (drule reachable_invariant [where P = journal_ok])
  fix s now ok assume "journal_ok s"
  then show "journal_ok (stop (disconnect E now ok s))"
    by (rule journal_ok_frames [rotated 2]) simp_all
qed (auto intro: journal_ok_fresh small_journal_ok frames_unopened frames_opened)


text \<open>Closing: only canonical codes are sent, and a socket that has been sent a close after its
  acceptance, or is about to be, takes no more frames.\<close>

definition closes_ok :: "sock \<Rightarrow> bool" where
  "closes_ok s \<longleftrightarrow>
     (\<forall>c. CloseSent c \<in> set (log s) \<longrightarrow> c \<in> codes \<and> (accepted s \<longrightarrow> closing s)) \<and>
     (\<forall>c. phase s = Draining c \<longrightarrow> closing s \<and> c \<in> codes)"

lemma small_closes_ok:
  assumes "small R s s'" and ok: "closes_ok s" and acc: "accepted s"
  shows "closes_ok s'"
  using assms(1)
proof cases
  case tune
  with ok acc show ?thesis by (auto simp: closes_ok_def accepted_def)
next
  case (note_effect e)
  with ok acc show ?thesis by (cases e) (auto simp: closes_ok_def accepted_def)
next
  case take_frame
  with ok acc show ?thesis by (auto simp: closes_ok_def accepted_def writer_take_def split: list.splits)
next
  case write_frame
  with ok acc show ?thesis by (auto simp: closes_ok_def accepted_def writer_sent_def split: option.splits)
qed (use ok acc in \<open>auto simp: closes_ok_def accepted_def enqueue_def writer_failed_def\<close>)

lemma disconnect_effects:
  "e \<in> set (log (stop (disconnect E now ok s))) \<Longrightarrow>
     e \<in> set (log s) \<or> (\<exists>g. e = GroupDiscard g) \<or> (\<exists>sid. e = Presence (RecordDisconnect now (socket_user_id E) sid))"
  by (auto simp: disconnect_def stop_def Let_def split: option.splits if_splits)

lemma reachable_closes_ok: "reachable E s \<Longrightarrow> closes_ok s"
proof (drule reachable_invariant [where P = closes_ok])
  fix s now ok assume "closes_ok s"
  then show "closes_ok (stop (disconnect E now ok s))"
    using disconnect_phase [of E now ok s] disconnect_effects [of _ E now ok s]
    by (fastforce simp: closes_ok_def)
next
  fix R s s' assume "admitted E s" "closes_ok s" "small R s s'"
  then show "closes_ok s'" using small_closes_ok admitted_accepted by blast
qed (auto simp: closes_ok_def unopened_def opened_def accepted_def)

text \<open>Presence: one connect per accepted socket, one disconnect once it has ended cleanly.\<close>

fun is_connect :: "effect \<Rightarrow> bool" where
  "is_connect (Presence (RecordConnect t u sid f)) = True"
| "is_connect _ = False"

fun is_disconnect :: "effect \<Rightarrow> bool" where
  "is_disconnect (Presence (RecordDisconnect t u sid)) = True"
| "is_disconnect _ = False"

definition calls :: "(effect \<Rightarrow> bool) \<Rightarrow> sock \<Rightarrow> nat" where
  "calls p s = length (filter p (log s))"

definition presence_ok :: "env \<Rightarrow> sock \<Rightarrow> bool" where
  "presence_ok E s \<longleftrightarrow> unopened s \<or>
     calls is_connect s = 1 \<and>
     (presence_session s = Some (channel_of E) \<and> calls is_disconnect s = 0 \<and> phase s \<noteq> Dead None \<or>
      presence_session s = None \<and> calls is_disconnect s = 1)"

lemma quiet_not_lifecycle: "quiet s e \<Longrightarrow> \<not> is_connect e \<and> \<not> is_disconnect e"
proof (cases e)
  case (Presence c)
  then show "quiet s e \<Longrightarrow> ?thesis" by (cases c) auto
qed auto

lemma small_calls:
  assumes "small R s s'"
  shows "calls is_connect s' = calls is_connect s \<and> calls is_disconnect s' = calls is_disconnect s \<and>
    presence_session s' = presence_session s \<and> (phase s' = Dead None \<longrightarrow> phase s = Dead None)"
  using assms
proof cases
  case tune
  then show ?thesis by (auto simp: calls_def)
next
  case (note_effect e)
  then show ?thesis using quiet_not_lifecycle [of s e] by (auto simp: calls_def)
qed (auto simp: calls_def enqueue_def writer_take_def writer_sent_def writer_failed_def
    split: list.splits option.splits)

lemma reachable_presence_ok:
  assumes "channel_of E \<noteq> []"
  shows "reachable E s \<Longrightarrow> presence_ok E s"
proof (drule reachable_invariant [where P = "presence_ok E"])
  fix R s s' assume "admitted E s" "presence_ok E s" "small R s s'"
  then show "presence_ok E s'"
    using small_calls [of R s s'] admitted_opened [of E s] by (auto simp: presence_ok_def)
next
  fix s assume "opened E s"
  then show "presence_ok E s"
    by (auto simp: presence_ok_def opened_def calls_def)
next
  fix s now ok assume s: "admitted E s" "phase s = Idle" "presence_ok E s"
  have *: "text_given (Some (channel_of E)) = Some (channel_of E)"
    using assms by (cases "channel_of E") auto
  show "presence_ok E (stop (disconnect E now ok s))"
    using s admitted_opened [of E s] *
    by (auto simp: presence_ok_def disconnect_def stop_def calls_def Let_def split: option.splits)
qed (auto simp: presence_ok_def)

text \<open>Once a socket is closing, its frames can only leave: nothing is added to them.\<close>

lemma small_closing:
  assumes "small R s s'" and c: "closing s"
  shows "closing s' \<and> subseq (frames s') (frames s)"
  using assms(1)
proof cases
  case tune
  with c show ?thesis by (simp add: frames_def)
next
  case take_frame
  moreover have "closing (writer_take s)" using c by (auto simp: writer_take_def split: list.splits)
  ultimately show ?thesis by simp
next
  case write_frame
  moreover have "closing (writer_sent s)" using c by (auto simp: writer_sent_def split: option.splits)
  ultimately show ?thesis by simp
next
  case drop_frame
  with c show ?thesis
    by (auto simp: writer_failed_def frames_def subseq_append' intro: list_emb_Cons split: option.splits)
qed (use c in \<open>auto simp: enqueue_def\<close>)

lemma smalls_closing:
  "smalls R s s' \<Longrightarrow> closing s \<Longrightarrow> closing s' \<and> subseq (frames s') (frames s)"
proof (induction rule: rtranclp_induct)
  case (step s1 s2)
  then show ?case using small_closing [of R s1 s2] subseq_order.order_trans by blast
qed simp

end
