(* ===== verification/Resume.thy ===== *)
theory Resume
  imports ConsumerSafety
begin

text \<open>
  The resumable stream: the contract of a sink that deduplicates journal rows by their sequence, its
  interpretation on the socket's own \<open>send_frame\<close>, and what a \<open>hello\<close> therefore replays.
\<close>

section \<open>A deduplicating sink\<close>

text \<open>The rows of a stream of messages that are above the cursor when they arrive.\<close>

fun above :: "('m \<Rightarrow> int) \<Rightarrow> int \<Rightarrow> 'm list \<Rightarrow> 'm list" where
  "above f c [] = []"
| "above f c (m # ms) = (if f m \<le> c then above f c ms else m # above f (f m) ms)"

lemma above_ascending:
  "sorted_wrt (<) (map f ms) \<Longrightarrow> above f c ms = filter (\<lambda>m. c < f m) ms"
proof (induction ms arbitrary: c)
  case Nil
  then show ?case by simp
next
  case (Cons m ms)
  have "filter (\<lambda>x. f m < f x) ms = filter (\<lambda>x. c < f x) ms" if "c < f m"
    using Cons.prems that by (intro filter_cong) auto
  with Cons show ?case by auto
qed

lemma above_strict: "sorted_wrt (<) (map f (above f c ms)) \<and> (\<forall>m\<in>set (above f c ms). c < f m)"
  by (induction ms arbitrary: c) force+

lemma above_length: "length (above f c ms) \<le> length ms"
  by (induction ms arbitrary: c) (auto simp: le_SucI)

lemma above_append: "\<exists>c'. above f c (ms @ ns) = above f c ms @ above f c' ns \<and> c \<le> c'"
proof (induction ms arbitrary: c)
  case Nil
  then show ?case by auto
next
  case (Cons m ms)
  then show ?case
    by (cases "f m \<le> c") (simp_all, meson Cons.IH linorder_le_cases order_trans less_imp_le not_le)
qed

locale journal_sink =
  fixes push :: "'s \<Rightarrow> 'm \<Rightarrow> 's"
    and seq_of :: "'m \<Rightarrow> int"
    and cursor :: "'s \<Rightarrow> int"
    and out :: "'s \<Rightarrow> 'r list"
    and row :: "'m \<Rightarrow> 'r"
    and opn :: "'s \<Rightarrow> bool"
  assumes closed_stays: "\<not> opn s \<Longrightarrow> \<not> opn (push s m)"
    and push_old: "seq_of m \<le> cursor s \<Longrightarrow> push s m = s"
    and push_cursor: "cursor s < seq_of m \<Longrightarrow> cursor (push s m) = seq_of m"
    and push_new: "cursor s < seq_of m \<Longrightarrow> opn (push s m) \<Longrightarrow> out (push s m) = out s @ [row m]"
begin

lemma run_closed: "\<not> opn s \<Longrightarrow> \<not> opn (foldl push s ms)"
  by (induction ms arbitrary: s) (simp_all add: closed_stays)

lemma run_out: "opn (foldl push s ms) \<Longrightarrow> out (foldl push s ms) = out s @ map row (above seq_of (cursor s) ms)"
proof (induction ms arbitrary: s)
  case Nil
  then show ?case by simp
next
  case (Cons m ms)
  show ?case
  proof (cases "seq_of m \<le> cursor s")
    case True
    with Cons push_old [of m s] show ?thesis by simp
  next
    case False
    then have new: "cursor (push s m) = seq_of m" using push_cursor by simp
    have "opn (push s m)" using Cons.prems run_closed [of "push s m" ms] by auto
    then have "out (push s m) = out s @ [row m]" using push_new False by simp
    with Cons.IH [of "push s m"] Cons.prems new False show ?thesis by simp
  qed
qed

lemma run_cursor: "cursor (foldl push s ms) = Max (insert (cursor s) (set (map seq_of ms)))"
proof (induction ms arbitrary: s)
  case Nil
  then show ?case by simp
next
  case (Cons m ms)
  have "cursor (push s m) = max (cursor s) (seq_of m)"
    using push_old [of m s] push_cursor [of s m] by (cases "seq_of m \<le> cursor s") auto
  with Cons show ?case
    by (cases "ms = []") (simp_all add: insert_commute max.assoc max.commute max.left_commute)
qed

text \<open>Rows in ascending order are all kept; rows pushed again change nothing.\<close>

lemma run_ascending:
  assumes "sorted_wrt (<) (map seq_of ms)" "opn (foldl push s ms)"
  shows "out (foldl push s ms) = out s @ map row (filter (\<lambda>m. cursor s < seq_of m) ms)"
  using run_out [OF assms(2)] above_ascending [OF assms(1)] by simp

lemma push_again: "m \<in> set ms \<Longrightarrow> push (foldl push s ms) m = foldl push s ms"
  by (rule push_old) (simp add: run_cursor)

end

section \<open>The socket is such a sink\<close>

text \<open>A message is a row and whether it arrives live or in a replay.\<close>

definition push_row :: "sock \<Rightarrow> bool \<times> JournalRow \<Rightarrow> sock" where
  "push_row s m = fst (send_frame (if fst m then LIVE else REPLAY) (PDict (row_payload (snd m)))
     (PInt (row_seq (snd m))) s)"

definition message_seq :: "bool \<times> JournalRow \<Rightarrow> int" where
  "message_seq m = row_seq (snd m)"

definition row_frame :: "string option \<Rightarrow> bool \<times> JournalRow \<Rightarrow> pydict" where
  "row_frame key m = frame (if fst m then LIVE else REPLAY) (Some (row_payload (snd m)))
     (Some (row_seq (snd m))) key"

definition row_of :: "pydict \<Rightarrow> JournalRow option" where
  "row_of f =
     (case (journal_seq f, dict_get f ''payload'') of
        (Some n, PDict d) \<Rightarrow> Some \<lparr>row_seq = n, row_payload = d\<rparr>
      | _ \<Rightarrow> None)"

definition journal_rows :: "sock \<Rightarrow> JournalRow list" where
  "journal_rows s = List.map_filter row_of (frames s)"

lemma py_dict_or [simp]: "py_dict (py_or (PDict d) (PDict [])) = Inr d"
  by (simp add: py_or_def)

lemma send_row:
  "send_frame t (PDict d) (PInt n) s =
     (if n \<le> max_seq_sent s then s
      else enqueue (frame t (Some d) (Some n) (stream_key s)) (s\<lparr>max_seq_sent := n\<rparr>), None)"
  by (simp add: send_frame_def queue_frame_def)

lemma push_row_simp:
  "push_row s m = (if message_seq m \<le> max_seq_sent s then s
     else enqueue (row_frame (stream_key s) m) (s\<lparr>max_seq_sent := message_seq m\<rparr>))"
  by (simp add: push_row_def send_row message_seq_def row_frame_def)

lemma row_of_row_frame [simp]: "row_of (row_frame key m) = Some (snd m)"
  by (simp add: row_of_def row_frame_def)

lemma closing_enqueue: "closing (enqueue f s) \<longleftrightarrow> closing s \<or> \<not> int (length (outbox s)) < outbox_max s"
  by (simp add: enqueue_def)

lemma frames_enqueue_open: "\<not> closing (enqueue f s) \<Longrightarrow> frames (enqueue f s) = frames s @ [f]"
  by (auto simp: enqueue_def frames_def split: if_splits option.splits)

interpretation dedup: journal_sink push_row message_seq max_seq_sent journal_rows snd "\<lambda>s. \<not> closing s"
  by unfold_locales
     (auto simp: push_row_simp closing_enqueue frames_enqueue_open journal_rows_def)

interpretation frame_sink: journal_sink push_row message_seq max_seq_sent
  frames "row_frame k" "\<lambda>s. \<not> closing s \<and> stream_key s = k"
  for k
  by unfold_locales
     (auto simp: push_row_simp closing_enqueue frames_enqueue_open)

text \<open>Group frames and replayed rows are pushes.\<close>

lemma realtime_frame_push:
  "realtime_frame (frame_message k n d) s = (push_row s (True, \<lparr>row_seq = n, row_payload = d\<rparr>), None)"
  by (cases "d = []") (simp_all add: realtime_frame_def push_row_def send_row py_or_def)

lemma replay_rows_push: "replay_rows rows s = (foldl push_row s (map (Pair False) rows), None)"
  by (induction rows arbitrary: s) (simp_all add: send_row push_row_simp message_seq_def row_frame_def)


section \<open>Queueing a list of frames\<close>

definition enqueue_all :: "pydict list \<Rightarrow> sock \<Rightarrow> sock" where
  "enqueue_all fs s = foldl (\<lambda>s f. enqueue f s) s fs"

lemma enqueue_all_simps [simp]:
  "enqueue_all [] s = s"
  "enqueue_all (f # fs) s = enqueue_all fs (enqueue f s)"
  "enqueue_all (fs @ gs) s = enqueue_all gs (enqueue_all fs s)"
  by (simp_all add: enqueue_all_def)

lemma enqueue_commute [simp]:
  "enqueue f (s\<lparr>max_seq_sent := c\<rparr>) = (enqueue f s)\<lparr>max_seq_sent := c\<rparr>"
  "enqueue f (s\<lparr>phase := p\<rparr>) = (enqueue f s)\<lparr>phase := p\<rparr>"
  by (simp_all add: enqueue_def emit_def)

lemma enqueue_all_commute [simp]:
  "enqueue_all fs (s\<lparr>max_seq_sent := c\<rparr>) = (enqueue_all fs s)\<lparr>max_seq_sent := c\<rparr>"
  "enqueue_all fs (s\<lparr>phase := p\<rparr>) = (enqueue_all fs s)\<lparr>phase := p\<rparr>"
  by (induction fs arbitrary: s) simp_all

lemma enqueue_all_fields [simp]:
  "stream_key (enqueue_all fs s) = stream_key s" "max_seq_sent (enqueue_all fs s) = max_seq_sent s"
  "outbox_max (enqueue_all fs s) = outbox_max s" "phase (enqueue_all fs s) = phase s"
  by (induction fs arbitrary: s) simp_all

lemma enqueue_closing: "closing s \<Longrightarrow> enqueue_all fs s = s"
  by (induction fs) (simp_all add: enqueue_def)

definition room :: "sock \<Rightarrow> nat" where
  "room s = nat (outbox_max s - int (length (outbox s)))"

text \<open>Frames are taken while there is room; the first that finds none closes the socket.\<close>

lemma enqueue_all_result:
  assumes "\<not> closing s" "int (length (outbox s)) \<le> outbox_max s"
  shows "enqueue_all fs s =
    (if length fs \<le> room s then s\<lparr>outbox := outbox s @ fs\<rparr>
     else emit (CloseSent CLOSE_OVERFLOW) (s\<lparr>outbox := outbox s @ take (room s) fs, closing := True\<rparr>))"
  using assms
proof (induction fs arbitrary: s)
  case Nil
  then show ?case by simp
next
  case (Cons f fs)
  show ?case
  proof (cases "int (length (outbox s)) < outbox_max s")
    case True
    let ?s1 = "s\<lparr>outbox := outbox s @ [f]\<rparr>"
    have s1: "enqueue f s = ?s1" using True Cons.prems by (simp add: enqueue_def)
    have r: "room s = Suc (room ?s1)" using True by (simp add: room_def)
    have "enqueue_all fs ?s1 = (if length fs \<le> room ?s1 then ?s1\<lparr>outbox := outbox ?s1 @ fs\<rparr>
        else emit (CloseSent CLOSE_OVERFLOW) (?s1\<lparr>outbox := outbox ?s1 @ take (room ?s1) fs, closing := True\<rparr>))"
      using Cons.prems True by (intro Cons.IH) simp_all
    with s1 r show ?thesis by (simp add: emit_def)
  next
    case False
    then have "enqueue f s = emit (CloseSent CLOSE_OVERFLOW) (s\<lparr>closing := True\<rparr>)" "room s = 0"
      using Cons.prems by (simp_all add: enqueue_def room_def)
    then show ?thesis by (simp add: enqueue_closing)
  qed
qed

lemma frames_outbox [simp]: "frames (s\<lparr>outbox := outbox s @ fs\<rparr>) = frames s @ fs"
  by (auto simp: frames_def split: option.splits)

lemma enqueue_all_frames:
  assumes "\<not> closing s" "int (length (outbox s)) \<le> outbox_max s"
  shows "frames (enqueue_all fs s) = frames s @ take (room s) fs"
    and "closing (enqueue_all fs s) \<longleftrightarrow> room s < length fs"
    and "room s < length fs \<Longrightarrow> CloseSent CLOSE_OVERFLOW \<in> set (log (enqueue_all fs s))"
proof -
  have "frames (enqueue_all fs s) = frames s @ take (room s) fs \<and>
      (closing (enqueue_all fs s) \<longleftrightarrow> room s < length fs) \<and>
      (room s < length fs \<longrightarrow> CloseSent CLOSE_OVERFLOW \<in> set (log (enqueue_all fs s)))"
    unfolding enqueue_all_result [OF assms, of fs] using assms(1)
    by (auto simp: frames_def emit_def split: option.splits)
  then show "frames (enqueue_all fs s) = frames s @ take (room s) fs"
    "closing (enqueue_all fs s) \<longleftrightarrow> room s < length fs"
    "room s < length fs \<Longrightarrow> CloseSent CLOSE_OVERFLOW \<in> set (log (enqueue_all fs s))" by simp_all
qed

section \<open>A hello\<close>

text \<open>Pushing rows queues the frames of those above the cursor.\<close>

lemma push_rows_queue:
  "\<exists>c. foldl push_row s ms =
    (enqueue_all (map (row_frame (stream_key s)) (above message_seq (max_seq_sent s) ms)) s)\<lparr>max_seq_sent := c\<rparr>"
proof (induction ms arbitrary: s)
  case Nil
  then show ?case by (auto intro: exI [of _ "max_seq_sent s"])
next
  case (Cons m ms)
  show ?case
  proof (cases "message_seq m \<le> max_seq_sent s")
    case True
    with Cons.IH [of s] show ?thesis by (simp add: push_row_simp)
  next
    case False
    let ?s1 = "(enqueue (row_frame (stream_key s) m) s)\<lparr>max_seq_sent := message_seq m\<rparr>"
    have "push_row s m = ?s1" using False by (simp add: push_row_simp)
    with Cons.IH [of ?s1] False show ?thesis by auto
  qed
qed

definition welcome_frame :: "sock \<Rightarrow> int \<Rightarrow> pydict" where
  "welcome_frame s server_seq = frame WELCOME (Some [(''server_seq'', PInt server_seq)]) None (stream_key s)"

definition done_frame :: "sock \<Rightarrow> int \<Rightarrow> pydict" where
  "done_frame s server_seq = frame REPLAY_DONE (Some [(''up_to_seq'', PInt server_seq)]) None (stream_key s)"

definition resync_frame :: "sock \<Rightarrow> int \<Rightarrow> int \<Rightarrow> int \<Rightarrow> pydict" where
  "resync_frame s lq limit server_seq =
     frame RESYNC (Some [(''gap'', PInt (server_seq - lq)), (''window'', PInt limit),
       (''server_seq'', PInt server_seq)]) None (stream_key s)"

lemma send_plain:
  "d \<noteq> [] \<Longrightarrow>
     send_frame t (PDict d) PNone s = (enqueue (frame t (Some d) None (stream_key s)) s, None)"
  by (simp add: send_frame_def queue_frame_def)

text \<open>The steps of a resumable \<open>hello\<close>, and what both queue together.\<close>

definition replay_frames :: "sock \<Rightarrow> int \<Rightarrow> JournalRow list \<Rightarrow> pydict list" where
  "replay_frames s c rows = map (row_frame (stream_key s)) (above message_seq c (map (Pair False) rows))"

lemma hello_seq_step:
  assumes "max_replay (conf E) = Inr limit" "server_seq - lq \<le> limit"
  shows "hello_server_seq E lq (Inr (PInt server_seq)) s =
    ((enqueue (welcome_frame s server_seq) s)\<lparr>max_seq_sent := max (max_seq_sent s) lq,
       phase := AwaitRows lq server_seq\<rparr>, None)"
  using assms by (simp add: hello_server_seq_def send_plain Let_def welcome_frame_def)

lemma hello_rows_step:
  "\<exists>c. hello_rows server_seq (Inr rows) s =
    ((enqueue_all (replay_frames s (max_seq_sent s) rows @ [done_frame s server_seq]) s)\<lparr>phase := Idle,
       max_seq_sent := c\<rparr>, None)"
proof -
  obtain c where "foldl push_row (s\<lparr>phase := Idle\<rparr>) (map (Pair False) rows) =
      (enqueue_all (replay_frames s (max_seq_sent s) rows) s)\<lparr>phase := Idle, max_seq_sent := c\<rparr>"
    using push_rows_queue [of "s\<lparr>phase := Idle\<rparr>" "map (Pair False) rows"]
    by (auto simp: replay_frames_def)
  then have "hello_rows server_seq (Inr rows) s =
      ((enqueue_all (replay_frames s (max_seq_sent s) rows @ [done_frame s server_seq]) s)\<lparr>phase := Idle,
         max_seq_sent := c\<rparr>, None)"
    by (simp add: hello_rows_def replay_rows_push send_plain done_frame_def)
  then show ?thesis by blast
qed

lemma hello_resync_step:
  assumes "max_replay (conf E) = Inr limit" "limit < server_seq - lq"
  shows "hello_server_seq E lq (Inr (PInt server_seq)) s =
    ((enqueue_all [welcome_frame s server_seq, resync_frame s lq limit server_seq] s)\<lparr>phase := Idle,
       max_seq_sent := max (max_seq_sent s) lq\<rparr>, None)"
  using assms
  by (simp add: hello_server_seq_def send_plain Let_def resync_payload_def welcome_frame_def resync_frame_def)

lemma replay_frames_ascending:
  assumes "sorted_wrt (<) (map row_seq rows)"
  shows "replay_frames s c rows =
    map (\<lambda>r. frame REPLAY (Some (row_payload r)) (Some (row_seq r)) (stream_key s))
      (filter (\<lambda>r. c < row_seq r) rows)"
proof -
  have "sorted_wrt (<) (map message_seq (map (Pair False) rows))"
    using assms by (simp add: message_seq_def comp_def)
  from above_ascending [OF this] show ?thesis
    by (simp add: replay_frames_def filter_map comp_def message_seq_def row_frame_def)
qed

text \<open>What \<open>get_replay_rows\<close> promises: the rows of the journal after a sequence, in ascending
  order, at most the limit.\<close>

definition rows_after :: "JournalRow list \<Rightarrow> int \<Rightarrow> int \<Rightarrow> JournalRow list" where
  "rows_after journal after limit = take (nat limit) (filter (\<lambda>r. after < row_seq r) journal)"

lemma ascending_count:
  assumes "sorted_wrt (<) (map row_seq rs)" "\<forall>r\<in>set rs. a < row_seq r \<and> row_seq r \<le> b"
  shows "int (length rs) \<le> max 0 (b - a)"
proof -
  have "distinct (map row_seq rs)" using assms(1) strict_sorted_iff by blast
  then have "length rs = card (set (map row_seq rs))" by (metis distinct_card length_map)
  also have "\<dots> \<le> card {a<..b}" using assms(2) by (intro card_mono) auto
  finally show ?thesis by simp
qed

text \<open>The bound on the gap bounds the rows, so the limit cuts nothing off.\<close>

lemma rows_after_all:
  assumes "sorted_wrt (<) (map row_seq journal)" "\<forall>r\<in>set journal. row_seq r \<le> server_seq"
    and "server_seq - lq \<le> limit" "0 \<le> limit"
  shows "rows_after journal lq limit = filter (\<lambda>r. lq < row_seq r) journal"
proof -
  have "sorted_wrt (<) (map row_seq (filter (\<lambda>r. lq < row_seq r) journal))"
    using assms(1) by (induction journal) auto
  then have "int (length (filter (\<lambda>r. lq < row_seq r) journal)) \<le> max 0 (server_seq - lq)"
    using assms(2) by (intro ascending_count) auto
  with assms show ?thesis by (simp add: rows_after_def)
qed

end
