(* ===== verification/SocketRights.thy ===== *)
theory SocketRights
  imports ConsumerSafety
begin

text \<open>
  Two more invariants of a socket, on attributes that the small steps do not follow: how long a verdict of
  the authorizer is reused, and how many protocol errors are tolerated.
\<close>

section \<open>Views that handlers leave alone\<close>

text \<open>
  A view of a socket that does not depend on its queue, its phase and whether it is closing is the same after
  every handler that only queues plain frames and closes; the extensions add the cursor, which journal frames
  move, and the writer, and what the heartbeat and a received frame change. A contract, because several
  invariants need it for different views.
\<close>

locale unqueued =
  fixes view :: "sock \<Rightarrow> 'v"
  assumes view_enqueue: "view (enqueue f s) = view s"
    and view_phase: "view (s\<lparr>phase := p\<rparr>) = view s"
    and view_closing: "view (s\<lparr>closing := True\<rparr>) = view s"
    and view_pong: "view (s\<lparr>pong_pending := b\<rparr>) = view s"
    and view_close: "view (emit (CloseSent c) s) = view s"
begin

lemmas view_core = view_enqueue view_phase view_closing view_pong view_close

lemma view_queue: "view (fst (queue_frame t p q s)) = view s"
  by (simp add: queue_frame_def view_core split: sum.splits)

lemma view_plain: "view (fst (send_frame t p PNone s)) = view s"
  by (simp add: send_frame_def view_queue)

lemma view_andThen:
  "view (fst r) = v \<Longrightarrow> (\<And>s1. view (fst (f s1)) = view s1) \<Longrightarrow> view (fst (andThen r f)) = v"
  by (cases r; cases "snd r") auto

lemma view_drain: "view (drain_then_close c s) = view s"
  by (simp add: drain_then_close_def view_core)

lemma view_drained: "view (drained c s) = view s"
  by (simp add: drained_def view_core)

lemma view_signal: "view (fst (realtime_signal msg s)) = view s"
  by (auto simp: realtime_signal_def view_core split: sum.splits)

lemma view_revoke: "view (fst (realtime_revoke E msg s)) = view s"
  by (auto simp: realtime_revoke_def view_drain view_plain intro!: view_andThen)

lemma view_on_hello: "view (fst (on_hello E fr s)) = view s"
  by (auto simp: on_hello_def base_on_hello_def ephemeral_on_hello_def resumable_on_hello_def send_error_def
      view_plain view_core split: kind.splits sum.splits)

lemma view_handler: "map_of (frame_handlers E) t = Some handler \<Longrightarrow> view (fst (handler fr s)) = view s"
  by (auto simp: frame_handlers_def on_ping_def on_pong_def view_on_hello view_plain view_core split: if_splits)

lemma view_settle: "view (settle r) = view (fst r)"
  by (cases r; cases "snd r") (auto simp: settle_def view_core)

end

text \<open>Views that the dedup cursor and the writer do not touch either.\<close>

locale untouched = unqueued +
  assumes view_cursor: "view (s\<lparr>max_seq_sent := n\<rparr>) = view s"
    and view_writer: "view (writer_take s) = view s" "view (writer_sent s) = view s" "view (writer_failed s) = view s"
begin

lemmas view_base = view_core view_cursor view_writer

lemma view_send: "view (fst (send_frame t p q s)) = view s"
  by (simp add: send_frame_def view_queue view_base split: sum.splits)

lemma view_replay: "view (fst (replay_rows rows s)) = view s"
  by (induction rows arbitrary: s) (auto intro!: view_andThen simp: view_send)

lemma view_server_seq: "view (fst (hello_server_seq E lq hook s)) = view s"
  by (auto simp: hello_server_seq_def view_send view_base Let_def intro!: view_andThen split: sum.splits)

lemma view_rows: "view (fst (hello_rows server hook s)) = view s"
  by (auto simp: hello_rows_def view_replay view_send view_base intro!: view_andThen split: sum.splits)

lemma view_group: "view (fst (dispatch_group E msg s)) = view s"
  by (simp add: dispatch_group_def view_signal realtime_frame_def view_revoke view_send)

lemmas view_dispatch = view_settle view_server_seq view_rows view_group view_drained view_writer

end

text \<open>Views that the heartbeat does not touch.\<close>

locale unqueued_by_beat = unqueued +
  assumes view_beat: "view (s\<lparr>beat := b\<rparr>) = view s"
    and view_renewal: "view (emit (Presence c) s) = view s"
begin

lemma view_beat_ping: "view (beat_ping E now s) = view s"
proof -
  have "view (fst (send_frame PING PNone PNone (s\<lparr>pong_pending := True\<rparr>))) = view s"
    by (simp add: view_plain view_pong)
  then show ?thesis by (auto simp: beat_ping_def view_beat split: prod.splits option.splits sum.splits)
qed

lemma view_beat_steps: "view (beat_wake E now s) = view s" "view (beat_deadline E now s) = view s"
  by (auto simp: beat_wake_def beat_deadline_def view_beat_ping view_beat view_renewal view_core
      split: sum.splits bool.splits option.splits)

end

locale untouched_by_beat = untouched + unqueued_by_beat

text \<open>Views that a received frame does not touch.\<close>

locale unqueued_by_receive = unqueued +
  assumes view_authorized: "view (s\<lparr>authorized_until := x\<rparr>) = view s"
    and view_strikes: "view (s\<lparr>strikes := k\<rparr>) = view s"
begin

lemma view_authorize: "view (snd (authorize_cached E force tick s)) = view s"
  by (auto simp: authorize_cached_def view_authorized split: option.splits sum.splits bool.splits)

lemma view_protocol_error: "view (protocol_error E fault s) = view s"
  by (simp add: protocol_error_def Let_def send_error_def view_drain view_enqueue view_strikes)

lemma view_receive: "view (fst (receive_json E tick content s)) = view s"
proof (cases "parse_frame content")
  case (Inl e)
  then show ?thesis by (cases e) (simp_all add: receive_json_def view_protocol_error)
next
  case (Inr fr)
  obtain r s1 where a: "authorize_cached E False tick s = (r, s1)" by fastforce
  have "view s1 = view s" using view_authorize [of E False tick s] a by simp
  with Inr a show ?thesis
    by (cases r) (auto simp: receive_json_def send_error_def view_handler view_enqueue view_drain
        split: option.splits)
qed

end

locale untouched_by_receive = untouched + unqueued_by_receive

definition rights :: "sock \<Rightarrow> pyfloat \<times> nat \<times> string option" where
  "rights s = (authorized_until s, strikes s, stream_key s)"

interpretation rights: untouched_by_beat rights
  by unfold_locales
     (auto simp: rights_def enqueue_def writer_take_def writer_sent_def writer_failed_def
        split: list.splits option.splits)

lemma smalls_writer: "smalls R s (writer_take s)" "smalls R s (writer_sent s)"
  "inflight s \<noteq> None \<Longrightarrow> writing s \<Longrightarrow> smalls R s (writer_failed s)"
  by (intro r_into_rtranclp small.take_frame, intro r_into_rtranclp small.write_frame,
      intro r_into_rtranclp small.drop_frame)

lemma enqueue_authorized [simp]: "authorized_until (enqueue f s) = authorized_until s"
  by (simp add: enqueue_def)

section \<open>What a received frame does to them\<close>

definition granted :: "env \<Rightarrow> sock \<Rightarrow> bool" where
  "granted E s \<longleftrightarrow> authorized_until s = Fin 0 \<or>
     (\<exists>key t0 ttl. stream_key s = Some key \<and> authorize E t0 key = Inr True \<and>
        authorize_ttl (conf E) = Inr ttl \<and> authorized_until s = pf_add (Fin t0) ttl)"

lemma granted_same: "rights s' = rights s \<Longrightarrow> granted E s \<Longrightarrow> granted E s'"
  by (auto simp: granted_def rights_def)

lemma authorize_granted:
  "authorize_cached E force tick s = (r, s1) \<Longrightarrow> granted E s \<Longrightarrow> granted E s1"
  by (auto simp: authorize_cached_def granted_def split: option.splits sum.splits bool.splits if_splits)

definition tolerated :: "sock \<Rightarrow> bool" where
  "tolerated s \<longleftrightarrow> strikes s < PROTOCOL_STRIKES \<or> closing s"

lemma tolerated_same: "rights s' = rights s \<Longrightarrow> smalls R s s' \<Longrightarrow> tolerated s \<Longrightarrow> tolerated s'"
  using smalls_closing by (auto simp: tolerated_def rights_def)

lemma kept_same:
  "rights s' = rights s \<Longrightarrow> smalls R s s' \<Longrightarrow> granted E s \<and> tolerated s \<Longrightarrow> granted E s' \<and> tolerated s'"
  using granted_same tolerated_same by blast

lemma protocol_error_keeps:
  "authorized_until (protocol_error E fault s) = authorized_until s"
  "stream_key (protocol_error E fault s) = stream_key s" "tolerated (protocol_error E fault s)"
  by (auto simp: protocol_error_def Let_def send_error_def drain_then_close_def tolerated_def)

lemma receive_keeps:
  assumes "granted E s" "tolerated s"
  shows "granted E (fst (receive_json E tick content s)) \<and> tolerated (fst (receive_json E tick content s))"
proof (cases "parse_frame content")
  case (Inl e)
  with assms show ?thesis
    by (cases e) (auto simp: receive_json_def granted_def protocol_error_keeps)
next
  case (Inr fr)
  show ?thesis
  proof (cases "map_of (frame_handlers E) (ftype fr)")
    case None
    have "rights (send_error ERROR_BAD_TYPE (bad_type_message E (ftype fr)) s) = rights s"
      by (simp add: send_error_def rights.view_enqueue)
    with None Inr assms kept_same [OF _ smalls_errors(2)] show ?thesis
      by (simp add: receive_json_def)
  next
    case (Some handler)
    obtain r s1 where a: "authorize_cached E False tick s = (r, s1)" by fastforce
    obtain x where s1: "s1 = s\<lparr>authorized_until := x\<rparr>" using authorize_keeps [OF a] by blast
    have g1: "granted E s1 \<and> tolerated s1"
      using authorize_granted [OF a assms(1)] assms(2) s1 by (simp add: tolerated_def)
    let ?no = "drain_then_close CLOSE_FORBIDDEN (send_error ERROR_UNAUTHORIZED lost_rights_message s1)"
    have no: "granted E ?no \<and> tolerated ?no"
      by (rule kept_same [OF _ rtranclp_trans [OF smalls_errors(3) smalls_drain_then_close] g1])
         (simp_all add: send_error_def rights.view_drain rights.view_enqueue)
    have run: "granted E (fst (handler fr t)) \<and> tolerated (fst (handler fr t))"
      if "granted E t \<and> tolerated t" for t
      by (rule kept_same [OF rights.view_handler [OF Some] smalls_handler [OF Some] that])
    show ?thesis
      using Inr Some a g1 no run [of s1] run [of s] assms by (cases r) (auto simp: receive_json_def)
  qed
qed

lemma settle_keeps:
  "granted E (fst r) \<Longrightarrow> granted E (settle r)" "tolerated (fst r) \<Longrightarrow> tolerated (settle r)"
  by (cases r; cases "snd r"; simp add: settle_def granted_def tolerated_def)+

lemma connect_keeps:
  "granted E (settle (connect E tick now ok new_sock)) \<and> tolerated (settle (connect E tick now ok new_sock))"
proof -
  have after: "granted E (fst (after_accept E now s)) \<and> tolerated (fst (after_accept E now s))"
    if "granted E s" "tolerated s" for s
    using that by (auto simp: after_accept_def Let_def granted_def tolerated_def split: sum.splits)
  have sub: "granted E (fst (subscribe E tick now ok s)) \<and> tolerated (fst (subscribe E tick now ok s))"
    if s: "granted E s" "tolerated s" for s
  proof -
    obtain r s1 where a: "authorize_cached E True tick s = (r, s1)" by fastforce
    obtain x where x: "s1 = s\<lparr>authorized_until := x\<rparr>" using authorize_keeps [OF a] by blast
    have "granted E s1" "tolerated s1" using authorize_granted [OF a] s x by (simp_all add: tolerated_def)
    then show ?thesis
      using a after [of "emit Accept (emit (GroupAdd _) (s1\<lparr>sgroup := Some _\<rparr>))"]
      by (auto simp: subscribe_def Let_def granted_def tolerated_def split: sum.splits bool.splits)
  qed
  define P where "P t \<longleftrightarrow> granted E t \<and> tolerated t" for t
  have base: "P t" if "authorized_until t = Fin 0" "strikes t = 0" for t
    using that by (simp add: P_def granted_def tolerated_def PROTOCOL_STRIKES_def)
  have next_step: "P (fst (subscribe E tick now ok t))" if "P t" for t
    using sub that by (simp add: P_def)
  have "P (fst (connect E tick now ok new_sock))"
    by (auto simp: connect_def Let_def new_sock_def intro!: base next_step split: sum.splits option.splits)
  then show ?thesis by (simp add: settle_keeps P_def)
qed

lemma disconnect_keeps_rights [simp]:
  "authorized_until (stop (disconnect E now ok s)) = authorized_until s"
  "strikes (stop (disconnect E now ok s)) = strikes s"
  by (auto simp: disconnect_def stop_def Let_def split: option.splits)

lemma reachable_rights: "reachable E s \<Longrightarrow> granted E s \<and> tolerated s"
proof (induction rule: reachable.induct)
  case start
  then show ?case by (simp add: granted_def tolerated_def PROTOCOL_STRIKES_def new_sock_def)
next
  case (step s ev s')
  have same: ?case if "rights s' = rights s" "phase s \<noteq> New" "phase s \<noteq> Idle"
    using moves_smalls [OF step.hyps(2), of "\<lambda>_. True", OF TrueI] that kept_same step.IH by blast
  have small: ?case if "rights s' = rights s" "smalls (\<lambda>_. True) s s'"
    by (rule kept_same [OF that step.IH])
  from step.hyps(2) show ?case
  proof cases
    case (connects tick now ok)
    then show ?thesis using reachable_New [OF step.hyps(1)] connect_keeps by simp
  next
    case (receives tick content)
    then show ?thesis using receive_keeps step.IH settle_keeps by simp
  next
    case (hears msg)
    then show ?thesis by (intro small) (simp_all add: rights.view_dispatch smalls_settle smalls_group)
  next
    case (leaves now ok)
    then show ?thesis using step.IH by (simp add: granted_def tolerated_def)
  next
    case takes
    then show ?thesis by (intro small) (simp_all add: rights.view_dispatch smalls_writer)
  next
    case writes
    then show ?thesis by (intro small) (simp_all add: rights.view_dispatch smalls_writer)
  next
    case fails
    then show ?thesis by (intro small) (simp_all add: rights.view_dispatch smalls_writer)
  next
    case wakes
    then show ?thesis by (intro small) (simp_all add: rights.view_beat_steps smalls_beat_wake)
  next
    case renewed
    then show ?thesis by (intro small) (simp_all add: rights.view_beat_ping smalls_beat_ping)
  next
    case deadline
    then show ?thesis by (intro small) (simp_all add: rights.view_beat_steps smalls_beat_deadline)
  qed (use same in \<open>simp_all add: rights.view_dispatch\<close>)
qed

end
