(* ===== verification/SocketProperties.thy ===== *)
theory SocketProperties
  imports Resume SocketRights
begin

text \<open>
  The properties of one socket: what holds over every sequence of moves (admission, the send queue, the
  journal, closing, presence), and what single handlers do (resume, revoke, protocol errors, renewed
  authorization).
\<close>

section \<open>A concrete environment\<close>

definition sample_env :: env where
  "sample_env =
     \<lparr>cls = \<lparr>kind = Resumable, cls_module = Some ''chat'', cls_scope_type = Some ''ws'', cls_topic = None,
        stream_key_kwarg = Some ''id'', cls_authorizer = Some (\<lambda>t sc k. Inr (t < 100))\<rparr>,
      conf = defaults, canon_of = sample_canon, sha_of = id, repr_of = (\<lambda>v. []),
      scope_of = \<lparr>scope_user = Some \<lparr>is_authenticated = True, user_pk = Some (IdInt 7), user_id = None\<rparr>,
        scope_claims = None, scope_kwargs = [(''id'', IdStr ''1'')]\<rparr>,
      channel_of = ''c1''\<rparr>"

definition sample_sock :: sock where
  "sample_sock =
     new_sock\<lparr>stream_key := Some ''chat:ws:1'', sgroup := Some ''chat.ws.1'', presence_session := Some ''c1'',
       outbox_max := 100, authorized_until := Fin 30, writing := True, beat := Sleeping (Fin 25), phase := Idle,
       log := [GroupAdd ''chat.ws.1'', Accept, Presence (RecordConnect 0 (Some (IdInt 7)) ''c1'' (Some ''chat''))]\<rparr>"

lemma sample_key: "get_stream_key sample_env = Inr ''chat:ws:1''"
  by code_simp

lemma sample_group: "group_name sample_canon id ''chat:ws:1'' = Inr ''chat.ws.1''"
  by code_simp

lemma sample_family: "parse_stream_key sample_canon ''chat:ws:1'' =
   Inr \<lparr>key_module = ''chat'', key_scope_type = ''ws'', key_scope_id = ''1'', key_topic = None\<rparr>"
  by code_simp

lemma sample_connect: "settle (connect sample_env 0 0 True new_sock) = sample_sock"
  using sample_key sample_group sample_family
  by (simp add: connect_def Let_def subscribe_def authorize_cached_def authorize_def after_accept_def
      presence_family_def settle_def sample_env_def sample_sock_def socket_user_id_def opt_or_def
      start_beat_def emit_def new_sock_def)

lemma sample_reachable: "reachable sample_env sample_sock"
  using reachable.step [OF reachable.start moves.connects [of new_sock sample_env 0 0 True]] sample_connect
  by simp


section \<open>Over every sequence of moves\<close>

text \<open>C1: Fail-closed admission. Whatever sequence of moves a socket makes, it does nothing but send a
  close unless its user is authenticated, its stream key was built, the authorizer said yes to that key, and
  it joined that key's group before it was accepted; so no refused connection is ever accepted, counted in
  the presence registry, subscribed to a group or sent a frame.\<close>

theorem socket_fails_closed:
  assumes "reachable E s"
  shows "(\<forall>e\<in>set (log s). \<exists>c\<in>codes. e = CloseSent c) \<and> frames s = [] \<and> presence_session s = None \<or>
    admitted E s"
  using reachable_cases [OF assms]
proof
  assume "unopened s"
  then show ?thesis using frames_unopened by (auto simp: unopened_def)
qed simp

theorem socket_fails_closed_witness:
  "(\<forall>e\<in>set (log sample_sock). \<exists>c\<in>codes. e = CloseSent c) \<and> frames sample_sock = [] \<and>
     presence_session sample_sock = None \<or> admitted sample_env sample_sock"
  by (rule socket_fails_closed [OF sample_reachable])

text \<open>C15: Backpressure is bounded: in every reachable state the send queue holds at most
  \<open>max(1, SEND_QUEUE_SIZE)\<close> frames, so a slow reader never makes a socket buffer without bound.\<close>

theorem socket_queue_bounded:
  assumes "reachable E s" and cap: "send_queue_maxsize (conf E) = Inr cap"
  shows "int (length (outbox s)) \<le> cap"
proof -
  have "1 \<le> cap" using send_queue_maxsize_pos [OF cap] .
  with reachable_bounded [OF assms(1)] cap show ?thesis
    by (auto simp: bounded_def unopened_def)
qed

theorem socket_queue_bounded_witness: "int (length (outbox sample_sock)) \<le> 100"
  by (rule socket_queue_bounded [OF sample_reachable]) (simp add: sample_env_def)

text \<open>C5: No journal row is sent twice or out of order: over every sequence of moves (replays after
  any number of hellos, live frames, signals, pings, in any interleaving with the writer and the heartbeat),
  the sequences of the journal frames that were written, are being written or are queued are strictly
  increasing and at most the cursor.\<close>

theorem socket_journal_increasing:
  assumes "reachable E s"
  shows "sorted_wrt (<) (journal_seqs s) \<and> list_all (\<lambda>n. n \<le> max_seq_sent s) (journal_seqs s)"
  using reachable_journal_ok [OF assms] unfolding journal_ok_def list_all_iff .

theorem socket_journal_increasing_witness:
  "sorted_wrt (<) (journal_seqs sample_sock) \<and>
     list_all (\<lambda>n. n \<le> max_seq_sent sample_sock) (journal_seqs sample_sock)"
  by (rule socket_journal_increasing [OF sample_reachable])

text \<open>C16: Closing is final. Every close a socket sends carries a canonical code; once an accepted
  socket has sent one, or is draining its queue to send one, it is closing; and no move of a closing socket
  adds a frame: what was written, in flight or queued can only go out or be dropped.\<close>

theorem socket_closing_final:
  assumes r: "reachable E s" and m: "moves E s ev s'"
  shows "(CloseSent c \<in> set (log s) \<longrightarrow> c \<in> codes \<and> (accepted s \<longrightarrow> closing s)) \<and>
    (phase s = Draining c \<longrightarrow> closing s \<and> c \<in> codes) \<and>
    (closing s \<longrightarrow> closing s' \<and> subseq (frames s') (frames s))"
proof -
  have "closing s' \<and> subseq (frames s') (frames s)" if c: "closing s"
    using moves_smalls [OF m, of "\<lambda>_. True", OF TrueI]
  proof (elim disjE exE conjE)
    assume "phase s = New"
    then show ?thesis using reachable_New [OF r] c by simp
  next
    fix now ok assume "s' = stop (disconnect E now ok s)"
    then show ?thesis by simp
  next
    assume "smalls (\<lambda>_. True) s s'"
    then show ?thesis using smalls_closing c by blast
  qed
  with reachable_closes_ok [OF r] show ?thesis by (auto simp: closes_ok_def)
qed

text \<open>The sample socket after a revoke that names no one, and after its drain.\<close>

definition revoked_sock :: sock where
  "revoked_sock = sample_sock\<lparr>closing := True, phase := Draining 4410,
     outbox := [frame KICK (Some [(''reason'', PStr ''left'')]) None (Some ''chat:ws:1'')]\<rparr>"

lemma revoked_reachable: "reachable sample_env revoked_sock"
proof -
  let ?msg = "revoke_message ''chat:ws:1'' None ''left''"
  have idle: "phase sample_sock = Idle" "accepted sample_sock"
    by (simp_all add: sample_sock_def accepted_def)
  have "realtime_revoke sample_env ?msg sample_sock = (revoked_sock, None)"
    by (simp add: realtime_revoke_def revoke_targets_def kick_payload_def send_frame_def queue_frame_def py_or_def
        drain_then_close_def CLOSE_REVOKED_def revoked_sock_def)
       (simp add: enqueue_def sample_sock_def new_sock_def)
  then have "settle (dispatch_group sample_env ?msg sample_sock) = revoked_sock"
    by (simp add: dispatch_group_def settle_def)
  then show ?thesis
    using reachable.step [OF sample_reachable moves.hears [OF idle by_revoke]] by metis
qed

theorem socket_closing_final_witness:
  "\<exists>s s'. moves sample_env s WriterTakes s' \<and> CloseSent 4410 \<in> set (log s) \<and> accepted s \<and> 4410 \<in> codes \<and>
    closing s \<and> closing s' \<and> subseq (frames s') (frames s)"
proof -
  let ?s = "drained 4410 revoked_sock"
  have "phase revoked_sock = Draining 4410" by (simp add: revoked_sock_def)
  then have r: "reachable sample_env ?s"
    using reachable.step [OF revoked_reachable moves.drains] by blast
  have l: "CloseSent 4410 \<in> set (log ?s)" "accepted ?s"
    by (simp_all add: drained_def revoked_sock_def sample_sock_def accepted_def)
  show ?thesis
    using socket_closing_final [OF r moves.takes, of 4410] moves.takes [of sample_env ?s] l by blast
qed

text \<open>The presence calls of a socket balance: an accepted socket is counted exactly once, it is
  uncounted at most once and only if it was counted, and a socket that ended by \<open>disconnect\<close> has been
  uncounted; a socket that was never accepted makes no presence call.\<close>

theorem socket_presence_balanced:
  assumes "reachable E s" and "channel_of E \<noteq> []"
  shows "calls is_connect s = (if accepted s then 1 else 0) \<and>
    calls is_disconnect s \<le> calls is_connect s \<and>
    (calls is_disconnect s = calls is_connect s \<longleftrightarrow> presence_session s = None) \<and>
    (phase s = Dead None \<longrightarrow> calls is_disconnect s = calls is_connect s)"
proof -
  consider "unopened s" | "admitted E s"
    using reachable_cases [OF assms(1)] by auto
  then show ?thesis
  proof cases
    case 1
    then have "\<forall>e\<in>set (log s). \<not> is_connect e \<and> \<not> is_disconnect e" by (fastforce simp: unopened_def)
    then have "calls is_connect s = 0" "calls is_disconnect s = 0"
      by (simp_all add: calls_def filter_empty_conv)
    with 1 unopened_not_accepted show ?thesis by (simp add: unopened_def)
  next
    case 2
    with reachable_presence_ok [OF assms(2,1)] admitted_accepted admitted_opened show ?thesis
      by (auto simp: presence_ok_def)
  qed
qed

definition left_sock :: sock where
  "left_sock = stop (disconnect sample_env 5 True sample_sock)"

lemma left_reachable: "reachable sample_env left_sock"
  using reachable.step [OF sample_reachable moves.leaves [of sample_sock sample_env 5 True]]
  by (simp add: left_sock_def sample_sock_def)

theorem socket_presence_balanced_witness:
  "accepted left_sock \<and> phase left_sock = Dead None \<and> calls is_connect left_sock = 1 \<and>
    calls is_disconnect left_sock = 1 \<and> presence_session left_sock = None"
proof -
  have l: "accepted left_sock" "phase left_sock = Dead None"
    by (simp_all add: left_sock_def sample_sock_def disconnect_def stop_def Let_def accepted_def)
  have "channel_of sample_env \<noteq> []" by (simp add: sample_env_def)
  from socket_presence_balanced [OF left_reachable this] l show ?thesis by auto
qed

text \<open>C22: The window of a stale verdict is bounded: in every reachable state, a verdict that would still
  be reused at a time was given by the authorizer, for the socket's own stream, less than
  \<open>AUTHORIZE_CACHE_S\<close> seconds before that time; a refusal is never reused.\<close>

theorem verdict_window:
  assumes "reachable E s" and "authorize_ttl (conf E) = Inr (Fin ttl)"
    and "0 \<le> t" and "pf_lt (Fin t) (authorized_until s)"
  shows "\<exists>key t0. stream_key s = Some key \<and> authorize E t0 key = Inr True \<and> t < t0 + ttl"
  using reachable_rights [OF assms(1)] assms(2-4) by (auto simp: granted_def)

theorem verdict_window_witness:
  "\<exists>key t0. stream_key sample_sock = Some key \<and> authorize sample_env t0 key = Inr True \<and> 20 < t0 + 30"
proof (rule verdict_window [OF sample_reachable])
  show "authorize_ttl (conf sample_env) = Inr (Fin 30)" by (simp add: sample_env_def)
  show "pf_lt (Fin 20) (authorized_until sample_sock)" by (simp add: sample_sock_def)
qed simp

text \<open>Protocol errors are counted over the whole life of a socket: in every reachable state fewer
  than three malformed frames have been received, or the socket is closing.\<close>

theorem strikes_bounded:
  assumes "reachable E s"
  shows "strikes s < 3 \<or> closing s"
  using reachable_rights [OF assms] by (simp add: tolerated_def PROTOCOL_STRIKES_def)

theorem strikes_bounded_witness: "strikes sample_sock < 3 \<or> closing sample_sock"
  by (rule strikes_bounded [OF sample_reachable])


section \<open>Resuming a stream\<close>

definition replay_frame :: "string option \<Rightarrow> JournalRow \<Rightarrow> pydict" where
  "replay_frame key r = frame REPLAY (Some (row_payload r)) (Some (row_seq r)) key"

lemma replay_frames_sorted:
  "sorted_wrt (<) (map row_seq rows) \<Longrightarrow>
     replay_frames s c rows = map (replay_frame (stream_key s)) (filter (\<lambda>r. c < row_seq r) rows)"
  unfolding replay_frame_def by (rule replay_frames_ascending)

lemma hello_replay_exact_aux:
  assumes "phase s = AwaitSeq lq" and opn: "\<not> closing s" "int (length (outbox s)) \<le> outbox_max s"
    and limit: "max_replay (conf E) = Inr limit" "server_seq - lq \<le> limit"
    and rows: "sorted_wrt (<) (map row_seq rows)"
    and sent: "sent = [welcome_frame s server_seq] @
      map (replay_frame (stream_key s)) (filter (\<lambda>r. max (max_seq_sent s) lq < row_seq r) rows) @
      [done_frame s server_seq]"
  shows "\<exists>s1 s'. moves E s (ServerSeq (Inr (PInt server_seq))) s1 \<and> moves E s1 (Rows (Inr rows)) s' \<and>
    phase s' = Idle \<and> frames s' = frames s @ take (room s) sent \<and> (closing s' \<longleftrightarrow> room s < length sent)"
proof -
  let ?s1 = "(enqueue (welcome_frame s server_seq) s)\<lparr>max_seq_sent := max (max_seq_sent s) lq,
      phase := AwaitRows lq server_seq\<rparr>"
  have 1: "moves E s (ServerSeq (Inr (PInt server_seq))) ?s1"
    using moves.gets_seq [OF assms(1), of E "Inr (PInt server_seq)"] hello_seq_step [OF limit, of s]
    by (simp add: settle_def)
  obtain c where "hello_rows server_seq (Inr rows) ?s1 =
      ((enqueue_all (replay_frames ?s1 (max_seq_sent ?s1) rows @ [done_frame ?s1 server_seq]) ?s1)\<lparr>phase := Idle,
         max_seq_sent := c\<rparr>, None)"
    using hello_rows_step by blast
  moreover have "sent = welcome_frame s server_seq #
      (replay_frames ?s1 (max_seq_sent ?s1) rows @ [done_frame ?s1 server_seq])"
    unfolding sent replay_frames_sorted [OF rows] by (simp add: done_frame_def)
  ultimately have 2: "settle (hello_rows server_seq (Inr rows) ?s1) =
      (enqueue_all sent s)\<lparr>phase := Idle, max_seq_sent := c\<rparr>"
    by (simp add: settle_def)
  have "moves E ?s1 (Rows (Inr rows)) ((enqueue_all sent s)\<lparr>phase := Idle, max_seq_sent := c\<rparr>)"
    using moves.gets_rows [of ?s1 lq server_seq E "Inr rows"] unfolding 2 by simp
  with 1 enqueue_all_frames(1,2) [OF opn, of sent] show ?thesis
    by (intro exI [of _ ?s1] exI [of _ "(enqueue_all sent s)\<lparr>phase := Idle, max_seq_sent := c\<rparr>"])
       (simp add: frames_def)
qed

definition sample_hello :: sock where
  "sample_hello = sample_sock\<lparr>phase := AwaitSeq 1\<rparr>"

definition sample_rows :: "JournalRow list" where
  "sample_rows = [\<lparr>row_seq = 2, row_payload = []\<rparr>, \<lparr>row_seq = 3, row_payload = []\<rparr>]"

lemma sample_max_replay: "max_replay (conf sample_env) = Inr 500"
  by (simp add: sample_env_def)

lemma sample_hello_fields [simp]:
  "phase sample_hello = AwaitSeq 1" "\<not> closing sample_hello" "outbox sample_hello = []"
  "outbox_max sample_hello = 100" "max_seq_sent sample_hello = 0" "stream_key sample_hello = Some ''chat:ws:1''"
  by (simp_all add: sample_hello_def sample_sock_def new_sock_def)

text \<open>Catch-up loses nothing when no live frame came before the \<open>hello\<close> and the queue has
  room: if the journal is strictly ascending, the hook keeps its contract, the cursor is at most
  \<open>last_seq\<close> and the gap is within the window, the client receives exactly the rows of the journal
  after \<open>last_seq\<close>, all of them (the limit on the hook cuts nothing off).\<close>

theorem hello_catches_up:
  assumes "phase s = AwaitSeq lq" and "\<not> closing s" and "max_seq_sent s \<le> lq"
    and journal: "sorted_wrt (<) (map row_seq journal)" "\<forall>r\<in>set journal. row_seq r \<le> server_seq"
    and limit: "max_replay (conf E) = Inr limit" "server_seq - lq \<le> limit" "0 \<le> limit"
    and fits: "int (length (outbox s) + 2) + limit \<le> outbox_max s"
  shows "\<exists>s1 s'. moves E s (ServerSeq (Inr (PInt server_seq))) s1 \<and>
    moves E s1 (Rows (Inr (rows_after journal lq limit))) s' \<and> \<not> closing s' \<and>
    frames s' = frames s @ [welcome_frame s server_seq] @
      map (replay_frame (stream_key s)) (filter (\<lambda>r. lq < row_seq r) journal) @ [done_frame s server_seq]"
proof -
  let ?rows = "filter (\<lambda>r. lq < row_seq r) journal"
  let ?sent = "[welcome_frame s server_seq] @ map (replay_frame (stream_key s)) ?rows @ [done_frame s server_seq]"
  have rows: "rows_after journal lq limit = ?rows"
    using rows_after_all [OF journal limit(2,3)] .
  have "int (length ?rows) \<le> limit"
    using limit(3) arg_cong [OF rows, of length] by (simp add: rows_after_def)
  with fits have "length ?sent \<le> room s" by (simp add: room_def)
  moreover have "sorted_wrt (<) (map row_seq ?rows)" using journal(1) by (induction journal) auto
  moreover have "filter (\<lambda>r. max (max_seq_sent s) lq < row_seq r) ?rows = ?rows"
    using assms(3) by (simp add: max_absorb2)
  ultimately show ?thesis
    using hello_replay_exact_aux [OF assms(1,2) _ limit(1,2), of ?rows ?sent] fits limit(3) unfolding rows by auto
qed

theorem hello_catches_up_witness:
  "\<exists>s1 s'. moves (sample_env\<lparr>conf := defaults\<lparr>MAX_REPLAY := PInt 50\<rparr>\<rparr>) sample_hello (ServerSeq (Inr (PInt 3))) s1 \<and>
    moves (sample_env\<lparr>conf := defaults\<lparr>MAX_REPLAY := PInt 50\<rparr>\<rparr>) s1 (Rows (Inr (rows_after sample_rows 1 50))) s' \<and>
    \<not> closing s' \<and>
    frames s' = frames sample_hello @ [welcome_frame sample_hello 3] @
      map (replay_frame (stream_key sample_hello)) (filter (\<lambda>r. 1 < row_seq r) sample_rows) @
      [done_frame sample_hello 3]"
  by (rule hello_catches_up [OF sample_hello_fields(1)]) (simp_all add: sample_rows_def max_replay_def)

text \<open>A gap wider than the window is not replayed: the client is told to resync, with the width of the
  gap, and the socket stays open, whatever the hook for the rows would return.\<close>

theorem hello_resyncs:
  assumes "phase s = AwaitSeq lq" and "\<not> closing s" and "int (length (outbox s)) + 2 \<le> outbox_max s"
    and "max_replay (conf E) = Inr limit" and "limit < server_seq - lq"
  shows "\<exists>s'. moves E s (ServerSeq (Inr (PInt server_seq))) s' \<and> phase s' = Idle \<and> \<not> closing s' \<and>
    frames s' = frames s @ [welcome_frame s server_seq, resync_frame s lq limit server_seq]"
proof -
  let ?fs = "[welcome_frame s server_seq, resync_frame s lq limit server_seq]"
  let ?s' = "(enqueue_all ?fs s)\<lparr>phase := Idle, max_seq_sent := max (max_seq_sent s) lq\<rparr>"
  have "moves E s (ServerSeq (Inr (PInt server_seq))) ?s'"
    using moves.gets_seq [OF assms(1), of E "Inr (PInt server_seq)"] hello_resync_step [OF assms(4,5), of s]
    by (simp add: settle_def)
  moreover have "length ?fs \<le> room s" using assms(3) by (simp add: room_def)
  ultimately show ?thesis
    using enqueue_all_frames(1,2) [of s ?fs] assms(2,3) by (intro exI [of _ ?s']) (simp add: frames_def)
qed

theorem hello_resyncs_witness:
  "\<exists>s'. moves sample_env sample_hello (ServerSeq (Inr (PInt 502))) s' \<and> phase s' = Idle \<and> \<not> closing s' \<and>
    frames s' = frames sample_hello @ [welcome_frame sample_hello 502, resync_frame sample_hello 1 500 502]"
  by (rule hello_resyncs [OF sample_hello_fields(1) _ _ sample_max_replay]) simp_all

text \<open>C31: A replay as long as the send queue never completes: the rows are queued without yielding to the
  writer, so from any open socket a replay of at least \<open>SEND_QUEUE_SIZE\<close> rows overflows the queue and
  closes 4413 before \<open>replay_done\<close>. With the default settings this is every gap of 100 to 500 rows,
  although the window promises to replay 500.\<close>

theorem long_replay_overflows:
  assumes "phase s = AwaitRows lq server_seq" and opn: "\<not> closing s" "int (length (outbox s)) \<le> outbox_max s"
    and rows: "sorted_wrt (<) (map row_seq rows)" "\<forall>r\<in>set rows. max_seq_sent s < row_seq r"
    and long: "outbox_max s \<le> int (length rows)"
  shows "\<exists>s'. moves E s (Rows (Inr rows)) s' \<and> closing s' \<and> CloseSent 4413 \<in> set (log s') \<and>
    frames s' = frames s @ map (replay_frame (stream_key s)) (take (room s) rows)"
proof -
  let ?fs = "map (replay_frame (stream_key s)) rows @ [done_frame s server_seq]"
  have "filter (\<lambda>r. max_seq_sent s < row_seq r) rows = rows" using rows(2) by simp
  then have "replay_frames s (max_seq_sent s) rows = map (replay_frame (stream_key s)) rows"
    using replay_frames_sorted [OF rows(1)] by simp
  then obtain c where "hello_rows server_seq (Inr rows) s =
      ((enqueue_all ?fs s)\<lparr>phase := Idle, max_seq_sent := c\<rparr>, None)"
    using hello_rows_step [of server_seq rows s] by auto
  then have "moves E s (Rows (Inr rows)) ((enqueue_all ?fs s)\<lparr>phase := Idle, max_seq_sent := c\<rparr>)"
    using moves.gets_rows [OF assms(1), of E "Inr rows"] by (simp add: settle_def)
  moreover have short: "room s \<le> length rows" "room s < length ?fs" using long by (auto simp: room_def)
  moreover have "take (room s) ?fs = map (replay_frame (stream_key s)) (take (room s) rows)"
    using short by (simp add: take_map)
  ultimately show ?thesis
    using enqueue_all_frames [OF opn, of ?fs]
    by (intro exI [of _ "(enqueue_all ?fs s)\<lparr>phase := Idle, max_seq_sent := c\<rparr>"])
       (simp add: frames_def CLOSE_OVERFLOW_def)
qed

definition hundred_rows :: "JournalRow list" where
  "hundred_rows = map (\<lambda>n. \<lparr>row_seq = int n, row_payload = []\<rparr>) [1..<101]"

theorem long_replay_overflows_witness:
  "\<exists>s'. moves sample_env (sample_sock\<lparr>phase := AwaitRows 0 100\<rparr>) (Rows (Inr hundred_rows)) s' \<and> closing s' \<and>
    CloseSent 4413 \<in> set (log s') \<and>
    frames s' = frames (sample_sock\<lparr>phase := AwaitRows 0 100\<rparr>) @
      map (replay_frame (stream_key (sample_sock\<lparr>phase := AwaitRows 0 100\<rparr>)))
        (take (room (sample_sock\<lparr>phase := AwaitRows 0 100\<rparr>)) hundred_rows)"
proof (rule long_replay_overflows)
  show "phase (sample_sock\<lparr>phase := AwaitRows 0 100\<rparr>) = AwaitRows 0 100" by simp
  show "sorted_wrt (<) (map row_seq hundred_rows)"
    by (simp add: hundred_rows_def sorted_wrt_map comp_def)
qed (auto simp: sample_sock_def new_sock_def hundred_rows_def)

end
