(* ===== verification/SocketActions.thy ===== *)
theory SocketActions
  imports SocketProperties
begin

text \<open>
  What single events do to an accepted, open socket with room in its queue: signals are relayed verbatim,
  a revoke kicks exactly its target, malformed frames are answered and then end the socket, and a
  \<open>hello\<close> is authorized again.
\<close>

section \<open>Relaying and revoking\<close>

text \<open>A socket that can take frames: idle, accepted, open, with room for some.\<close>

definition ready :: "sock \<Rightarrow> nat \<Rightarrow> bool" where
  "ready s n \<longleftrightarrow> phase s = Idle \<and> accepted s \<and> \<not> closing s \<and> int (length (outbox s) + n) \<le> outbox_max s"

lemma ready_enqueue: "ready s n \<Longrightarrow> 0 < n \<Longrightarrow> enqueue f s = s\<lparr>outbox := outbox s @ [f]\<rparr>"
  by (simp add: ready_def enqueue_def)

lemma ready_frames: "ready s n \<Longrightarrow> 0 < n \<Longrightarrow> frames (enqueue f s) = frames s @ [f]"
  by (simp add: ready_enqueue)

lemma sample_ready: "n \<le> 100 \<Longrightarrow> ready sample_sock n"
  by (simp add: ready_def sample_sock_def new_sock_def accepted_def)

definition stream_value :: "sock \<Rightarrow> pyval" where
  "stream_value s = (case stream_key s of None \<Rightarrow> PNone | Some k \<Rightarrow> PStr k)"

lemma signal_step:
  assumes s: "ready s 1" and d: "d \<noteq> []"
  shows "settle (dispatch_group E (signal_message k d) s) =
      enqueue (dict_setdefault ''stream'' (stream_value s) d) s \<and>
    frames (settle (dispatch_group E (signal_message k d) s)) =
      frames s @ [dict_setdefault ''stream'' (stream_value s) d]"
proof -
  have "realtime_signal (signal_message k d) s =
      (enqueue (dict_setdefault ''stream'' (stream_value s) d) s, None)"
    using d by (simp add: realtime_signal_def stream_value_def py_or_def)
  then show ?thesis
    using ready_frames [OF s] by (simp add: dispatch_group_def settle_def)
qed

text \<open>From the emitter to the wire: whenever \<open>deliver\<close> reports that a signal reached the layer, a
  ready socket that receives the layer's message queues exactly the frame that was delivered, with nothing
  changed and at most the socket's stream added, and the frame's type is not one the protocol owns; an empty
  frame is dropped.\<close>

theorem signal_end_to_end:
  assumes sent: "deliver build sha (\<lambda>l g m. (Inr (), l @ [m])) k (PDict d) (Some msgs) = (Inr True, Some msgs')"
    and s: "ready s 1" and d: "d \<noteq> []"
  shows "msgs' = msgs @ [last msgs'] \<and>
    (\<exists>s'. moves E s (GroupMessage (last msgs')) s' \<and>
      frames s' = frames s @ [dict_setdefault ''stream'' (stream_value s) d] \<and>
      (\<forall>t\<in>set PROTOCOL_FRAME_TYPES. dict_get d ''type'' \<noteq> PStr t))"
proof -
  have t: "py_in_strings (dict_get d ''type'') PROTOCOL_FRAME_TYPES = Inr False"
    and m: "msgs' = msgs @ [signal_message k d]"
    using sent unfolding deliver_accept_iff by auto
  have "moves E s (GroupMessage (signal_message k d)) (settle (dispatch_group E (signal_message k d) s))"
    using s by (intro moves.hears by_deliver t) (auto simp: ready_def)
  moreover have "\<forall>x\<in>set PROTOCOL_FRAME_TYPES. dict_get d ''type'' \<noteq> PStr x"
    using t by auto
  ultimately show ?thesis
    using m signal_step [OF s d, of E k] by (metis last_snoc)
qed

definition sample_signal :: pydict where
  "sample_signal = [(''v'', PInt 1), (''type'', PStr ''chat.typing''), (''payload'', PDict [])]"

theorem signal_end_to_end_witness:
  "[signal_message ''chat:ws:1'' sample_signal] = [] @ [last [signal_message ''chat:ws:1'' sample_signal]] \<and>
    (\<exists>s'. moves sample_env sample_sock (GroupMessage (last [signal_message ''chat:ws:1'' sample_signal])) s' \<and>
      frames s' = frames sample_sock @ [dict_setdefault ''stream'' (stream_value sample_sock) sample_signal] \<and>
      (\<forall>t\<in>set PROTOCOL_FRAME_TYPES. dict_get sample_signal ''type'' \<noteq> PStr t))"
proof (rule signal_end_to_end [OF _ sample_ready])
  have "py_in_strings (dict_get sample_signal ''type'') PROTOCOL_FRAME_TYPES = Inr False" by code_simp
  then show "deliver sample_canon id (\<lambda>l g m. (Inr (), l @ [m])) ''chat:ws:1'' (PDict sample_signal) (Some []) =
      (Inr True, Some [signal_message ''chat:ws:1'' sample_signal])"
    unfolding deliver_accept_iff using sample_group by auto
qed (simp_all add: sample_signal_def)

definition kick_frame :: "sock \<Rightarrow> string \<Rightarrow> pydict" where
  "kick_frame s reason = frame KICK (Some [(''reason'', PStr reason)]) None (stream_key s)"

definition names_user :: "env \<Rightarrow> ident option \<Rightarrow> bool" where
  "names_user E uid \<longleftrightarrow>
     (case uid of None \<Rightarrow> True
      | Some u \<Rightarrow> ident_str u = (case socket_user_id E of None \<Rightarrow> ''None'' | Some v \<Rightarrow> ident_str v))"

lemma revoke_step:
  assumes s: "ready s 1" and reason: "reason \<noteq> []"
  shows "moves E s (GroupMessage (revoke_message k uid reason))
    (if names_user E uid then drain_then_close CLOSE_REVOKED (enqueue (kick_frame s reason) s) else s)"
proof -
  let ?msg = "revoke_message k uid reason"
  have m: "moves E s (GroupMessage ?msg) (settle (dispatch_group E ?msg s))"
    using s by (intro moves.hears by_revoke) (auto simp: ready_def)
  have target: "revoke_targets E (dict_get ?msg ''user_id'') \<longleftrightarrow> names_user E uid"
    by (cases uid) (auto simp: revoke_targets_def names_user_def)
  show ?thesis
  proof (cases "names_user E uid")
    case True
    have "kick_payload (PStr reason) = PDict [(''reason'', PStr reason)]"
      using reason by (simp add: kick_payload_def py_or_def)
    then have "realtime_revoke E ?msg s = (drain_then_close CLOSE_REVOKED (enqueue (kick_frame s reason) s), None)"
      using True target by (simp add: realtime_revoke_def send_plain kick_frame_def)
    with m True show ?thesis by (simp add: dispatch_group_def settle_def)
  next
    case False
    then have "settle (dispatch_group E ?msg s) = s"
      using target by (simp add: dispatch_group_def realtime_revoke_def settle_def)
    with m False show ?thesis by simp
  qed
qed

text \<open>A revoke reaches exactly its target: a ready socket whose user the message names (or any, when it
  names no one) queues the kick with the reason as its last frame, is closed to everything else, and after
  the drain sends 4410; every other socket is untouched.\<close>

theorem revoke_reaches_target:
  assumes s: "ready s 1" and reason: "reason \<noteq> []"
  shows "\<exists>s'. moves E s (GroupMessage (revoke_message k uid reason)) s' \<and>
    (if names_user E uid
     then frames s' = frames s @ [kick_frame s reason] \<and> closing s' \<and> phase s' = Draining 4410 \<and>
       moves E s' DrainOver (drained 4410 s') \<and> last (log (drained 4410 s')) = CloseSent 4410
     else s' = s)"
proof (cases "names_user E uid")
  case True
  let ?s' = "drain_then_close CLOSE_REVOKED (enqueue (kick_frame s reason) s)"
  have drain: "phase ?s' = Draining 4410" "closing ?s'"
    by (simp_all add: drain_then_close_def CLOSE_REVOKED_def)
  have "frames ?s' = frames s @ [kick_frame s reason]"
    using ready_frames [OF s] by (simp add: drain_then_close_def frames_def)
  with revoke_step [OF assms, of E k uid] True drain moves.drains [OF drain(1), of E] show ?thesis
    by (intro exI [of _ ?s']) (simp add: drained_def)
next
  case False
  with revoke_step [OF assms, of E k uid] show ?thesis by auto
qed

theorem revoke_reaches_target_witness:
  "\<exists>s'. moves sample_env sample_sock (GroupMessage (revoke_message ''chat:ws:1'' (Some (IdInt 7)) ''left'')) s' \<and>
    (if names_user sample_env (Some (IdInt 7))
     then frames s' = frames sample_sock @ [kick_frame sample_sock ''left''] \<and> closing s' \<and> phase s' = Draining 4410 \<and>
       moves sample_env s' DrainOver (drained 4410 s') \<and> last (log (drained 4410 s')) = CloseSent 4410
     else s' = sample_sock)"
  by (rule revoke_reaches_target [OF sample_ready]) simp_all

section \<open>Protocol errors and renewed authorization\<close>

text \<open>C27: A \<open>hello\<close> is authorized again: when the cached verdict has expired and the authorizer now
  refuses, the client gets an \<open>unauthorized\<close> error and no welcome, nothing is replayed, and the socket
  is on its way to 4403.\<close>

theorem hello_reauthorized:
  assumes s: "ready s 1" and hello: "parse_frame content = Inr fr" "ftype fr = HELLO"
    and key: "stream_key s = Some key" and expired: "\<not> pf_lt (Fin t) (authorized_until s)"
    and refused: "authorize E t key = Inr False"
  shows "\<exists>s'. moves E s (Receive t content) s' \<and>
    frames s' = frames s @ [error_frame ERROR_UNAUTHORIZED lost_rights_message (Some key)] \<and>
    closing s' \<and> phase s' = Draining 4403 \<and> authorized_until s' = Fin 0"
proof -
  let ?f = "error_frame ERROR_UNAUTHORIZED lost_rights_message (Some key)"
  let ?s1 = "s\<lparr>authorized_until := Fin 0\<rparr>"
  have "authorize_cached E False t s = (Inr False, ?s1)"
    using key expired refused by (simp add: authorize_cached_def)
  moreover have "enqueue ?f ?s1 = ?s1\<lparr>outbox := outbox s @ [?f]\<rparr>"
    using s by (simp add: ready_def enqueue_def)
  ultimately have "settle (receive_json E t content s) =
      drain_then_close CLOSE_FORBIDDEN (?s1\<lparr>outbox := outbox s @ [?f]\<rparr>)"
    using hello key by (simp add: receive_json_def frame_handlers_def send_error_def settle_def)
  moreover have "moves E s (Receive t content) (settle (receive_json E t content s))"
    using s by (intro moves.receives) (auto simp: ready_def)
  ultimately show ?thesis
    by (intro exI [of _ "settle (receive_json E t content s)"])
       (simp add: drain_then_close_def frames_def CLOSE_FORBIDDEN_def)
qed

definition hello_content :: pyval where
  "hello_content = PDict (frame HELLO None None None)"

lemma hello_content_parsed:
  "parse_frame hello_content = Inr \<lparr>ftype = HELLO, fpayload = [], fseq = None, fstream = None\<rparr>"
  by (simp add: hello_content_def parse_frame_def parse_payload_def parse_seq_def parse_stream_def wire_defs)

theorem hello_reauthorized_witness:
  "\<exists>s'. moves sample_env sample_sock (Receive 200 hello_content) s' \<and>
    frames s' = frames sample_sock @ [error_frame ERROR_UNAUTHORIZED lost_rights_message (Some ''chat:ws:1'')] \<and>
    closing s' \<and> phase s' = Draining 4403 \<and> authorized_until s' = Fin 0"
  by (rule hello_reauthorized [OF sample_ready hello_content_parsed])
     (simp_all add: sample_sock_def sample_env_def authorize_def)

text \<open>A module that forgot its hooks: the first \<open>hello\<close> ends the consumer with the hook's exception, and the
  client is told nothing.\<close>

lemma unimplemented_journal:
  assumes "phase s = AwaitSeq after"
  shows "moves E s (ServerSeq default_server_seq) (s\<lparr>phase := Dead (Some NotImplementedError)\<rparr>)"
  using moves.gets_seq [OF assms, of E default_server_seq]
  by (simp add: hello_server_seq_def default_server_seq_def settle_def)

lemma unimplemented_rows:
  assumes "phase s = AwaitRows after server"
  shows "moves E s (Rows (default_replay_rows after limit)) (s\<lparr>phase := Dead (Some NotImplementedError)\<rparr>)"
  using moves.gets_rows [OF assms, of E "default_replay_rows after limit"]
  by (simp add: hello_rows_def default_replay_rows_def settle_def)

end
