(* ===== verification/Writer.thy ===== *)
theory Writer
  imports SocketActions
begin

text \<open>
  The writer task of a socket as a loop: it takes the next queued frame, hands it to the server, and starts
  again; it waits on an empty queue. The loop is a recursive function with the pending work as its measure,
  and every iteration is one of the writer's moves. With it, what a queued frame becomes once the writer is
  given time: it is on the wire, in its place, and a socket that is draining sends its close after it.
\<close>

section \<open>The loop\<close>

text \<open>The frames the writer still holds, and what is left to do: to take a frame and to write it.\<close>

definition pending :: "sock \<Rightarrow> pydict list" where
  "pending s = (case inflight s of None \<Rightarrow> [] | Some f \<Rightarrow> [f]) @ outbox s"

definition work :: "sock \<Rightarrow> nat" where
  "work s = 2 * length (outbox s) + (case inflight s of None \<Rightarrow> 0 | Some f \<Rightarrow> 1)"

definition writer_turn :: "sock \<Rightarrow> sock" where
  "writer_turn s = (case inflight s of None \<Rightarrow> writer_take s | Some f \<Rightarrow> writer_sent s)"

lemma work_turn:
  assumes "writing s" "work s \<noteq> 0"
  shows "work (writer_turn s) + 1 = work s"
proof (cases "inflight s")
  case None
  then show ?thesis
    using assms by (cases "outbox s") (simp_all add: work_def writer_turn_def writer_take_def)
next
  case (Some f)
  then show ?thesis
    using assms by (simp add: work_def writer_turn_def writer_sent_def)
qed

function writer_loop :: "sock \<Rightarrow> sock" where
  "writer_loop s = (if writing s \<and> work s \<noteq> 0 then writer_loop (writer_turn s) else s)"
  by auto

termination
proof (relation "measure work")
  fix s assume "writing s \<and> work s \<noteq> 0"
  then show "(writer_turn s, s) \<in> measure work" using work_turn [of s] by simp
qed simp

declare writer_loop.simps [simp del]

lemma turn_writing: "writing (writer_turn s) = writing s"
  by (auto simp: writer_turn_def writer_take_def writer_sent_def split: option.splits list.splits)

lemma turn_pending:
  assumes "writing s" "work s \<noteq> 0"
  shows "log (writer_turn s) @ map Wire (pending (writer_turn s)) = log s @ map Wire (pending s)"
proof (cases "inflight s")
  case None
  then show ?thesis
    using assms by (cases "outbox s") (simp_all add: work_def pending_def writer_turn_def writer_take_def)
next
  case (Some f)
  then show ?thesis using assms by (simp add: pending_def writer_turn_def writer_sent_def)
qed

text \<open>What the turns of the writer leave alone.\<close>

lemma turn_keeps [simp]:
  "phase (writer_turn s) = phase s" "closing (writer_turn s) = closing s" "stream_key (writer_turn s) = stream_key s"
  "beat (writer_turn s) = beat s" "max_seq_sent (writer_turn s) = max_seq_sent s"
  by (auto simp: writer_turn_def writer_take_def writer_sent_def split: option.splits list.splits)

lemma loop_keeps [simp]:
  "phase (writer_loop s) = phase s" "closing (writer_loop s) = closing s" "stream_key (writer_loop s) = stream_key s"
  "beat (writer_loop s) = beat s" "max_seq_sent (writer_loop s) = max_seq_sent s"
  by (induction s rule: writer_loop.induct; subst writer_loop.simps; simp)+

text \<open>Where the loop comes to rest: nothing is pending, and every pending frame is on the wire in order.\<close>

lemma loop_result:
  assumes "writing s"
  shows "outbox (writer_loop s) = [] \<and> inflight (writer_loop s) = None \<and>
    log (writer_loop s) = log s @ map Wire (pending s)"
  using assms
proof (induction s rule: writer_loop.induct)
  case (1 s)
  show ?case
  proof (cases "work s = 0")
    case True
    then show ?thesis
      by (subst (1 2 3) writer_loop.simps) (auto simp: work_def pending_def split: option.splits)
  next
    case False
    with 1 turn_writing [of s] turn_pending [of s] show ?thesis
      by (subst (1 2 3) writer_loop.simps) simp
  qed
qed

section \<open>The loop as moves\<close>

inductive runs :: "env \<Rightarrow> sock \<Rightarrow> event list \<Rightarrow> sock \<Rightarrow> bool" for E where
  rest: "runs E s [] s"
| then_move: "moves E s ev s1 \<Longrightarrow> runs E s1 evs s' \<Longrightarrow> runs E s (ev # evs) s'"

lemma runs_append: "runs E s evs s1 \<Longrightarrow> runs E s1 evs' s' \<Longrightarrow> runs E s (evs @ evs') s'"
  by (induction rule: runs.induct) (auto intro: runs.intros)

lemma runs_single: "moves E s ev s' \<Longrightarrow> runs E s [ev] s'"
  by (rule runs.then_move [OF _ runs.rest])

lemma runs_reachable: "runs E s evs s' \<Longrightarrow> reachable E s \<Longrightarrow> reachable E s'"
  by (induction rule: runs.induct) (auto intro: reachable.step)

definition turn_event :: "sock \<Rightarrow> event" where
  "turn_event s = (case inflight s of None \<Rightarrow> WriterTakes | Some f \<Rightarrow> WriterWrites)"

lemma turn_moves: "moves E s (turn_event s) (writer_turn s)"
  by (auto simp: turn_event_def writer_turn_def intro: moves.takes moves.writes split: option.splits)

lemma loop_runs:
  assumes "writing s"
  shows "\<exists>evs. runs E s evs (writer_loop s) \<and> length evs = work s \<and> set evs \<subseteq> {WriterTakes, WriterWrites}"
  using assms
proof (induction s rule: writer_loop.induct)
  case (1 s)
  show ?case
  proof (cases "work s = 0")
    case True
    then have "writer_loop s = s" by (subst writer_loop.simps) simp
    with True show ?thesis by (intro exI [of _ "[]"]) (auto intro: runs.rest)
  next
    case False
    then have "writer_loop s = writer_loop (writer_turn s)"
      using 1(2) by (subst writer_loop.simps) simp
    moreover obtain evs where "runs E (writer_turn s) evs (writer_loop (writer_turn s))"
      "length evs = work (writer_turn s)" "set evs \<subseteq> {WriterTakes, WriterWrites}"
      using 1 False turn_writing [of s] by auto
    moreover have "turn_event s \<in> {WriterTakes, WriterWrites}"
      by (auto simp: turn_event_def split: option.splits)
    ultimately show ?thesis
      using turn_moves [of E s] work_turn [OF 1(2) False]
      by (intro exI [of _ "turn_event s # evs"]) (auto intro: runs.then_move)
  qed
qed

text \<open>A step of the writer that does something: a frame is taken, written, or lost to a failure that ends
  the task.\<close>

definition writer_acts :: "sock \<Rightarrow> sock \<Rightarrow> bool" where
  "writer_acts s s' \<longleftrightarrow> s' \<noteq> s \<and>
     (s' = writer_take s \<or> s' = writer_sent s \<or> inflight s \<noteq> None \<and> writing s \<and> s' = writer_failed s)"

lemma writer_acts_work: "writer_acts s s' \<Longrightarrow> work s' + 1 = work s"
  by (cases "outbox s"; cases "inflight s"; cases "writing s")
    (auto simp: writer_acts_def work_def writer_take_def writer_sent_def writer_failed_def)

text \<open>What each of them does to the log and to the frames the writer holds.\<close>

lemma acts_cases:
  assumes "writer_acts s s'"
  obtains (taken) "writing s" "writing s'" "log s' = log s" "pending s' = pending s" "pending s \<noteq> []"
    | (written) f where "writing s" "writing s'" "pending s = f # pending s'" "log s' = log s @ [Wire f]"
    | (failed) f where "writing s" "\<not> writing s'" "pending s = f # pending s'" "log s' = log s"
proof -
  consider "s' = writer_take s" "s' \<noteq> s" | "s' = writer_sent s" "s' \<noteq> s"
    | f where "inflight s = Some f" "writing s" "s' = writer_failed s"
    using assms by (auto simp: writer_acts_def)
  then show thesis
  proof cases
    case 1
    then show thesis
      by (intro taken) (auto simp: pending_def writer_take_def split: list.splits if_splits)
  next
    case 2
    then show thesis by (auto simp: pending_def writer_sent_def split: option.splits if_splits intro: written)
  next
    case (3 f)
    then show thesis by (intro failed) (simp_all add: pending_def writer_failed_def)
  qed
qed

lemma acts_alive: "writer_acts s s' \<Longrightarrow> writing s"
  by (erule acts_cases)

text \<open>After any number of them an initial segment of what was pending is written, in order; when the writer has
  failed, the frame after that segment is gone and the rest is still pending.\<close>

lemma acts_written:
  assumes "(writer_acts ^^ n) s s'" "writing s"
  shows "\<exists>k. log s' = log s @ map Wire (take k (pending s)) \<and>
    (if writing s' then k \<le> length (pending s) \<and> pending s' = drop k (pending s)
     else k < length (pending s) \<and> pending s' = drop (Suc k) (pending s))"
  using assms
proof (induction n arbitrary: s')
  case 0
  then show ?case by (auto intro: exI [of _ 0])
next
  case (Suc n)
  then obtain s1 where s1: "(writer_acts ^^ n) s s1" and act: "writer_acts s1 s'" by auto
  obtain k where k: "log s1 = log s @ map Wire (take k (pending s))" "pending s1 = drop k (pending s)"
    using Suc.IH [OF s1 Suc.prems(2)] acts_alive [OF act] by (auto split: if_splits)
  have next_frame: "k < length (pending s) \<and> take (Suc k) (pending s) = take k (pending s) @ [f] \<and>
      drop (Suc k) (pending s) = fs" if "pending s1 = f # fs" for f fs
  proof -
    have d: "drop k (pending s) = f # fs" using that k(2) by simp
    then have "k < length (pending s)" by (metis drop_eq_Nil2 leI list.distinct(1))
    with take_hd_drop [OF this] d show ?thesis by (simp add: drop_Suc drop_tl)
  qed
  from act show ?case
  proof (cases rule: acts_cases)
    case taken
    then have "k \<le> length (pending s)" using k(2) by (metis drop_eq_Nil2 nat_le_linear)
    with taken k show ?thesis by (intro exI [of _ k]) simp
  next
    case (written f)
    with k next_frame [OF written(3)] show ?thesis by (intro exI [of _ "Suc k"]) simp
  next
    case (failed f)
    with k next_frame [OF failed(3)] show ?thesis by (intro exI [of _ k]) simp
  qed
qed

text \<open>They can go on exactly while something is pending and the task is alive.\<close>

lemma writer_rests: "(\<exists>s'. writer_acts s s') \<longleftrightarrow> pending s \<noteq> [] \<and> writing s"
proof
  assume "pending s \<noteq> [] \<and> writing s"
  then have "writing s" "work s \<noteq> 0" by (auto simp: pending_def work_def split: option.splits list.splits)
  then have "work (writer_turn s) \<noteq> work s" using work_turn [of s] by simp
  then have "writer_acts s (writer_turn s)"
    by (auto simp: writer_acts_def writer_turn_def split: option.splits)
  then show "\<exists>s'. writer_acts s s'" by blast
qed (auto elim: acts_cases)

text \<open>Each of these steps is a move of the socket.\<close>

lemma acts_move:
  assumes "writer_acts s s'"
  shows "\<exists>ev\<in>{WriterTakes, WriterWrites, WriterFails}. moves E s ev s'"
  using assms moves.takes [of E s] moves.writes [of E s] moves.fails [of s E] by (auto simp: writer_acts_def)

section \<open>Properties\<close>

text \<open>C24: The writer terminates, and what it leaves is determined: however it takes frames, writes them or fails on
  one, between two additions to the queue it makes at most two effective steps for each frame it holds, and it
  can go on exactly while a frame is pending and the task is alive. After any number of these steps it has
  written the first of the pending frames, each once and in their order, and holds the others; if it failed, the
  frame it was writing is lost, no other one, and nothing more is written. So a writer that comes to rest alive has
  written them all.\<close>

theorem writer_terminates:
  assumes "(writer_acts ^^ n) s s'" and "writing s"
  shows "n \<le> 2 * length (pending s) \<and> ((\<exists>s''. writer_acts s' s'') \<longleftrightarrow> pending s' \<noteq> [] \<and> writing s') \<and>
    (\<exists>k. log s' = log s @ map Wire (take k (pending s)) \<and>
       (if writing s' then k \<le> length (pending s) \<and> pending s' = drop k (pending s)
        else k < length (pending s) \<and> pending s' = drop (Suc k) (pending s)))"
proof -
  have "n + work s' = work s"
    using assms(1) by (induction n arbitrary: s') (fastforce dest: writer_acts_work)+
  moreover have "work s \<le> 2 * length (pending s)"
    by (auto simp: work_def pending_def split: option.splits)
  ultimately show ?thesis using writer_rests acts_written [OF assms] by auto
qed

text \<open>A queued frame reaches the wire: from any state whose writer is alive, the writer's own moves, one
  for taking and one for writing each frame, lead to a state where nothing is queued or in flight and the log
  has been extended by exactly the pending frames, in their order.\<close>

theorem writer_delivers:
  assumes "writing s"
  shows "\<exists>evs s'. runs E s evs s' \<and> set evs \<subseteq> {WriterTakes, WriterWrites} \<and> length evs = work s \<and>
    outbox s' = [] \<and> inflight s' = None \<and> log s' = log s @ map Wire (pending s)"
  using loop_runs [OF assms, of E] loop_result [OF assms] by blast

definition busy_sock :: sock where
  "busy_sock = sample_sock\<lparr>outbox := [frame PONG None None (Some ''chat:ws:1'')],
     inflight := Some (frame PING None None (Some ''chat:ws:1''))\<rparr>"

text \<open>It writes the ping, takes the pong, and fails on it.\<close>

theorem writer_terminates_witness:
  "3 \<le> 2 * length (pending busy_sock) \<and>
    ((\<exists>s''. writer_acts (writer_failed (writer_take (writer_sent busy_sock))) s'') \<longleftrightarrow>
      pending (writer_failed (writer_take (writer_sent busy_sock))) \<noteq> [] \<and>
      writing (writer_failed (writer_take (writer_sent busy_sock)))) \<and>
    (\<exists>k. log (writer_failed (writer_take (writer_sent busy_sock))) = log busy_sock @ map Wire (take k (pending busy_sock)) \<and>
       (if writing (writer_failed (writer_take (writer_sent busy_sock)))
        then k \<le> length (pending busy_sock) \<and>
          pending (writer_failed (writer_take (writer_sent busy_sock))) = drop k (pending busy_sock)
        else k < length (pending busy_sock) \<and>
          pending (writer_failed (writer_take (writer_sent busy_sock))) = drop (Suc k) (pending busy_sock)))"
proof (rule writer_terminates)
  let ?s1 = "writer_sent busy_sock" and ?s2 = "writer_take (writer_sent busy_sock)"
  have "work ?s1 \<noteq> work busy_sock" "work ?s2 \<noteq> work ?s1" "work (writer_failed ?s2) \<noteq> work ?s2"
    "inflight ?s2 \<noteq> None" "writing ?s2"
    by (simp_all add: writer_sent_def writer_take_def writer_failed_def work_def busy_sock_def sample_sock_def)
  then have "writer_acts busy_sock ?s1" "writer_acts ?s1 ?s2" "writer_acts ?s2 (writer_failed ?s2)"
    by (auto simp: writer_acts_def)
  then show "(writer_acts ^^ 3) busy_sock (writer_failed ?s2)" by (auto simp: numeral_3_eq_3 relcompp.simps)
qed (simp add: busy_sock_def sample_sock_def)

theorem writer_delivers_witness:
  "\<exists>evs s'. runs sample_env busy_sock evs s' \<and> set evs \<subseteq> {WriterTakes, WriterWrites} \<and>
    length evs = work busy_sock \<and> outbox s' = [] \<and> inflight s' = None \<and>
    log s' = log busy_sock @ map Wire (pending busy_sock)"
  by (rule writer_delivers) (simp add: busy_sock_def sample_sock_def)

text \<open>C13: A revoked client is told why before it is closed: when a revoke reaches a ready socket of the user it
  names and the writer is given time, every frame that was pending, then the kick with the reason, is written
  before the close 4410, which is the last thing the socket sends.\<close>

theorem revoke_kick_on_wire:
  assumes s: "ready s 1" and reason: "reason \<noteq> []" and user: "names_user E uid" and alive: "writing s"
  shows "\<exists>evs s'. runs E s (GroupMessage (revoke_message k uid reason) # evs @ [DrainOver]) s' \<and>
    set evs \<subseteq> {WriterTakes, WriterWrites} \<and> closing s' \<and> phase s' = Idle \<and> pending s' = [] \<and>
    log s' = log s @ map Wire (pending s @ [kick_frame s reason]) @ [CloseSent 4410]"
proof -
  let ?s1 = "drain_then_close CLOSE_REVOKED (enqueue (kick_frame s reason) s)"
  have m: "moves E s (GroupMessage (revoke_message k uid reason)) ?s1"
    using revoke_step [OF s reason, of E k uid] user by simp
  have s1: "writing ?s1" "phase ?s1 = Draining 4410" "closing ?s1" "log ?s1 = log s"
    "pending ?s1 = pending s @ [kick_frame s reason]"
    using alive by (simp_all add: drain_then_close_def CLOSE_REVOKED_def ready_enqueue [OF s] pending_def)
  obtain evs where evs: "runs E ?s1 evs (writer_loop ?s1)" "set evs \<subseteq> {WriterTakes, WriterWrites}"
    using loop_runs [OF s1(1), of E] by blast
  have "moves E (writer_loop ?s1) DrainOver (drained 4410 (writer_loop ?s1))"
    by (rule moves.drains) (simp add: s1)
  with m evs have "runs E s (GroupMessage (revoke_message k uid reason) # evs @ [DrainOver])
      (drained 4410 (writer_loop ?s1))"
    by (blast intro: runs.then_move runs_append runs_single)
  moreover have "pending (drained 4410 (writer_loop ?s1)) = []"
    using loop_result [OF s1(1)] by (simp add: drained_def pending_def)
  moreover have "log (drained 4410 (writer_loop ?s1)) = log s @ map Wire (pending s @ [kick_frame s reason]) @ [CloseSent 4410]"
    using loop_result [OF s1(1)] unfolding s1 by (simp add: drained_def)
  moreover have "closing (drained 4410 (writer_loop ?s1))" "phase (drained 4410 (writer_loop ?s1)) = Idle"
    using s1(3) by (simp_all add: drained_def)
  ultimately show ?thesis using evs(2) by blast
qed

theorem revoke_kick_on_wire_witness:
  "\<exists>evs s'. runs sample_env sample_sock
      (GroupMessage (revoke_message ''chat:ws:1'' (Some (IdInt 7)) ''left'') # evs @ [DrainOver]) s' \<and>
    set evs \<subseteq> {WriterTakes, WriterWrites} \<and> closing s' \<and> phase s' = Idle \<and> pending s' = [] \<and>
    log s' = log sample_sock @ map Wire (pending sample_sock @ [kick_frame sample_sock ''left'']) @ [CloseSent 4410]"
proof (rule revoke_kick_on_wire [OF sample_ready])
  show "names_user sample_env (Some (IdInt 7))"
    by (simp add: names_user_def socket_user_id_def sample_env_def opt_or_def)
qed (simp_all add: sample_sock_def)

end
