(* ===== verification/Fleet.thy ===== *)
theory Fleet
  imports Writer
begin

text \<open>
  Many sockets behind one channel layer. The layer is Channels': its documented behaviour, used here, is that
  a message sent to a group is dispatched to every channel that was added to the group and not discarded from
  it, and to no other. With the send paths and the handlers this gives what the package promises of a stream:
  who hears a signal, and whom a revoke ends.
\<close>

type_synonym fleet = "(env \<times> sock) list"

text \<open>Membership, read off what the socket asked of the layer.\<close>

definition in_group :: "string \<Rightarrow> sock \<Rightarrow> bool" where
  "in_group g s \<longleftrightarrow> GroupAdd g \<in> set (log s) \<and> GroupDiscard g \<notin> set (log s)"

text \<open>A layer that records what was sent, and the dispatch of one message to its group.\<close>

definition recorder :: "(string \<times> pydict) list group_sender" where
  "recorder sends g msg = (Inr (), sends @ [(g, msg)])"

definition hear :: "string \<times> pydict \<Rightarrow> env \<times> sock \<Rightarrow> env \<times> sock" where
  "hear gm m = (case (gm, m) of ((g, msg), (E, s)) \<Rightarrow>
     (E, if in_group g s then settle (dispatch_group E msg s) else s))"

definition fan_out :: "(string \<times> pydict) list \<Rightarrow> fleet \<Rightarrow> fleet" where
  "fan_out sends fleet = foldl (\<lambda>fl gm. map (hear gm) fl) fleet sends"

text \<open>What one dispatch does to every socket of a fleet.\<close>

lemma hear_all:
  assumes "\<forall>(E, s)\<in>set fleet. P (E, s) (hear gm (E, s))"
  shows "list_all2 P fleet (map (hear gm) fleet)"
  using assms by (auto simp: list_all2_map2 list_all2_same)

lemma fan_out_single [simp]: "fan_out [gm] fleet = map (hear gm) fleet"
  by (simp add: fan_out_def)

section \<open>A socket is in its own group only\<close>

lemma small_groups:
  "small R s s' \<Longrightarrow> (GroupAdd h \<in> set (log s') \<longleftrightarrow> GroupAdd h \<in> set (log s)) \<and> sgroup s' = sgroup s"
  by (erule small.cases)
     (auto simp: enqueue_def writer_take_def writer_sent_def writer_failed_def split: list.splits option.splits)

lemma disconnect_groups: "GroupAdd h \<in> set (log (stop (disconnect E now ok s))) \<longleftrightarrow> GroupAdd h \<in> set (log s)"
  by (auto simp: disconnect_def stop_def Let_def split: option.splits)

lemma reachable_group: "reachable E s \<Longrightarrow> GroupAdd g \<in> set (log s) \<Longrightarrow> admitted E s \<and> sgroup s = Some g"
proof -
  assume r: "reachable E s" and g: "GroupAdd g \<in> set (log s)"
  have "(\<lambda>s. \<forall>h. GroupAdd h \<in> set (log s) \<longrightarrow> sgroup s = Some h) s \<and> (unopened s \<or> admitted E s)"
  proof (rule reachable_invariant [OF r])
    fix R s s' assume "\<forall>h. GroupAdd h \<in> set (log s) \<longrightarrow> sgroup s = Some h" "small R s s'"
    then show "\<forall>h. GroupAdd h \<in> set (log s') \<longrightarrow> sgroup s' = Some h" using small_groups by metis
  next
    fix s assume "opened E s"
    then obtain now family where "log s = [GroupAdd (the (sgroup s)), Accept,
        Presence (RecordConnect now (socket_user_id E) (channel_of E) family)]" "sgroup s \<noteq> None"
      by (auto simp: opened_def admitted_def)
    then show "\<forall>h. GroupAdd h \<in> set (log s) \<longrightarrow> sgroup s = Some h" by auto
  qed (auto simp: unopened_def disconnect_groups)
  with g show ?thesis by (auto simp: unopened_def)
qed

lemma group_of_member:
  assumes "reachable E s" "in_group g s"
  shows "\<exists>u key t. scope_user (scope_of E) = Some u \<and> is_authenticated u \<and> stream_key s = Some key \<and>
    authorize E t key = Inr True \<and> group_name (canon_of E) (sha_of E) key = Inr g"
  using reachable_group [OF assms(1), of g] assms(2) by (auto simp: in_group_def admitted_def)

text \<open>Two keys that are not confused: they are equal, or there are no dots, no collision of the folded names.\<close>

definition unambiguous :: "(string \<Rightarrow> string) \<Rightarrow> string \<Rightarrow> string \<Rightarrow> bool" where
  "unambiguous sha k k' \<longleftrightarrow> k = k' \<or>
     dot \<notin> set k \<and> dot \<notin> set k' \<and> dot \<notin> set (take 40 (sha k)) \<and> dot \<notin> set (take 40 (sha k')) \<and>
     \<not> fold_collision sha k k' \<and> \<not> digest_alias sha k k' \<and> \<not> digest_alias sha k' k"

lemma unambiguous_groups:
  "group_name build sha k = Inr g \<Longrightarrow> group_name build sha k' = Inr g \<Longrightarrow> unambiguous sha k k' \<Longrightarrow> k = k'"
  by (auto simp: unambiguous_def group_name_Inr fold_name_eq_iff)

section \<open>Properties\<close>

text \<open>C2: Only authorized people hear a stream: whatever is sent to the group of a stream key, every socket in
  that group belongs to an authenticated user for whom the authorizer said yes to that very key, as long as the
  socket's own key cannot be confused with it (no dot, no digest collision).\<close>

theorem only_authorized_hear:
  assumes "reachable E s" and "in_group g s" and "group_name (canon_of E) (sha_of E) k = Inr g"
    and "\<forall>key. stream_key s = Some key \<longrightarrow> unambiguous (sha_of E) key k"
  shows "stream_key s = Some k \<and>
    (\<exists>u t. scope_user (scope_of E) = Some u \<and> is_authenticated u \<and> authorize E t k = Inr True)"
  using group_of_member [OF assms(1,2)] unambiguous_groups assms(3,4) by metis

lemma sample_in_group: "in_group ''chat.ws.1'' sample_sock"
  by (simp add: in_group_def sample_sock_def)

theorem only_authorized_hear_witness:
  "stream_key sample_sock = Some ''chat:ws:1'' \<and>
    (\<exists>u t. scope_user (scope_of sample_env) = Some u \<and> is_authenticated u \<and>
       authorize sample_env t ''chat:ws:1'' = Inr True)"
proof (rule only_authorized_hear [OF sample_reachable sample_in_group])
  show "group_name (canon_of sample_env) (sha_of sample_env) ''chat:ws:1'' = Inr ''chat.ws.1''"
    using sample_group by (simp add: sample_env_def)
  show "\<forall>key. stream_key sample_sock = Some key \<longrightarrow> unambiguous (sha_of sample_env) key ''chat:ws:1''"
    by (simp add: sample_sock_def sample_env_def unambiguous_def fold_collision_def digest_alias_def
        MAX_GROUP_NAME_def py_defs)
qed

text \<open>C18: Fan-out, from the emitter to every socket: when \<open>deliver\<close> answers true, one message went to the
  stream's group, and its dispatch appends exactly the emitted frame (at most completed by the socket's stream)
  to every ready member's frames and leaves every other socket of the fleet as it is.\<close>

theorem signal_fan_out:
  assumes "deliver build sha recorder k (PDict d) (Some []) = (Inr True, Some sends)" and "d \<noteq> []"
    and "\<forall>(E, s)\<in>set fleet. ready s 1"
  shows "\<exists>g. group_name build sha k = Inr g \<and> sends = [(g, signal_message k d)] \<and>
    list_all2 (\<lambda>(E, s) (E', s'). E' = E \<and>
        (if in_group g s then frames s' = frames s @ [dict_setdefault ''stream'' (stream_value s) d] else s' = s))
      fleet (fan_out sends fleet)"
proof -
  obtain g where g: "group_name build sha k = Inr g" "sends = [(g, signal_message k d)]"
    using assms(1) unfolding deliver_accept_iff by (auto simp: recorder_def)
  have step: "frames (settle (dispatch_group E (signal_message k d) s)) =
      frames s @ [dict_setdefault ''stream'' (stream_value s) d]" if "ready s 1" for E s
    using signal_step [OF that assms(2)] by blast
  have "list_all2 (\<lambda>(E, s) (E', s'). E' = E \<and>
        (if in_group g s then frames s' = frames s @ [dict_setdefault ''stream'' (stream_value s) d] else s' = s))
      fleet (map (hear (g, signal_message k d)) fleet)"
    using assms(3) step by (intro hear_all) (fastforce simp: hear_def)
  with g show ?thesis by (intro exI [of _ g]) simp
qed

theorem signal_fan_out_witness:
  "\<exists>g. group_name sample_canon id ''chat:ws:1'' = Inr g \<and>
    [(''chat.ws.1'', signal_message ''chat:ws:1'' sample_signal)] = [(g, signal_message ''chat:ws:1'' sample_signal)] \<and>
    list_all2 (\<lambda>(E, s) (E', s'). E' = E \<and>
        (if in_group g s then frames s' = frames s @ [dict_setdefault ''stream'' (stream_value s) sample_signal]
         else s' = s))
      [(sample_env, sample_sock)]
      (fan_out [(''chat.ws.1'', signal_message ''chat:ws:1'' sample_signal)] [(sample_env, sample_sock)])"
proof (rule signal_fan_out)
  have "py_in_strings (dict_get sample_signal ''type'') PROTOCOL_FRAME_TYPES = Inr False" by code_simp
  then show "deliver sample_canon id recorder ''chat:ws:1'' (PDict sample_signal) (Some []) =
      (Inr True, Some [(''chat.ws.1'', signal_message ''chat:ws:1'' sample_signal)])"
    unfolding deliver_accept_iff using sample_group by (auto simp: recorder_def)
qed (simp_all add: sample_signal_def sample_ready)

text \<open>C17: A revoke ends exactly its target's sockets on that stream: after its dispatch to a fleet of ready
  sockets, each member of the stream's group whose user it names is closing, with the kick as its last frame and
  4410 as the code it is draining for; every other socket, of other users or other streams, is unchanged.\<close>

theorem revoke_fan_out:
  assumes "revoke build sha recorder k uid reason (Some []) = (Inr True, Some sends)" and "reason \<noteq> []"
    and "\<forall>(E, s)\<in>set fleet. ready s 1"
  shows "\<exists>g. group_name build sha k = Inr g \<and>
    list_all2 (\<lambda>(E, s) (E', s'). E' = E \<and>
        (if in_group g s \<and> names_user E uid
         then closing s' \<and> phase s' = Draining 4410 \<and> frames s' = frames s @ [kick_frame s reason] else s' = s))
      fleet (fan_out sends fleet)"
proof -
  obtain g where g: "group_name build sha k = Inr g" "sends = [(g, revoke_message k uid reason)]"
    using assms(1) by (auto simp: revoke_def map_verdict_iff do_group_send_True recorder_def)
  have step: "settle (dispatch_group E (revoke_message k uid reason) s) =
      (if names_user E uid then drain_then_close CLOSE_REVOKED (enqueue (kick_frame s reason) s) else s)"
    if "ready s 1" for E s
    using revoke_step [OF that assms(2), of E k uid] by (auto elim!: moves_hearE)
  have added: "frames (drain_then_close c (enqueue f s)) = frames s @ [f]" if "ready s 1" for c f s
    using ready_frames [OF that] by (simp add: drain_then_close_def frames_def)
  have ended: "closing (drain_then_close CLOSE_REVOKED s) \<and> phase (drain_then_close CLOSE_REVOKED s) = Draining 4410" for s
    by (simp add: drain_then_close_def CLOSE_REVOKED_def)
  have "list_all2 (\<lambda>(E, s) (E', s'). E' = E \<and>
        (if in_group g s \<and> names_user E uid
         then closing s' \<and> phase s' = Draining 4410 \<and> frames s' = frames s @ [kick_frame s reason] else s' = s))
      fleet (map (hear (g, revoke_message k uid reason)) fleet)"
    using assms(3) step added ended by (intro hear_all) (fastforce simp: hear_def)
  with g show ?thesis by (intro exI [of _ g]) simp
qed

theorem revoke_fan_out_witness:
  "\<exists>g. group_name sample_canon id ''chat:ws:1'' = Inr g \<and>
    list_all2 (\<lambda>(E, s) (E', s'). E' = E \<and>
        (if in_group g s \<and> names_user E (Some (IdInt 7))
         then closing s' \<and> phase s' = Draining 4410 \<and> frames s' = frames s @ [kick_frame s ''left''] else s' = s))
      [(sample_env, sample_sock)]
      (fan_out [(''chat.ws.1'', revoke_message ''chat:ws:1'' (Some (IdInt 7)) ''left'')] [(sample_env, sample_sock)])"
  by (rule revoke_fan_out)
     (simp_all add: sample_ready revoke_def map_verdict_iff do_group_send_True recorder_def sample_group)

end
