(* ===== verification/IsoTime.thy ===== *)
theory IsoTime
  imports PyBase
begin

text \<open>
  \<open>datetime.fromtimestamp(epoch, tz=utc).isoformat()\<close>: the instant is rounded half-even to a
  microsecond, split into a proleptic Gregorian date and a time of day, and printed; a year outside 1 to
  9999 is an exception.
\<close>

definition round_half_even :: "rat \<Rightarrow> int" where
  [py_defs]: "round_half_even q =
     (let f = \<lfloor>q\<rfloor>; d = q - of_int f
      in if d < 1 / 2 then f else if 1 / 2 < d then f + 1 else if even f then f else f + 1)"

text \<open>The date of a day number counted from 1970-01-01, by 400-year eras starting in March.\<close>

definition civil_from_days :: "int \<Rightarrow> int \<times> int \<times> int" where
  [py_defs]: "civil_from_days days =
     (let z = days + 719468;
          era = z div 146097;
          doe = z mod 146097;
          yoe = (doe - doe div 1460 + doe div 36524 - doe div 146096) div 365;
          doy = doe - (365 * yoe + yoe div 4 - yoe div 100);
          mp = (5 * doy + 2) div 153;
          d = doy - (153 * mp + 2) div 5 + 1;
          m = (if mp < 10 then mp + 3 else mp - 9)
      in (yoe + era * 400 + (if m \<le> 2 then 1 else 0), m, d))"

definition pad :: "nat \<Rightarrow> int \<Rightarrow> string" where
  [py_defs]: "pad w n = (let s = nat_str (nat n) in replicate (w - length s) (CHR ''0'') @ s)"

definition iso_utc :: "rat \<Rightarrow> string option" where
  [py_defs]: "iso_utc epoch =
     (let micros = round_half_even (epoch * 1000000);
          us = micros mod 1000000;
          secs = micros div 1000000;
          tod = secs mod 86400;
          (y, m, d) = civil_from_days (secs div 86400)
      in if y < 1 \<or> 9999 < y then None
         else Some (pad 4 y @ ''-'' @ pad 2 m @ ''-'' @ pad 2 d @ ''T'' @
                    pad 2 (tod div 3600) @ '':'' @ pad 2 (tod div 60 mod 60) @ '':'' @ pad 2 (tod mod 60) @
                    (if us = 0 then [] else ''.'' @ pad 6 us) @ ''+00:00''))"

text \<open>\<open>_iso\<close> on a float: zero and every instant \<open>datetime\<close> refuses answer \<open>None\<close>.\<close>

fun iso :: "pyfloat \<Rightarrow> string option" where
  "iso (Fin q) = (if q = 0 then None else iso_utc q)"
| "iso _ = None"

lemma iso_example: "iso (Fin 1757073600) = Some ''2025-09-05T12:00:00+00:00''"
  by code_simp

end
