(* ===== verification/Leases.thy ===== *)
theory Leases
  imports PyBase
begin

text \<open>
  The abstract contract of a lease registry: holders renew and release leases at given times, and a
  lease counts for as long as its last renewal is at most the time to live ago. The locale says what one
  renewal and one release do to what the registry shows of every holder; its lemma is that after any
  chronological history a holder is live exactly when its last event was a renewal that has not lapsed.
\<close>

datatype ('k, 'f) lease_event =
    Renew rat 'k 'f
  | Release rat 'k

fun event_time :: "('k, 'f) lease_event \<Rightarrow> rat" where
  "event_time (Renew t k f) = t"
| "event_time (Release t k) = t"

definition chronological :: "('k, 'f) lease_event list \<Rightarrow> bool" where
  "chronological evs \<longleftrightarrow> sorted (map event_time evs)"

text \<open>What is left of a lease at a time: nothing, once it has lapsed.\<close>

definition lapse :: "int \<Rightarrow> rat \<Rightarrow> (rat \<times> 'g) option \<Rightarrow> (rat \<times> 'g) option" where
  "lapse ttl now s =
     (case s of None \<Rightarrow> None | Some p \<Rightarrow> if now - fst p \<le> of_int ttl then Some p else None)"

text \<open>The specification: the last event of a holder decides.\<close>

fun heed :: "('f \<Rightarrow> 'g) \<Rightarrow> 'k \<Rightarrow> (rat \<times> 'g) option \<Rightarrow> ('k, 'f) lease_event \<Rightarrow> (rat \<times> 'g) option" where
  "heed tag k s (Renew t k' f) = (if k' = k then Some (t, tag f) else s)"
| "heed tag k s (Release t k') = (if k' = k then None else s)"

definition last_word :: "('f \<Rightarrow> 'g) \<Rightarrow> ('k, 'f) lease_event list \<Rightarrow> 'k \<Rightarrow> (rat \<times> 'g) option" where
  "last_word tag evs k = foldl (heed tag k) None evs"

text \<open>Running a history on an implementation.\<close>

fun apply_event :: "(rat \<Rightarrow> 'k \<Rightarrow> 'f \<Rightarrow> 'd \<Rightarrow> 'd) \<Rightarrow> (rat \<Rightarrow> 'k \<Rightarrow> 'd \<Rightarrow> 'd) \<Rightarrow>
    'd \<Rightarrow> ('k, 'f) lease_event \<Rightarrow> 'd" where
  "apply_event renew release d (Renew t k f) = renew t k f d"
| "apply_event renew release d (Release t k) = release t k d"

definition run_events :: "(rat \<Rightarrow> 'k \<Rightarrow> 'f \<Rightarrow> 'd \<Rightarrow> 'd) \<Rightarrow> (rat \<Rightarrow> 'k \<Rightarrow> 'd \<Rightarrow> 'd) \<Rightarrow>
    'd \<Rightarrow> ('k, 'f) lease_event list \<Rightarrow> 'd" where
  "run_events renew release start evs = foldl (apply_event renew release) start evs"

lemma lapse_simps [simp]:
  "lapse ttl now None = None"
  "lapse ttl now (Some p) = (if now - fst p \<le> of_int ttl then Some p else None)"
  by (simp_all add: lapse_def)

lemma lapse_lapse: "t \<le> t' \<Longrightarrow> lapse ttl t' (lapse ttl t s) = lapse ttl t' s"
  by (cases s) auto

lemma last_word_Nil [simp]: "last_word tag [] k = None"
  by (simp add: last_word_def)

lemma last_word_snoc [simp]: "last_word tag (evs @ [ev]) k = heed tag k (last_word tag evs k) ev"
  by (simp add: last_word_def)

lemma run_events_Nil [simp]: "run_events renew release start [] = start"
  by (simp add: run_events_def)

lemma run_events_snoc [simp]:
  "run_events renew release start (evs @ [ev]) =
     apply_event renew release (run_events renew release start evs) ev"
  by (simp add: run_events_def)

lemma chronological_snoc:
  "chronological (evs @ [ev]) \<longleftrightarrow> chronological evs \<and> (\<forall>e\<in>set evs. event_time e \<le> event_time ev)"
  by (auto simp: chronological_def sorted_append)

lemma last_word_renewed: "last_word tag evs k = Some (t, g) \<Longrightarrow> \<exists>f. Renew t k f \<in> set evs \<and> g = tag f"
proof (induction evs arbitrary: t g rule: rev_induct)
  case Nil
  then show ?case by simp
next
  case (snoc ev evs)
  then show ?case by (cases ev) (auto split: if_splits)
qed

section \<open>The contract\<close>

locale lease_registry =
  fixes renew :: "rat \<Rightarrow> 'k \<Rightarrow> 'f \<Rightarrow> 'd \<Rightarrow> 'd"
    and release :: "rat \<Rightarrow> 'k \<Rightarrow> 'd \<Rightarrow> 'd"
    and view :: "'d \<Rightarrow> 'k \<Rightarrow> (rat \<times> 'g) option"
    and valid :: "'d \<Rightarrow> bool"
    and start :: 'd
    and ttl :: int
    and tag :: "'f \<Rightarrow> 'g"
  assumes valid_start: "valid start"
    and view_start: "view start k = None"
    and valid_renew: "valid d \<Longrightarrow> valid (renew t k f d)"
    and valid_release: "valid d \<Longrightarrow> valid (release t k d)"
    and view_renew: "valid d \<Longrightarrow>
      view (renew t k f d) k' = (if k' = k then Some (t, tag f) else lapse ttl t (view d k'))"
    and view_release: "valid d \<Longrightarrow>
      view (release t k d) k' = (if k' = k then None else lapse ttl t (view d k'))"
begin

lemma valid_run: "valid (run_events renew release start evs)"
proof (induction evs rule: rev_induct)
  case Nil
  show ?case by (simp add: valid_start)
next
  case (snoc ev evs)
  then show ?case by (cases ev) (simp_all add: valid_renew valid_release)
qed

lemma view_run:
  assumes "chronological evs" and "\<forall>e\<in>set evs. event_time e \<le> t"
  shows "lapse ttl t (view (run_events renew release start evs) k) = lapse ttl t (last_word tag evs k)"
  using assms
proof (induction evs arbitrary: t rule: rev_induct)
  case Nil
  show ?case by (simp add: view_start)
next
  case (snoc ev evs)
  let ?d = "run_events renew release start evs"
  from snoc.prems have time: "event_time ev \<le> t" and chron: "chronological evs"
    and before: "\<forall>e\<in>set evs. event_time e \<le> t"
    by (auto simp: chronological_snoc)
  have older: "lapse ttl t (lapse ttl (event_time ev) (view ?d k)) = lapse ttl t (last_word tag evs k)"
    by (simp add: lapse_lapse [OF time] snoc.IH [OF chron before])
  show ?case
    using older valid_run [of evs] by (cases ev) (auto simp: view_renew view_release)
qed

text \<open>Whether a holder is live at a time no earlier than the history's last event.\<close>

lemma live_iff_last_word:
  assumes "chronological evs" and "\<forall>e\<in>set evs. event_time e \<le> t"
  shows "(\<exists>q g. view (run_events renew release start evs) k = Some (q, g) \<and> t - q \<le> of_int ttl \<and> P g) \<longleftrightarrow>
    (\<exists>q g. last_word tag evs k = Some (q, g) \<and> t - q \<le> of_int ttl \<and> P g)"
proof -
  have *: "(\<exists>q g. s = Some (q, g) \<and> t - q \<le> of_int ttl \<and> P g) \<longleftrightarrow>
      (\<exists>p. lapse ttl t s = Some p \<and> P (snd p))" for s :: "(rat \<times> 'g) option"
    by (cases s) auto
  show ?thesis
    unfolding * view_run [OF assms] by simp
qed

end

end
