(* ===== verification/Presence.thy ===== *)
theory Presence
  imports Conf IsoTime Leases "HOL-Library.List_Lexorder" "HOL-Library.Char_ord"
begin

text \<open>
  The presence registry, \<open>presence.py\<close>: a lease per socket in one document per user, kept in
  the fleet-shared cache. Documents are Python values, because a cache can return anything. The cache
  itself is the core's: its operations are the record \<open>cache_ops\<close>, each with the time at which it
  runs, and a parameter of every definition that reads or writes it; \<open>None\<close> for the store is a
  cache that cannot be opened. An operation that raises leaves the store as it was.
\<close>

type_synonym session_map = "(string \<times> pydict) list"

record 'c cache_ops =
  cget :: "rat \<Rightarrow> 'c \<Rightarrow> string \<Rightarrow> pyval res"
  cset :: "rat \<Rightarrow> 'c \<Rightarrow> string \<Rightarrow> pyval \<Rightarrow> int \<Rightarrow> 'c res"
  cget_many :: "rat \<Rightarrow> 'c \<Rightarrow> string list \<Rightarrow> pydict res"

record snapshot =
  live :: bool
  sessions :: nat
  last_seen :: "string option"

definition MAX_BATCH :: nat where
  "MAX_BATCH = 100"

definition OFFLINE :: snapshot where
  "OFFLINE = \<lparr>live = False, sessions = 0, last_seen = None\<rparr>"

text \<open>\<open>_ttl\<close>: an unreadable axis disables the registry.\<close>

definition presence_ttl :: "settings \<Rightarrow> int res" where
  "presence_ttl st =
     (case py_int (py_or (PRESENCE_TTL_S st) (PInt 0)) of
        Inr n \<Rightarrow> Inr n
      | Inl e \<Rightarrow> if e = TypeError \<or> e = ValueError then Inr 0 else Inl e)"

text \<open>
  \<open>_SAFE_ID\<close>: one to 128 characters of the class, and, because the pattern ends in a dollar
  sign, one newline more.
\<close>

definition safe_char :: "char \<Rightarrow> bool" where
  "safe_char c \<longleftrightarrow> is_alpha c \<or> is_digit c \<or> c \<in> set ''_.:@+-''"

definition safe_body :: "string \<Rightarrow> bool" where
  "safe_body s \<longleftrightarrow> 1 \<le> length s \<and> length s \<le> 128 \<and> list_all safe_char s"

definition safe_id :: "string \<Rightarrow> bool" where
  "safe_id s \<longleftrightarrow> safe_body s \<or> (s \<noteq> [] \<and> last s = CHR 0x0A \<and> safe_body (butlast s))"

definition key_prefix :: string where
  "key_prefix = ''stapel:realtime:presence:''"

definition cache_key :: "(string \<Rightarrow> string) \<Rightarrow> string \<Rightarrow> string" where
  "cache_key sha ident = key_prefix @ (if safe_id ident then ident else ''h.'' @ take 40 (sha ident))"

text \<open>\<open>_cache\<close>: what opening the fleet cache gives, or nothing when that raises.\<close>

definition open_cache :: "'c res \<Rightarrow> 'c option" where
  "open_cache opened = (case opened of Inl _ \<Rightarrow> None | Inr c \<Rightarrow> Some c)"

section \<open>Documents\<close>

text \<open>\<open>_sessions\<close>: the entries that are dictionaries, of a document that is one.\<close>

definition sessions_of :: "pyval \<Rightarrow> session_map" where
  "sessions_of doc =
     (case doc of
        PDict d \<Rightarrow>
          (case dict_get d ''sessions'' of
             PDict ss \<Rightarrow> List.map_filter (\<lambda>(sid, v). case v of PDict e \<Rightarrow> Some (sid, e) | _ \<Rightarrow> None) ss
           | _ \<Rightarrow> [])
      | _ \<Rightarrow> [])"

text \<open>\<open>float(entry.get("seen") or 0)\<close> and the lease test \<open>now - seen <= ttl\<close>.\<close>

definition seen_of :: "pydict \<Rightarrow> pyfloat res" where
  "seen_of e = py_float (py_or (dict_get e ''seen'') (PInt 0))"

definition fresh :: "rat \<Rightarrow> int \<Rightarrow> pyfloat \<Rightarrow> bool" where
  "fresh now ttl seen \<longleftrightarrow> pf_le_int (pf_sub (Fin now) seen) ttl"

fun prune :: "rat \<Rightarrow> int \<Rightarrow> session_map \<Rightarrow> session_map res" where
  "prune now ttl [] = Inr []"
| "prune now ttl ((sid, e) # ss) =
     rbind (seen_of e) (\<lambda>seen.
       rmap (\<lambda>r. if fresh now ttl seen then (sid, e) # r else r) (prune now ttl ss))"

definition family_matches :: "string option \<Rightarrow> pydict \<Rightarrow> bool" where
  "family_matches family e = (case family of None \<Rightarrow> True | Some f \<Rightarrow> dict_get e ''family'' = PStr f)"

definition last_seen_candidates :: "pyval \<Rightarrow> string option \<Rightarrow> pyfloat list \<Rightarrow> pyfloat list res" where
  "last_seen_candidates doc family seen =
     (case doc of
        PDict d \<Rightarrow>
          if family = None \<and> truthy (dict_get d ''last_seen'')
          then rmap (\<lambda>x. seen @ [x]) (py_float (dict_get d ''last_seen''))
          else Inr seen
      | _ \<Rightarrow> Inr seen)"

fun pf_maximum :: "pyfloat list \<Rightarrow> pyfloat option" where
  "pf_maximum [] = None"
| "pf_maximum (x # xs) = Some (foldl pf_max x xs)"

definition snapshot :: "pyval \<Rightarrow> string option \<Rightarrow> rat \<Rightarrow> int \<Rightarrow> snapshot res" where
  "snapshot doc family now ttl =
     (let matching = filter (family_matches family) (map snd (sessions_of doc))
      in rbind (rmapM seen_of matching) (\<lambda>seen.
         let alive = filter (fresh now ttl) seen
         in rmap (\<lambda>candidates.
              \<lparr>live = alive \<noteq> [],
               sessions = length alive,
               last_seen = (case pf_maximum candidates of None \<Rightarrow> None | Some m \<Rightarrow> iso m)\<rparr>)
            (last_seen_candidates doc family seen)))"

text \<open>The entry and the document a write stores; \<open>family or None\<close>.\<close>

definition entry :: "rat \<Rightarrow> string option \<Rightarrow> pydict" where
  "entry now family =
     [(''seen'', PFloat (Fin now)),
      (''family'', (case family of None \<Rightarrow> PNone | Some f \<Rightarrow> if f = [] then PNone else PStr f))]"

definition document :: "session_map \<Rightarrow> rat \<Rightarrow> pyval" where
  "document ss now =
     PDict [(''sessions'', PDict (map (\<lambda>(sid, e). (sid, PDict e)) ss)), (''last_seen'', PFloat (Fin now))]"

section \<open>Writes\<close>

text \<open>The body of \<open>_touch\<close> on the document read, and of \<open>record_disconnect\<close> on a
  document that is a dictionary.\<close>

definition touch_doc :: "rat \<Rightarrow> int \<Rightarrow> string \<Rightarrow> string option \<Rightarrow> pyval \<Rightarrow> pyval res" where
  "touch_doc now ttl sid family doc =
     rmap (\<lambda>ss. document (dict_set sid (entry now family) ss) now) (prune now ttl (sessions_of doc))"

definition drop_doc :: "rat \<Rightarrow> int \<Rightarrow> string \<Rightarrow> pyval \<Rightarrow> pyval res" where
  "drop_doc now ttl sid doc =
     rmap (\<lambda>ss. document ss now) (prune now ttl (dict_pop sid (sessions_of doc)))"

definition written :: "'c option \<Rightarrow> 'c res \<Rightarrow> bool res \<times> 'c option" where
  "written store r = (case r of Inl _ \<Rightarrow> (Inr False, store) | Inr c \<Rightarrow> (Inr True, Some c))"

definition touch :: "'c cache_ops \<Rightarrow> settings \<Rightarrow> (string \<Rightarrow> string) \<Rightarrow> rat \<Rightarrow>
    ident option \<Rightarrow> string \<Rightarrow> string option \<Rightarrow> 'c option \<Rightarrow> bool res \<times> 'c option" where
  "touch ops st sha now uid sid family store =
     (case presence_ttl st of
        Inl e \<Rightarrow> (Inl e, store)
      | Inr ttl \<Rightarrow>
          (case (uid, store) of
             (Some u, Some c) \<Rightarrow>
               if ttl \<le> 0 \<or> sid = [] then (Inr False, store)
               else let key = cache_key sha (ident_str u)
                 in written store (rbind (cget ops now c key) (\<lambda>doc.
                      rbind (touch_doc now ttl sid family doc) (\<lambda>doc'. cset ops now c key doc' ttl)))
           | _ \<Rightarrow> (Inr False, store)))"

definition record_connect :: "'c cache_ops \<Rightarrow> settings \<Rightarrow> (string \<Rightarrow> string) \<Rightarrow> rat \<Rightarrow>
    ident option \<Rightarrow> string \<Rightarrow> string option \<Rightarrow> 'c option \<Rightarrow> bool res \<times> 'c option" where
  "record_connect = touch"

definition record_heartbeat :: "'c cache_ops \<Rightarrow> settings \<Rightarrow> (string \<Rightarrow> string) \<Rightarrow> rat \<Rightarrow>
    ident option \<Rightarrow> string \<Rightarrow> string option \<Rightarrow> 'c option \<Rightarrow> bool res \<times> 'c option" where
  "record_heartbeat = touch"

definition record_disconnect :: "'c cache_ops \<Rightarrow> settings \<Rightarrow> (string \<Rightarrow> string) \<Rightarrow> rat \<Rightarrow>
    ident option \<Rightarrow> string \<Rightarrow> 'c option \<Rightarrow> bool res \<times> 'c option" where
  "record_disconnect ops st sha now uid sid store =
     (case presence_ttl st of
        Inl e \<Rightarrow> (Inl e, store)
      | Inr ttl \<Rightarrow>
          (case (uid, store) of
             (Some u, Some c) \<Rightarrow>
               if ttl \<le> 0 \<or> sid = [] then (Inr False, store)
               else let key = cache_key sha (ident_str u)
                 in (case cget ops now c key of
                       Inl _ \<Rightarrow> (Inr False, store)
                     | Inr (PDict d) \<Rightarrow>
                         written store (rbind (drop_doc now ttl sid (PDict d)) (\<lambda>doc'.
                           cset ops now c key doc' ttl))
                     | Inr _ \<Rightarrow> (Inr False, store))
           | _ \<Rightarrow> (Inr False, store)))"

section \<open>Reads\<close>

definition is_live :: "'c cache_ops \<Rightarrow> settings \<Rightarrow> (string \<Rightarrow> string) \<Rightarrow> rat \<Rightarrow>
    ident option \<Rightarrow> string option \<Rightarrow> 'c option \<Rightarrow> snapshot res" where
  "is_live ops st sha now uid family store =
     (case presence_ttl st of
        Inl e \<Rightarrow> Inl e
      | Inr ttl \<Rightarrow>
          (case (uid, store) of
             (Some u, Some c) \<Rightarrow>
               if ttl \<le> 0 then Inr OFFLINE
               else (case cget ops now c (cache_key sha (ident_str u)) of
                       Inl _ \<Rightarrow> Inr OFFLINE
                     | Inr doc \<Rightarrow> snapshot doc family now ttl)
           | _ \<Rightarrow> Inr OFFLINE))"

definition live_batch :: "'c cache_ops \<Rightarrow> settings \<Rightarrow> (string \<Rightarrow> string) \<Rightarrow> rat \<Rightarrow>
    ident option list \<Rightarrow> string option \<Rightarrow> 'c option \<Rightarrow> (string \<times> snapshot) list res" where
  "live_batch ops st sha now user_ids family store =
     (let ids = map ident_str (List.map_filter id user_ids)
      in if MAX_BATCH < length ids then Inl ValueError
         else rbind (presence_ttl st) (\<lambda>ttl.
           if ids = [] then Inr []
           else (case store of
             None \<Rightarrow> Inr (dict_of_keys (\<lambda>_. OFFLINE) ids)
           | Some c \<Rightarrow>
               if ttl \<le> 0 then Inr (dict_of_keys (\<lambda>_. OFFLINE) ids)
               else let keys = dict_of_keys (cache_key sha) ids
                 in (case cget_many ops now c (sort (remdups (map snd keys))) of
                       Inl _ \<Rightarrow> Inr (dict_of_keys (\<lambda>_. OFFLINE) ids)
                     | Inr docs \<Rightarrow>
                         rmapM (\<lambda>(i, key). rmap (Pair i) (snapshot (dict_get docs key) family now ttl)) keys))))"

section \<open>Well-formed documents\<close>

text \<open>What the registry itself stores: distinct sessions, each with a finite time.\<close>

definition wf_sessions :: "session_map \<Rightarrow> bool" where
  "wf_sessions ss \<longleftrightarrow>
     distinct (map fst ss) \<and> (\<forall>p\<in>set ss. \<exists>q. seen_of (snd p) = Inr (Fin q))"

definition wf_doc :: "pyval \<Rightarrow> bool" where
  "wf_doc doc \<longleftrightarrow> doc = PNone \<or> (\<exists>ss now. doc = document ss now \<and> wf_sessions ss)"

text \<open>When a session was last seen, and its family.\<close>

definition seen_time :: "pydict \<Rightarrow> rat" where
  "seen_time e = (case seen_of e of Inr (Fin q) \<Rightarrow> q | _ \<Rightarrow> 0)"

definition family_of :: "pydict \<Rightarrow> string option" where
  "family_of e = (case dict_get e ''family'' of PStr f \<Rightarrow> Some f | _ \<Rightarrow> None)"

definition norm_family :: "string option \<Rightarrow> string option" where
  "norm_family f = (if f = Some [] then None else f)"

definition session_view :: "session_map \<Rightarrow> string \<Rightarrow> (rat \<times> string option) option" where
  "session_view ss sid = map_option (\<lambda>e. (seen_time e, family_of e)) (map_of ss sid)"

lemma sessions_of_document [simp]: "sessions_of (document ss now) = ss"
proof -
  have "List.map_filter (\<lambda>(sid, v). case v of PDict e \<Rightarrow> Some (sid, e) | _ \<Rightarrow> None)
      (map (\<lambda>(sid, e). (sid, PDict e)) ss) = ss"
    by (induction ss) (auto simp: List.map_filter_simps)
  then show ?thesis by (simp add: sessions_of_def document_def dict_get_def)
qed

lemma sessions_of_PNone [simp]: "sessions_of PNone = []"
  by (simp add: sessions_of_def)

lemma wf_sessions_Nil [simp]: "wf_sessions []"
  by (simp add: wf_sessions_def)

lemma wf_docI [intro]: "wf_sessions ss \<Longrightarrow> wf_doc (document ss now)"
  by (auto simp: wf_doc_def)

lemma wf_doc_sessions: "wf_doc doc \<Longrightarrow> wf_sessions (sessions_of doc)"
  by (auto simp: wf_doc_def)

lemma entry_seen [simp]:
  "seen_of (entry now f) = Inr (Fin now)"
  "seen_time (entry now f) = now"
  by (cases "now = 0"; simp add: seen_time_def seen_of_def entry_def py_or_def float_limit_def)+

lemma entry_family [simp]: "family_of (entry now f) = norm_family f"
  by (auto simp: family_of_def entry_def norm_family_def split: option.splits)

lemma family_matches_iff: "family_matches fam e \<longleftrightarrow> fam = None \<or> family_of e = fam"
  by (auto simp: family_matches_def family_of_def split: option.splits pyval.splits)

lemma wf_seen: "wf_sessions ss \<Longrightarrow> (sid, e) \<in> set ss \<Longrightarrow> seen_of e = Inr (Fin (seen_time e))"
  by (fastforce simp: wf_sessions_def seen_time_def)

lemma fresh_Fin [simp]: "fresh now ttl (Fin q) \<longleftrightarrow> now - q \<le> of_int ttl"
  by (simp add: fresh_def pf_sub_def)

lemma prune_wf:
  "wf_sessions ss \<Longrightarrow>
     prune now ttl ss = Inr (filter (\<lambda>(sid, e). now - seen_time e \<le> of_int ttl) ss)"
proof (induction ss)
  case Nil
  then show ?case by simp
next
  case (Cons p ss)
  then have "wf_sessions ss" by (simp add: wf_sessions_def)
  with Cons wf_seen [of "p # ss" "fst p" "snd p"] show ?case by (cases p) simp
qed

lemma wf_sessions_filter: "wf_sessions ss \<Longrightarrow> wf_sessions (filter P ss)"
  by (auto simp: wf_sessions_def intro: distinct_map_fst_filter)

lemma wf_sessions_pop: "wf_sessions ss \<Longrightarrow> wf_sessions (dict_pop sid ss)"
  by (auto simp: wf_sessions_def set_dict_pop)

lemma wf_sessions_set: "wf_sessions ss \<Longrightarrow> wf_sessions (dict_set sid (entry now f) ss)"
  by (auto simp: wf_sessions_def intro: distinct_dict_set dest!: set_dict_set [THEN subsetD])

text \<open>What a disconnect leaves of the stored document: a value that is not a dictionary is not
  rewritten.\<close>

definition release_doc :: "rat \<Rightarrow> int \<Rightarrow> string \<Rightarrow> pyval \<Rightarrow> pyval res" where
  "release_doc now ttl sid doc = (case doc of PDict d \<Rightarrow> drop_doc now ttl sid (PDict d) | _ \<Rightarrow> Inr doc)"

lemma document_dict: "\<exists>d. document ss now = PDict d"
  by (simp add: document_def)

lemma touch_doc_wf:
  assumes "wf_doc doc"
  shows "\<exists>ss. touch_doc now ttl sid f doc = Inr (document ss now) \<and> wf_sessions ss \<and>
    ss = dict_set sid (entry now f)
      (filter (\<lambda>(sid, e). now - seen_time e \<le> of_int ttl) (sessions_of doc))"
  using wf_doc_sessions [OF assms]
  by (simp add: touch_doc_def prune_wf wf_sessions_set wf_sessions_filter)

lemma release_doc_wf:
  assumes "wf_doc doc"
  shows "\<exists>doc'. release_doc now ttl sid doc = Inr doc' \<and> wf_doc doc' \<and>
    sessions_of doc' = filter (\<lambda>(sid, e). now - seen_time e \<le> of_int ttl) (dict_pop sid (sessions_of doc))"
proof (cases "doc = PNone")
  case True
  then show ?thesis by (simp add: release_doc_def wf_doc_def dict_pop_def)
next
  case False
  with assms obtain ss n where doc: "doc = document ss n" and wf: "wf_sessions ss"
    by (auto simp: wf_doc_def)
  have "release_doc now ttl sid doc = drop_doc now ttl sid doc"
    using document_dict [of ss n] doc by (auto simp: release_doc_def)
  with doc wf show ?thesis
    by (auto simp: drop_doc_def prune_wf wf_sessions_pop wf_sessions_filter)
qed

lemma session_view_filter:
  assumes "wf_sessions ss"
  shows "session_view (filter (\<lambda>(sid, e). now - seen_time e \<le> of_int ttl) ss) sid =
    lapse ttl now (session_view ss sid)"
proof -
  have "distinct (map fst ss)" using assms by (simp add: wf_sessions_def)
  from map_of_filter_distinct [OF this, of "\<lambda>_ e. now - seen_time e \<le> of_int ttl" sid]
  show ?thesis by (cases "map_of ss sid") (simp_all add: session_view_def)
qed

lemma session_view_set [simp]:
  "session_view (dict_set sid (entry now f) ss) sid' =
     (if sid' = sid then Some (now, norm_family f) else session_view ss sid')"
  by (simp add: session_view_def)

lemma session_view_pop [simp]:
  "session_view (dict_pop sid ss) sid' = (if sid' = sid then None else session_view ss sid')"
  by (simp add: session_view_def)

section \<open>The registry keeps the lease contract\<close>

definition renew_res :: "int \<Rightarrow> rat \<Rightarrow> string \<Rightarrow> string option \<Rightarrow> pyval res \<Rightarrow> pyval res" where
  "renew_res ttl now sid f r = rbind r (touch_doc now ttl sid f)"

definition release_res :: "int \<Rightarrow> rat \<Rightarrow> string \<Rightarrow> pyval res \<Rightarrow> pyval res" where
  "release_res ttl now sid r = rbind r (release_doc now ttl sid)"

definition doc_view :: "pyval res \<Rightarrow> string \<Rightarrow> (rat \<times> string option) option" where
  "doc_view r sid = (case r of Inl _ \<Rightarrow> None | Inr doc \<Rightarrow> session_view (sessions_of doc) sid)"

definition doc_valid :: "pyval res \<Rightarrow> bool" where
  "doc_valid r \<longleftrightarrow> (\<exists>doc. r = Inr doc \<and> wf_doc doc)"

lemma doc_valid_renew:
  assumes "doc_valid r"
  shows "doc_valid (renew_res ttl now sid f r) \<and>
    doc_view (renew_res ttl now sid f r) sid' =
      (if sid' = sid then Some (now, norm_family f) else lapse ttl now (doc_view r sid'))"
proof -
  from assms obtain doc where r: "r = Inr doc" and wf: "wf_doc doc" by (auto simp: doc_valid_def)
  then show ?thesis
    using touch_doc_wf [OF wf, of now ttl sid f] session_view_filter [OF wf_doc_sessions [OF wf]]
    by (auto simp: renew_res_def doc_valid_def doc_view_def)
qed

lemma doc_valid_release:
  assumes "doc_valid r"
  shows "doc_valid (release_res ttl now sid r) \<and>
    doc_view (release_res ttl now sid r) sid' =
      (if sid' = sid then None else lapse ttl now (doc_view r sid'))"
proof -
  from assms obtain doc where r: "r = Inr doc" and wf: "wf_doc doc" by (auto simp: doc_valid_def)
  then show ?thesis
    using release_doc_wf [OF wf, of now ttl sid]
      session_view_filter [OF wf_sessions_pop [OF wf_doc_sessions [OF wf]]]
    by (auto simp: release_res_def doc_valid_def doc_view_def)
qed

interpretation registry: lease_registry
  "renew_res ttl" "release_res ttl" doc_view doc_valid "Inr PNone" ttl norm_family
  for ttl
  by unfold_locales
     (use doc_valid_renew doc_valid_release in
       \<open>auto simp: doc_valid_def [of "Inr PNone"] wf_doc_def [of PNone] doc_view_def [of "Inr PNone"]
          session_view_def [of "[]"]\<close>)


section \<open>What the oracle answers\<close>

text \<open>The sessions of a map that count for a family at a time.\<close>

definition counted :: "session_map \<Rightarrow> string option \<Rightarrow> rat \<Rightarrow> int \<Rightarrow> string set" where
  "counted ss family now ttl =
     {sid. \<exists>q g. session_view ss sid = Some (q, g) \<and> now - q \<le> of_int ttl \<and> (family = None \<or> g = family)}"

lemma distinct_map_fst_card: "distinct (map fst d) \<Longrightarrow> card (fst ` set d) = length d"
  by (metis distinct_card length_map list.set_map)

lemma counted_filter:
  assumes "wf_sessions ss"
  shows "counted ss family now ttl =
    fst ` set (filter (\<lambda>(sid, e). family_matches family e \<and> now - seen_time e \<le> of_int ttl) ss)"
proof -
  have d: "distinct (map fst ss)" using assms by (simp add: wf_sessions_def)
  have "sid \<in> counted ss family now ttl \<longleftrightarrow>
      (\<exists>e. (sid, e) \<in> set ss \<and> family_matches family e \<and> now - seen_time e \<le> of_int ttl)" for sid
    by (auto simp: counted_def session_view_def map_of_eq_Some_iff [OF d] family_matches_iff)
  then show ?thesis by (force simp: image_iff)
qed

lemma counted_card:
  assumes "wf_sessions ss"
  shows "card (counted ss family now ttl) =
    length (filter (fresh now ttl) (map (Fin \<circ> seen_time) (filter (family_matches family) (map snd ss))))"
proof -
  have "distinct (map fst ss)" using assms by (simp add: wf_sessions_def)
  then have "card (counted ss family now ttl) =
      length (filter (\<lambda>(sid, e). family_matches family e \<and> now - seen_time e \<le> of_int ttl) ss)"
    unfolding counted_filter [OF assms] by (intro distinct_map_fst_card distinct_map_fst_filter)
  also have "\<dots> = length (filter (fresh now ttl)
      (map (Fin \<circ> seen_time) (filter (family_matches family) (map snd ss))))"
    by (induction ss) auto
  finally show ?thesis .
qed

lemma snapshot_wf:
  assumes "wf_doc doc"
  shows "\<exists>s. snapshot doc family now ttl = Inr s \<and>
    sessions s = card (counted (sessions_of doc) family now ttl) \<and> (live s \<longleftrightarrow> sessions s \<noteq> 0)"
proof -
  let ?ss = "sessions_of doc"
  let ?m = "filter (family_matches family) (map snd ?ss)"
  have wf: "wf_sessions ?ss" by (rule wf_doc_sessions [OF assms])
  have seen: "rmapM seen_of ?m = Inr (map (Fin \<circ> seen_time) ?m)"
    by (rule rmapM_Inr) (use wf_seen [OF wf] in auto)
  have "\<exists>cs. last_seen_candidates doc family xs = Inr cs" for xs
    using assms by (auto simp: wf_doc_def last_seen_candidates_def document_def)
  then obtain cs where
    cs: "last_seen_candidates doc family (map (Fin \<circ> seen_time) ?m) = Inr cs" by blast
  have count: "\<exists>s. Inr \<lparr>live = al \<noteq> [], sessions = length al, last_seen = x\<rparr> = (Inr s :: snapshot res) \<and>
      sessions s = length al \<and> (live s \<longleftrightarrow> sessions s \<noteq> 0)" for al :: "pyfloat list" and x
    by simp
  show ?thesis
    unfolding snapshot_def Let_def seen rbind_simps cs rmap_simps counted_card [OF wf]
    by (rule count)
qed

section \<open>The cache contract\<close>

text \<open>
  What the documentation of the cache promises of a working one: a write succeeds, a written value is
  read back for the time to live, afterwards it or nothing is, and the other keys are untouched.
\<close>

definition working_cache :: "'c cache_ops \<Rightarrow> bool" where
  "working_cache ops \<longleftrightarrow>
     (\<forall>t c k v n. \<exists>c'. cset ops t c k v n = Inr c' \<and>
        (\<forall>t'\<ge>t. cget ops t' c' k = Inr v \<or> (of_int n < t' - t \<and> cget ops t' c' k = Inr PNone)) \<and>
        (\<forall>t' k'. k' \<noteq> k \<longrightarrow> cget ops t' c' k' = cget ops t' c k'))"

definition batch_agrees :: "'c cache_ops \<Rightarrow> bool" where
  "batch_agrees ops \<longleftrightarrow>
     (\<forall>t c ks. \<exists>docs. cget_many ops t c ks = Inr docs \<and>
        (\<forall>k\<in>set ks. cget ops t c k = Inr (dict_get docs k)))"

definition empty_store :: "'c cache_ops \<Rightarrow> 'c \<Rightarrow> bool" where
  "empty_store ops c \<longleftrightarrow> (\<forall>t k. cget ops t c k = Inr PNone)"

text \<open>A cache that keeps the contract: a map from keys to values with an expiry.\<close>

type_synonym ttl_map = "(string \<times> (rat \<times> pyval)) list"

definition ttl_get :: "rat \<Rightarrow> ttl_map \<Rightarrow> string \<Rightarrow> pyval" where
  "ttl_get t c k = (case map_of c k of None \<Rightarrow> PNone | Some (x, v) \<Rightarrow> if t \<le> x then v else PNone)"

definition sample_cache :: "ttl_map cache_ops" where
  "sample_cache =
     \<lparr>cget = (\<lambda>t c k. Inr (ttl_get t c k)),
      cset = (\<lambda>t c k v n. Inr ((k, (t + of_int n, v)) # c)),
      cget_many = (\<lambda>t c ks. Inr (map (\<lambda>k. (k, ttl_get t c k)) ks))\<rparr>"

lemma sample_cache_works:
  "working_cache sample_cache" "batch_agrees sample_cache" "empty_store sample_cache []"
proof -
  have m: "dict_get (map (\<lambda>k. (k, f k)) ks) k = (if k \<in> set ks then f k else PNone)" for f ks k
    by (induction ks) auto
  show "working_cache sample_cache" "batch_agrees sample_cache" "empty_store sample_cache []"
    by (auto simp: working_cache_def batch_agrees_def empty_store_def sample_cache_def ttl_get_def m)
qed

section \<open>Histories of the store\<close>

text \<open>One call of the registry on the store: a holder is a user and a session.\<close>

fun store_step :: "'c cache_ops \<Rightarrow> settings \<Rightarrow> (string \<Rightarrow> string) \<Rightarrow> 'c option \<Rightarrow>
    (ident \<times> string, string option) lease_event \<Rightarrow> 'c option" where
  "store_step ops st sha store (Renew t (u, sid) f) = snd (touch ops st sha t (Some u) sid f store)"
| "store_step ops st sha store (Release t (u, sid)) = snd (record_disconnect ops st sha t (Some u) sid store)"

definition run_store :: "'c cache_ops \<Rightarrow> settings \<Rightarrow> (string \<Rightarrow> string) \<Rightarrow> 'c option \<Rightarrow>
    (ident \<times> string, string option) lease_event list \<Rightarrow> 'c option" where
  "run_store ops st sha store evs = foldl (store_step ops st sha) store evs"

fun holder :: "('k, 'f) lease_event \<Rightarrow> 'k" where
  "holder (Renew t k f) = k"
| "holder (Release t k) = k"

text \<open>The calls of a history name a session, and distinct users have distinct cache keys.\<close>

definition proper_history :: "(string \<Rightarrow> string) \<Rightarrow> ident set \<Rightarrow>
    (ident \<times> string, string option) lease_event list \<Rightarrow> bool" where
  "proper_history sha us evs \<longleftrightarrow> chronological evs \<and>
     (\<forall>e\<in>set evs. fst (holder e) \<in> us \<and> snd (holder e) \<noteq> []) \<and>
     inj_on (\<lambda>u. cache_key sha (ident_str u)) us"


section \<open>The store follows the history\<close>

text \<open>What a read of a user's key shows at a time: a well-formed document that agrees, up to lapsed
  leases, with a specification of the user's sessions.\<close>

definition displays :: "'c cache_ops \<Rightarrow> int \<Rightarrow> rat \<Rightarrow> 'c \<Rightarrow> string \<Rightarrow>
    (string \<Rightarrow> (rat \<times> string option) option) \<Rightarrow> bool" where
  "displays ops ttl t c key spec \<longleftrightarrow>
     (\<exists>doc. cget ops t c key = Inr doc \<and> wf_doc doc \<and>
        (\<forall>sid. lapse ttl t (session_view (sessions_of doc) sid) = lapse ttl t (spec sid)))"

text \<open>A specification all of whose leases date from before a time.\<close>

definition dated :: "rat \<Rightarrow> (string \<Rightarrow> (rat \<times> string option) option) \<Rightarrow> bool" where
  "dated t spec \<longleftrightarrow> (\<forall>sid q g. spec sid = Some (q, g) \<longrightarrow> q \<le> t)"

lemma displays_written:
  assumes cache: "working_cache ops" and set: "cset ops tw c key (document ss te) ttl = Inr c'"
    and wf: "wf_sessions ss" and tw: "te \<le> tw" "tw \<le> t" and old: "dated te spec"
    and agree: "\<forall>sid. lapse ttl te (session_view ss sid) = lapse ttl te (spec sid)"
  shows "displays ops ttl t c' key spec"
proof -
  have t: "te \<le> t" using tw by simp
  from cache set tw have "cget ops t c' key = Inr (document ss te) \<or>
      (of_int ttl < t - tw \<and> cget ops t c' key = Inr PNone)"
    unfolding working_cache_def by (metis Inr_inject)
  then show ?thesis
  proof
    assume "cget ops t c' key = Inr (document ss te)"
    moreover have "lapse ttl t (session_view ss sid) = lapse ttl t (spec sid)" for sid
      using agree lapse_lapse [OF t] by metis
    ultimately show ?thesis using wf by (auto simp: displays_def)
  next
    assume "of_int ttl < t - tw \<and> cget ops t c' key = Inr PNone"
    then have gone: "of_int ttl < t - te \<and> cget ops t c' key = Inr PNone" using tw by linarith
    have "lapse ttl t (spec sid) = None" for sid
      using old gone by (cases "spec sid") (force simp: dated_def)+
    with gone show ?thesis by (auto simp: displays_def wf_doc_def session_view_def)
  qed
qed

lemma cset_other:
  assumes "working_cache ops" "cset ops te c key v n = Inr c'" "k \<noteq> key"
  shows "cget ops t c' k = cget ops t c k"
  using assms unfolding working_cache_def by (metis Inr_inject)

lemma cset_works: "working_cache ops \<Longrightarrow> \<exists>c'. cset ops t c k v n = Inr c'"
  unfolding working_cache_def by blast

text \<open>What a write computes from a document that agrees with a specification agrees with the specification
  after the write.\<close>

lemma touch_doc_agrees:
  assumes "wf_doc doc" and "\<forall>sid. lapse ttl te (session_view (sessions_of doc) sid) = lapse ttl te (spec sid)"
  shows "\<exists>ss. touch_doc te ttl sid f doc = Inr (document ss te) \<and> wf_sessions ss \<and>
    (\<forall>sid'. lapse ttl te (session_view ss sid') = lapse ttl te ((spec(sid := Some (te, norm_family f))) sid'))"
  using touch_doc_wf [OF assms(1), of te ttl sid f] assms(2)
  by (auto simp: lapse_lapse session_view_filter [OF wf_doc_sessions [OF assms(1)]])

lemma drop_doc_agrees:
  assumes "wf_doc doc" and "\<forall>sid. lapse ttl te (session_view (sessions_of doc) sid) = lapse ttl te (spec sid)"
  shows "\<exists>ss. drop_doc te ttl sid doc = Inr (document ss te) \<and> wf_sessions ss \<and>
    (\<forall>sid'. lapse ttl te (session_view ss sid') = lapse ttl te ((spec(sid := None)) sid'))"
proof -
  have wf: "wf_sessions (dict_pop sid (sessions_of doc))"
    by (intro wf_sessions_pop wf_doc_sessions assms)
  show ?thesis
    by (rule exI [of _ "filter (\<lambda>(sid, e). te - seen_time e \<le> of_int ttl) (dict_pop sid (sessions_of doc))"])
       (simp add: assms(2) wf drop_doc_def prune_wf wf_sessions_filter lapse_lapse session_view_filter [OF wf])
qed

lemma dated_renewed: "dated te spec \<Longrightarrow> dated te (spec(sid := Some (te, g)))"
  by (auto simp: dated_def)

lemma dated_released: "dated te spec \<Longrightarrow> dated te (spec(sid := None))"
  by (auto simp: dated_def)

text \<open>One write of the registry.\<close>

lemma touch_displays:
  assumes cache: "working_cache ops" and ttl: "presence_ttl st = Inr ttl" "0 < ttl" and sid: "sid \<noteq> []"
    and now: "displays ops ttl te c (cache_key sha (ident_str u)) spec" and old: "dated te spec"
  shows "\<exists>c'. touch ops st sha te (Some u) sid f (Some c) = (Inr True, Some c') \<and>
    (\<forall>t\<ge>te. displays ops ttl t c' (cache_key sha (ident_str u)) (spec(sid := Some (te, norm_family f)))) \<and>
    (\<forall>t k. k \<noteq> cache_key sha (ident_str u) \<longrightarrow> cget ops t c' k = cget ops t c k)"
proof -
  let ?key = "cache_key sha (ident_str u)"
  from now obtain doc where doc: "cget ops te c ?key = Inr doc" "wf_doc doc"
    and agree: "\<forall>sid. lapse ttl te (session_view (sessions_of doc) sid) = lapse ttl te (spec sid)"
    by (auto simp: displays_def)
  obtain ss where ss: "touch_doc te ttl sid f doc = Inr (document ss te)" "wf_sessions ss"
    "\<forall>sid'. lapse ttl te (session_view ss sid') = lapse ttl te ((spec(sid := Some (te, norm_family f))) sid')"
    using touch_doc_agrees [OF doc(2) agree] by blast
  obtain c' where c': "cset ops te c ?key (document ss te) ttl = Inr c'"
    using cset_works [OF cache] by blast
  have "\<forall>t\<ge>te. displays ops ttl t c' ?key (spec(sid := Some (te, norm_family f)))"
    using displays_written [OF cache c' ss(2) order_refl _ dated_renewed [OF old] ss(3)] by blast
  moreover have "touch ops st sha te (Some u) sid f (Some c) = (Inr True, Some c')"
    using c' ttl sid by (simp add: touch_def Let_def doc ss(1) written_def)
  ultimately show ?thesis using cset_other [OF cache c'] by blast
qed

text \<open>A session whose lease has lapsed in what the store displays may be dropped from the specification.\<close>

lemma displays_lapsed:
  assumes "\<forall>t\<ge>te. displays ops ttl t c key spec" and "lapse ttl te (spec sid) = None"
  shows "\<forall>t\<ge>te. displays ops ttl t c key (spec(sid := None))"
proof -
  have "lapse ttl t (spec sid) = None" if "te \<le> t" for t
    using lapse_lapse [OF that, of ttl "spec sid"] assms(2) by simp
  then have "lapse ttl t ((spec(sid := None)) s) = lapse ttl t (spec s)" if "te \<le> t" for t s
    using that by auto
  with assms(1) show ?thesis unfolding displays_def by metis
qed

lemma disconnect_displays:
  assumes cache: "working_cache ops" and ttl: "presence_ttl st = Inr ttl" "0 < ttl" and sid: "sid \<noteq> []"
    and now: "\<forall>t\<ge>te. displays ops ttl t c (cache_key sha (ident_str u)) spec" and old: "dated te spec"
  shows "\<exists>c'. snd (record_disconnect ops st sha te (Some u) sid (Some c)) = Some c' \<and>
    (\<forall>t\<ge>te. displays ops ttl t c' (cache_key sha (ident_str u)) (spec(sid := None))) \<and>
    (\<forall>t k. k \<noteq> cache_key sha (ident_str u) \<longrightarrow> cget ops t c' k = cget ops t c k)"
proof -
  let ?key = "cache_key sha (ident_str u)"
  from now have "displays ops ttl te c ?key spec" by simp
  then obtain doc where doc: "cget ops te c ?key = Inr doc" "wf_doc doc"
    and agree: "\<forall>sid. lapse ttl te (session_view (sessions_of doc) sid) = lapse ttl te (spec sid)"
    by (auto simp: displays_def)
  show ?thesis
  proof (cases "doc = PNone")
    case True
    have "lapse ttl te (spec sid) = None"
      using agree [THEN spec, of sid] True by (simp add: session_view_def)
    from displays_lapsed [OF now this] show ?thesis
      using ttl sid by (simp add: record_disconnect_def Let_def doc True)
  next
    case False
    then obtain d where d: "doc = PDict d" using doc(2) by (auto simp: wf_doc_def document_def)
    obtain ss where ss: "drop_doc te ttl sid doc = Inr (document ss te)" "wf_sessions ss"
      "\<forall>sid'. lapse ttl te (session_view ss sid') = lapse ttl te ((spec(sid := None)) sid')"
      using drop_doc_agrees [OF doc(2) agree] by blast
    obtain c' where c': "cset ops te c ?key (document ss te) ttl = Inr c'"
      using cset_works [OF cache] by blast
    have "\<forall>t\<ge>te. displays ops ttl t c' ?key (spec(sid := None))"
      using displays_written [OF cache c' ss(2) order_refl _ dated_released [OF old] ss(3)] by blast
    moreover have "snd (record_disconnect ops st sha te (Some u) sid (Some c)) = Some c'"
      using c' ttl sid ss(1) by (simp add: record_disconnect_def Let_def doc d written_def)
    ultimately show ?thesis using cset_other [OF cache c'] by blast
  qed
qed


text \<open>After a proper history, every read at a later time displays the last word of every session.\<close>

definition words_of :: "(ident \<times> string, string option) lease_event list \<Rightarrow> ident \<Rightarrow> string \<Rightarrow>
    (rat \<times> string option) option" where
  "words_of evs u sid = last_word norm_family evs (u, sid)"

lemma words_of_snoc [simp]:
  "words_of (evs @ [Renew t (u, sid) f]) = (words_of evs)(u := (words_of evs u)(sid := Some (t, norm_family f)))"
  "words_of (evs @ [Release t (u, sid)]) = (words_of evs)(u := (words_of evs u)(sid := None))"
  by (auto simp: words_of_def fun_eq_iff)

lemma words_dated: "\<forall>e\<in>set evs. event_time e \<le> t \<Longrightarrow> dated t (words_of evs u)"
  by (fastforce simp: dated_def words_of_def dest: last_word_renewed)

lemma run_store_snoc [simp]:
  "run_store ops st sha store (evs @ [ev]) = store_step ops st sha (run_store ops st sha store evs) ev"
  by (simp add: run_store_def)

lemma proper_history_snoc:
  "proper_history sha us (evs @ [ev]) \<Longrightarrow>
     proper_history sha us evs \<and> (\<forall>e\<in>set evs. event_time e \<le> event_time ev) \<and>
     fst (holder ev) \<in> us \<and> snd (holder ev) \<noteq> []"
  by (auto simp: proper_history_def chronological_snoc)

text \<open>One call on a store that displays a history: the document of its user displays the longer one, the other
  documents are as they were.\<close>

lemma store_step_displays:
  assumes cache: "working_cache ops" and ttl: "presence_ttl st = Inr ttl" "0 < ttl"
    and k: "holder ev = (u, sid)" "sid \<noteq> []"
    and now: "\<forall>t\<ge>event_time ev. displays ops ttl t c (cache_key sha (ident_str u)) (words_of evs u)"
    and old: "dated (event_time ev) (words_of evs u)"
  shows "\<exists>c'. store_step ops st sha (Some c) ev = Some c' \<and>
    (\<forall>t\<ge>event_time ev. displays ops ttl t c' (cache_key sha (ident_str u)) (words_of (evs @ [ev]) u)) \<and>
    (\<forall>t k. k \<noteq> cache_key sha (ident_str u) \<longrightarrow> cget ops t c' k = cget ops t c k)"
proof (cases ev)
  case (Renew t j f)
  with k show ?thesis
    using touch_displays [OF cache ttl k(2) now [rule_format, of "event_time ev", simplified] old, of f] by auto
next
  case (Release t j)
  with k show ?thesis
    using disconnect_displays [OF cache ttl k(2) now old] by auto
qed

lemma store_displays:
  assumes cache: "working_cache ops" and empty: "empty_store ops c0"
    and ttl: "presence_ttl st = Inr ttl" "0 < ttl" and proper: "proper_history sha us evs"
  shows "\<exists>c. run_store ops st sha (Some c0) evs = Some c \<and>
    (\<forall>t u. (\<forall>e\<in>set evs. event_time e \<le> t) \<longrightarrow> u \<in> us \<longrightarrow>
       displays ops ttl t c (cache_key sha (ident_str u)) (words_of evs u))"
  using proper
proof (induction evs rule: rev_induct)
  case Nil
  show ?case using empty
    by (auto simp: run_store_def displays_def empty_store_def wf_doc_def session_view_def words_of_def)
next
  case (snoc ev evs)
  let ?te = "event_time ev"
  note p = proper_history_snoc [OF snoc.prems]
  obtain c where c: "run_store ops st sha (Some c0) evs = Some c"
    and IH: "\<And>t u. \<forall>e\<in>set evs. event_time e \<le> t \<Longrightarrow> u \<in> us \<Longrightarrow>
       displays ops ttl t c (cache_key sha (ident_str u)) (words_of evs u)"
    using snoc.IH p by blast
  obtain u sid where k: "holder ev = (u, sid)" by (cases "holder ev")
  with p have u: "u \<in> us" and sid: "sid \<noteq> []" by simp_all
  have before: "\<forall>e\<in>set evs. event_time e \<le> t" if "?te \<le> t" for t
    using p that by force
  have now: "\<forall>t\<ge>?te. displays ops ttl t c (cache_key sha (ident_str u)) (words_of evs u)"
    using IH before u by blast
  have old: "dated ?te (words_of evs u)" using words_dated p by blast
  have other: "cache_key sha (ident_str v) \<noteq> cache_key sha (ident_str u)" if "v \<in> us" "v \<noteq> u" for v
    using snoc.prems that u by (auto simp: proper_history_def inj_on_def)
  from store_step_displays [OF cache ttl k sid now old] obtain c' where c': "store_step ops st sha (Some c) ev = Some c'"
    and mine: "\<And>t. ?te \<le> t \<Longrightarrow> displays ops ttl t c' (cache_key sha (ident_str u)) (words_of (evs @ [ev]) u)"
    and rest: "\<And>t k. k \<noteq> cache_key sha (ident_str u) \<Longrightarrow> cget ops t c' k = cget ops t c k"
    by blast
  have "displays ops ttl t c' (cache_key sha (ident_str v)) (words_of (evs @ [ev]) v)"
    if t: "?te \<le> t" and v: "v \<in> us" for t v
  proof (cases "v = u")
    case True
    with mine [OF t] show ?thesis by simp
  next
    case False
    have "words_of (evs @ [ev]) v = words_of evs v"
      using False k by (cases ev) (auto simp: words_of_def fun_eq_iff)
    then show ?thesis
      using IH [OF before [OF t] v] rest [OF other [OF v False]] by (simp add: displays_def)
  qed
  with c c' show ?case by auto
qed

text \<open>What the oracle answers from a store that displays a specification.\<close>

lemma is_live_displays:
  assumes "displays ops ttl now c (cache_key sha (ident_str u)) spec" and ttl: "presence_ttl st = Inr ttl" "0 < ttl"
  shows "\<exists>s. is_live ops st sha now (Some u) family (Some c) = Inr s \<and>
    sessions s = card {sid. \<exists>q g. spec sid = Some (q, g) \<and> now - q \<le> of_int ttl \<and> (family = None \<or> g = family)} \<and>
    (live s \<longleftrightarrow> sessions s \<noteq> 0)"
proof -
  obtain doc where doc: "cget ops now c (cache_key sha (ident_str u)) = Inr doc" "wf_doc doc"
    and agree: "\<And>sid. lapse ttl now (session_view (sessions_of doc) sid) = lapse ttl now (spec sid)"
    using assms(1) by (auto simp: displays_def)
  have *: "(\<exists>q g. s = Some (q, g) \<and> now - q \<le> of_int ttl \<and> P g) \<longleftrightarrow>
      (\<exists>p. lapse ttl now s = Some p \<and> P (snd p))" for s :: "(rat \<times> string option) option" and P
    by (cases s) auto
  have "counted (sessions_of doc) family now ttl = {sid. \<exists>q g. spec sid = Some (q, g) \<and>
      now - q \<le> of_int ttl \<and> (family = None \<or> g = family)}"
    unfolding counted_def * agree ..
  with snapshot_wf [OF doc(2), of family now ttl] show ?thesis
    using ttl by (auto simp: is_live_def doc Let_def)
qed

section \<open>Properties\<close>

text \<open>C7: The liveness oracle is exact on a working cache: after any chronological history of
  connects, heartbeats and disconnects of any users, \<open>is_live\<close> answers, for any user, the number of
  that user's sessions of the family whose last call was a connect or heartbeat at most the time to live
  ago, and \<open>live\<close> exactly when that number is not zero. Another user's calls never count.\<close>

theorem presence_oracle:
  assumes cache: "working_cache ops" and empty: "empty_store ops c0"
    and ttl: "presence_ttl st = Inr ttl" "0 < ttl" and proper: "proper_history sha us evs"
    and now: "\<forall>e\<in>set evs. event_time e \<le> now" and u: "u \<in> us"
  shows "\<exists>s. is_live ops st sha now (Some u) family (run_store ops st sha (Some c0) evs) = Inr s \<and>
    sessions s = card {sid. \<exists>q g. last_word norm_family evs (u, sid) = Some (q, g) \<and>
      now - q \<le> of_int ttl \<and> (family = None \<or> g = family)} \<and>
    (live s \<longleftrightarrow> sessions s \<noteq> 0)"
proof -
  obtain c where c: "run_store ops st sha (Some c0) evs = Some c"
    and d: "displays ops ttl now c (cache_key sha (ident_str u)) (words_of evs u)"
    using store_displays [OF cache empty ttl proper] now u by blast
  from is_live_displays [OF d ttl, of family] c show ?thesis by (simp add: words_of_def)
qed

text \<open>On one stored document, after any chronological history of renewals and releases, the
  snapshot is computed without an exception and counts exactly the sessions whose last event was a renewal
  of the family that has not lapsed.\<close>

theorem document_history:
  assumes "chronological evs" and "\<forall>e\<in>set evs. event_time e \<le> now"
  shows "\<exists>doc s. run_events (renew_res ttl) (release_res ttl) (Inr PNone) evs = Inr doc \<and>
    snapshot doc family now ttl = Inr s \<and>
    sessions s = card {sid. \<exists>q g. last_word norm_family evs sid = Some (q, g) \<and>
      now - q \<le> of_int ttl \<and> (family = None \<or> g = family)} \<and>
    (live s \<longleftrightarrow> sessions s \<noteq> 0)"
proof -
  obtain doc where doc: "run_events (renew_res ttl) (release_res ttl) (Inr PNone) evs = Inr doc" "wf_doc doc"
    using registry.valid_run [of ttl evs] by (auto simp: doc_valid_def)
  have "counted (sessions_of doc) family now ttl = {sid. \<exists>q g. last_word norm_family evs sid = Some (q, g) \<and>
      now - q \<le> of_int ttl \<and> (family = None \<or> g = family)}"
    using registry.live_iff_last_word [OF assms, of ttl _ "\<lambda>g. family = None \<or> g = family"]
    by (simp add: counted_def doc doc_view_def)
  with doc snapshot_wf [OF doc(2), of family now ttl] show ?thesis by metis
qed


lemma presence_ttl_defaults [simp]: "presence_ttl defaults = Inr 60"
  by (simp add: presence_ttl_def defaults_def py_or_def)

theorem presence_oracle_witness:
  "\<exists>s. is_live sample_cache defaults id 70 (Some (IdInt 7)) (Some ''chat'')
       (run_store sample_cache defaults id (Some [])
         [Renew 5 (IdInt 7, ''a'') (Some ''chat''), Renew 20 (IdInt 7, ''b'') (Some ''chat''),
          Renew 20 (IdInt 8, ''c'') (Some ''chat''), Release 30 (IdInt 8, ''c'')]) = Inr s \<and>
     sessions s = card {sid. \<exists>q g. last_word norm_family
         [Renew 5 (IdInt 7, ''a'') (Some ''chat''), Renew 20 (IdInt 7, ''b'') (Some ''chat''),
          Renew 20 (IdInt 8, ''c'') (Some ''chat''), Release 30 (IdInt 8, ''c'')] (IdInt 7, sid) = Some (q, g) \<and>
       70 - q \<le> of_int 60 \<and> (Some ''chat'' = None \<or> g = Some ''chat'')} \<and>
     (live s \<longleftrightarrow> sessions s \<noteq> 0)"
proof (rule presence_oracle [OF sample_cache_works(1) sample_cache_works(3), where us = "{IdInt 7, IdInt 8}"])
  have "cache_key id (ident_str (IdInt 7)) \<noteq> cache_key id (ident_str (IdInt 8))"
    by code_simp
  then show "proper_history id {IdInt 7, IdInt 8}
     [Renew 5 (IdInt 7, ''a'') (Some ''chat''), Renew 20 (IdInt 7, ''b'') (Some ''chat''),
      Renew 20 (IdInt 8, ''c'') (Some ''chat''), Release 30 (IdInt 8, ''c'')]"
    by (auto simp: proper_history_def chronological_def inj_on_def)
qed simp_all

theorem document_history_witness:
  "\<exists>doc s. run_events (renew_res 60) (release_res 60) (Inr PNone)
       [Renew 5 ''a'' None, Renew 9 ''b'' (Some ''video''), Release 9 ''a''] = Inr doc \<and>
    snapshot doc None 10 60 = Inr s \<and>
    sessions s = card {sid. \<exists>q g. last_word norm_family
        [Renew 5 ''a'' None, Renew 9 ''b'' (Some ''video''), Release 9 ''a''] sid = Some (q, g) \<and>
      10 - q \<le> of_int 60 \<and> (None = None \<or> g = None)} \<and>
    (live s \<longleftrightarrow> sessions s \<noteq> 0)"
  using document_history [of "[Renew 5 ''a'' None, Renew 9 ''b'' (Some ''video''), Release 9 ''a'']" 10 60 None]
  by (simp add: chronological_def)

text \<open>A raising read of the cache, and a document that is not the registry's.\<close>

definition raising_cache :: "'c cache_ops \<Rightarrow> bool" where
  "raising_cache ops \<longleftrightarrow> (\<forall>t c k. \<exists>e. cget ops t c k = Inl e) \<and> (\<forall>t c ks. \<exists>e. cget_many ops t c ks = Inl e)"

definition down_cache :: "unit cache_ops" where
  "down_cache = \<lparr>cget = (\<lambda>t c k. Inl OtherError), cset = (\<lambda>t c k v n. Inl OtherError),
     cget_many = (\<lambda>t c ks. Inl OtherError)\<rparr>"

definition corrupt_doc :: "string \<Rightarrow> string \<Rightarrow> pyval" where
  "corrupt_doc sid text = PDict [(''sessions'', PDict [(sid, PDict [(''seen'', PStr text)])])]"

text \<open>C37: Every degraded registry fails closed and never writes: a disabled axis, an unknown user, an
  unavailable cache and a raising cache all answer the offline snapshot, and the writes answer false and
  leave the store unchanged.\<close>

theorem presence_fails_closed:
  assumes ttl: "presence_ttl st = Inr ttl"
    and degraded: "ttl \<le> 0 \<or> uid = None \<or> store = None \<or> raising_cache ops"
  shows "is_live ops st sha now uid family store = Inr OFFLINE \<and>
    touch ops st sha now uid sid family store = (Inr False, store) \<and>
    record_disconnect ops st sha now uid sid store = (Inr False, store)"
proof (cases "uid = None \<or> store = None \<or> ttl \<le> 0")
  case True
  then show ?thesis
    by (cases uid; cases store)
       (auto simp: is_live_def touch_def record_disconnect_def ttl)
next
  case False
  then obtain u c where uc: "uid = Some u" "store = Some c" "0 < ttl" "raising_cache ops"
    using degraded by auto
  then obtain e where "cget ops now c (cache_key sha (ident_str u)) = Inl e"
    unfolding raising_cache_def by blast
  with uc show ?thesis
    by (simp add: is_live_def touch_def record_disconnect_def ttl Let_def written_def)
qed

lemma unopened_cache:
  "presence_ttl st = Inr ttl \<Longrightarrow> is_live ops st sha now uid family (open_cache (Inl e)) = Inr OFFLINE"
  by (cases uid) (simp_all add: is_live_def open_cache_def)

theorem presence_fails_closed_witness:
  "is_live down_cache defaults id 10 (Some (IdInt 7)) None (Some ()) = Inr OFFLINE \<and>
   touch down_cache defaults id 10 (Some (IdInt 7)) ''a'' None (Some ()) = (Inr False, Some ()) \<and>
   record_disconnect down_cache defaults id 10 (Some (IdInt 7)) ''a'' (Some ()) = (Inr False, Some ())"
  by (rule presence_fails_closed [OF presence_ttl_defaults])
     (simp add: raising_cache_def down_cache_def)

text \<open>A corrupt document escapes the oracle's promise never to raise: when the stored session's
  \<open>seen\<close> is a non-empty text that is not a number, \<open>is_live\<close> raises \<open>ValueError\<close> instead of
  answering offline, while the next connect leaves the document as it is.\<close>

theorem is_live_corrupt:
  assumes "presence_ttl st = Inr ttl" "0 < ttl" "text \<noteq> []" "py_float_str text = Inl ValueError"
    and "cget ops now c (cache_key sha (ident_str u)) = Inr (corrupt_doc sid text)"
  shows "is_live ops st sha now (Some u) None (Some c) = Inl ValueError \<and>
    touch ops st sha now (Some u) sid' family (Some c) = (Inr False, Some c)"
proof -
  have ss: "sessions_of (corrupt_doc sid text) = [(sid, [(''seen'', PStr text)])]"
    by (simp add: sessions_of_def corrupt_doc_def List.map_filter_def)
  have seen: "seen_of [(''seen'', PStr text)] = Inl ValueError"
    using assms by (simp add: seen_of_def py_or_def)
  have "snapshot (corrupt_doc sid text) None now ttl = Inl ValueError"
    by (simp add: snapshot_def ss seen family_matches_def)
  moreover have "touch_doc now ttl sid' family (corrupt_doc sid text) = Inl ValueError"
    by (simp add: touch_doc_def ss seen)
  ultimately show ?thesis
    using assms by (simp add: is_live_def touch_def Let_def written_def)
qed

theorem is_live_corrupt_witness:
  "is_live sample_cache defaults id 10 (Some (IdStr ''u'')) None
     (Some [(''stapel:realtime:presence:u'', (60, corrupt_doc ''a'' ''x''))]) = Inl ValueError \<and>
   touch sample_cache defaults id 10 (Some (IdStr ''u'')) ''b'' None
     (Some [(''stapel:realtime:presence:u'', (60, corrupt_doc ''a'' ''x''))]) =
     (Inr False, Some [(''stapel:realtime:presence:u'', (60, corrupt_doc ''a'' ''x''))])"
proof (rule is_live_corrupt [OF presence_ttl_defaults])
  show "py_float_str ''x'' = Inl ValueError" by code_simp
  have "cache_key id (ident_str (IdStr ''u'')) = ''stapel:realtime:presence:u''" by code_simp
  then show "cget sample_cache 10 [(''stapel:realtime:presence:u'', (60, corrupt_doc ''a'' ''x''))]
      (cache_key id (ident_str (IdStr ''u''))) = Inr (corrupt_doc ''a'' ''x'')"
    by (simp add: sample_cache_def ttl_get_def)
qed simp_all

lemma rmapM_pairs:
  "rmapM (\<lambda>(i, key). rmap (Pair i) (f key)) xs = Inr ys \<Longrightarrow>
     map fst ys = map fst xs \<and> (\<forall>(i, key)\<in>set xs. \<exists>s. f key = Inr s \<and> (i, s) \<in> set ys)"
proof (induction xs arbitrary: ys)
  case Nil
  then show ?case by simp
next
  case (Cons x xs)
  then show ?case by (cases x) (fastforce simp: rbind_eq_Inr_iff rmap_eq_Inr_iff)
qed

lemma fst_dict_of_keys [simp]: "set (map fst (dict_of_keys f ks)) = set ks"
  by (simp add: set_dict_of_keys image_image)

lemma map_of_const: "distinct (map fst ys) \<Longrightarrow> (i, s) \<in> set ys \<Longrightarrow> map_of ys i = Some s"
  by simp

lemma rmapM_Inl: "rmapM f xs = Inl e \<Longrightarrow> \<exists>x\<in>set xs. f x = Inl e"
proof (induction xs)
  case Nil
  then show ?case by simp
next
  case (Cons x xs)
  then show ?case by (cases "f x") auto
qed

text \<open>What the comprehension of a batch answers, when reading \<open>f\<close> of a user's key gives \<open>r\<close>.\<close>

lemma batch_entries:
  assumes single: "\<And>u. u \<in> set us \<Longrightarrow> r u = f (key (name u))"
  shows "case rmapM (\<lambda>(i, k). rmap (Pair i) (f k)) (dict_of_keys key (map name us)) of
      Inl e \<Rightarrow> \<exists>u\<in>set us. r u = Inl e
    | Inr ys \<Rightarrow> set (map fst ys) = name ` set us \<and> (\<forall>u\<in>set us. \<exists>s. map_of ys (name u) = Some s \<and> r u = Inr s)"
proof (cases "rmapM (\<lambda>(i, k). rmap (Pair i) (f k)) (dict_of_keys key (map name us))")
  case (Inl e)
  from rmapM_Inl [OF this] obtain u where "u \<in> set us" "f (key (name u)) = Inl e"
    by (auto simp: set_dict_of_keys)
  with single Inl show ?thesis by auto
next
  case (Inr ys)
  note pairs = rmapM_pairs [OF Inr]
  have dist: "distinct (map fst ys)" using pairs by simp
  have "\<exists>s. map_of ys (name u) = Some s \<and> r u = Inr s" if u: "u \<in> set us" for u
  proof -
    have "(name u, key (name u)) \<in> set (dict_of_keys key (map name us))" using u by (auto simp: set_dict_of_keys)
    then obtain s where s: "f (key (name u)) = Inr s" "(name u, s) \<in> set ys" using pairs by fastforce
    with map_of_const [OF dist s(2)] single [OF u] show ?thesis by auto
  qed
  moreover have "set (map fst ys) = name ` set us" using pairs by (metis fst_dict_of_keys list.set_map set_map set_remdups)
  ultimately show ?thesis using Inr by simp
qed

lemma live_batch_single:
  assumes batch: "batch_agrees ops" and ttl: "presence_ttl st = Inr ttl"
  shows "if MAX_BATCH < length (List.map_filter id user_ids)
    then live_batch ops st sha now user_ids family store = Inl ValueError
    else (\<exists>ys. live_batch ops st sha now user_ids family store = Inr ys \<and>
        set (map fst ys) = ident_str ` set (List.map_filter id user_ids) \<and>
        (\<forall>u\<in>set (List.map_filter id user_ids). \<exists>s. map_of ys (ident_str u) = Some s \<and>
           is_live ops st sha now (Some u) family store = Inr s)) \<or>
      (\<exists>u\<in>set (List.map_filter id user_ids). \<exists>e. is_live ops st sha now (Some u) family store = Inl e)"
proof (cases "MAX_BATCH < length (List.map_filter id user_ids)")
  case True
  then show ?thesis by (simp add: live_batch_def)
next
  case False
  let ?us = "List.map_filter id user_ids"
  let ?ids = "map ident_str ?us"
  let ?batch = "live_batch ops st sha now user_ids family store"
  let ?keys = "dict_of_keys (cache_key sha) ?ids"
  show ?thesis
  proof (cases "?us = [] \<or> ttl \<le> 0 \<or> store = None")
    case True
    then have "?batch = Inr (dict_of_keys (\<lambda>_. OFFLINE) ?ids)"
      using False ttl
      by (cases store) (auto simp: live_batch_def Let_def dict_of_keys_def)
    moreover have "is_live ops st sha now (Some u) family store = Inr OFFLINE" if "u \<in> set ?us" for u
      using that True ttl by (cases store) (auto simp: is_live_def)
    ultimately show ?thesis using False by (auto simp: set_dict_of_keys image_image)
  next
    case live: False
    then obtain c where c: "store = Some c" by auto
    obtain docs where docs: "cget_many ops now c (sort (remdups (map snd ?keys))) = Inr docs"
      and agree: "\<forall>k\<in>set (sort (remdups (map snd ?keys))). cget ops now c k = Inr (dict_get docs k)"
      using batch unfolding batch_agrees_def by blast
    let ?f = "\<lambda>(i, key). rmap (Pair i) (snapshot (dict_get docs key) family now ttl)"
    have b: "?batch = rmapM ?f ?keys"
      using False live ttl c docs by (simp add: live_batch_def Let_def)
    have single: "is_live ops st sha now (Some u) family store =
        snapshot (dict_get docs (cache_key sha (ident_str u))) family now ttl" if u: "u \<in> set ?us" for u
    proof -
      have "cache_key sha (ident_str u) \<in> set (sort (remdups (map snd ?keys)))"
        using u by (force simp: set_dict_of_keys)
      from agree [rule_format, OF this] show ?thesis using live ttl c by (simp add: is_live_def Let_def)
    qed
    from batch_entries [where us = ?us and r = "\<lambda>u. is_live ops st sha now (Some u) family store" and
        f = "\<lambda>key. snapshot (dict_get docs key) family now ttl" and key = "cache_key sha" and name = ident_str, OF single]
    show ?thesis
      using False b by (auto split: sum.splits)
  qed
qed

text \<open>A batch read answers for exactly the users asked about, each with the snapshot that
  \<open>is_live\<close> gives for that user at the same time, unless one of those reads raises; above the
  cap it raises, and never answers for fewer users.\<close>

theorem live_batch_agrees:
  assumes batch: "batch_agrees ops" and ttl: "presence_ttl st = Inr ttl"
  shows "if MAX_BATCH < length (List.map_filter id user_ids)
    then live_batch ops st sha now user_ids family store = Inl ValueError
    else (\<exists>ys. live_batch ops st sha now user_ids family store = Inr ys \<and>
        set (map fst ys) = ident_str ` set (List.map_filter id user_ids) \<and>
        (\<forall>u\<in>set (List.map_filter id user_ids). \<exists>s. map_of ys (ident_str u) = Some s \<and>
           is_live ops st sha now (Some u) family store = Inr s)) \<or>
      (\<exists>u\<in>set (List.map_filter id user_ids). \<exists>e. is_live ops st sha now (Some u) family store = Inl e)"
  using assms by (rule live_batch_single)

theorem live_batch_agrees_witness:
  "if MAX_BATCH < length (List.map_filter id [Some (IdInt 7), None])
    then live_batch sample_cache defaults id 10 [Some (IdInt 7), None] None (Some []) = Inl ValueError
    else (\<exists>ys. live_batch sample_cache defaults id 10 [Some (IdInt 7), None] None (Some []) = Inr ys \<and>
        set (map fst ys) = ident_str ` set (List.map_filter id [Some (IdInt 7), None]) \<and>
        (\<forall>u\<in>set (List.map_filter id [Some (IdInt 7), None]). \<exists>s. map_of ys (ident_str u) = Some s \<and>
           is_live sample_cache defaults id 10 (Some u) None (Some []) = Inr s)) \<or>
      (\<exists>u\<in>set (List.map_filter id [Some (IdInt 7), None]). \<exists>e.
         is_live sample_cache defaults id 10 (Some u) None (Some []) = Inl e)"
  by (rule live_batch_agrees [OF sample_cache_works(2) presence_ttl_defaults])

end
