(* ===== verification/Urls.thy ===== *)
theory Urls
  imports PyBase
begin

text \<open>
  What \<open>asgi.py\<close> uses of the standard library's \<open>urlsplit\<close> (as of Python 3.11): the scheme,
  the network location with its checks, and the \<open>hostname\<close> and \<open>port\<close> of the result,
  with the address check \<open>ipaddress.ip_address\<close> makes of a bracketed host. The normalization check
  of the location cannot fail on characters below code point 256.
\<close>

section \<open>Partitions\<close>

definition before :: "char \<Rightarrow> string \<Rightarrow> string" where
  "before d s = takeWhile (\<lambda>c. c \<noteq> d) s"

definition after :: "char \<Rightarrow> string \<Rightarrow> string" where
  "after d s = drop 1 (dropWhile (\<lambda>c. c \<noteq> d) s)"

text \<open>\<open>s.rpartition(d)[2]\<close>: what follows the last separator.\<close>

definition after_last :: "char \<Rightarrow> string \<Rightarrow> string" where
  "after_last d s = rev (takeWhile (\<lambda>c. c \<noteq> d) (rev s))"

section \<open>Addresses in brackets\<close>

definition is_hex :: "char \<Rightarrow> bool" where
  "is_hex c \<longleftrightarrow> is_digit c \<or> 65 \<le> ord c \<and> ord c \<le> 70 \<or> 97 \<le> ord c \<and> ord c \<le> 102"

definition octet_ok :: "string \<Rightarrow> bool" where
  "octet_ok s \<longleftrightarrow> s \<noteq> [] \<and> list_all is_digit s \<and> length s \<le> 3 \<and>
     (s = ''0'' \<or> hd s \<noteq> CHR ''0'') \<and> run_val s \<le> 255"

definition ipv4_ok :: "string \<Rightarrow> bool" where
  "ipv4_ok s \<longleftrightarrow> (let ps = split_on (CHR ''.'') s in length ps = 4 \<and> list_all octet_ok ps)"

definition hextet_ok :: "string \<Rightarrow> bool" where
  "hextet_ok s \<longleftrightarrow> s \<noteq> [] \<and> list_all is_hex s \<and> length s \<le> 4"

text \<open>The positions of the empty parts that are neither first nor last: at most one, the run of
  zeros.\<close>

definition gaps :: "string list \<Rightarrow> nat list" where
  "gaps ps = filter (\<lambda>i. ps ! i = []) [1..<length ps - 1]"

definition ipv6_parts_ok :: "string list \<Rightarrow> bool" where
  "ipv6_parts_ok ps \<longleftrightarrow>
     (case gaps ps of
        [] \<Rightarrow> length ps = 8 \<and> list_all hextet_ok ps
      | [i] \<Rightarrow>
          (let hi = (if hd ps = [] then i - 1 else i);
               lo = (if last ps = [] then length ps - i - 2 else length ps - i - 1)
           in (hd ps = [] \<longrightarrow> hi = 0) \<and> (last ps = [] \<longrightarrow> lo = 0) \<and> hi + lo < 8 \<and>
              list_all hextet_ok (take hi ps) \<and> list_all hextet_ok (drop (length ps - lo) ps))
      | _ \<Rightarrow> False)"

definition ipv6_ok :: "string \<Rightarrow> bool" where
  "ipv6_ok s \<longleftrightarrow>
     (let ps = split_on (CHR '':'') s
      in 3 \<le> length ps \<and>
         (if CHR ''.'' \<in> set (last ps)
          then ipv4_ok (last ps) \<and> length ps < 9 \<and> ipv6_parts_ok (butlast ps @ [''0'', ''0''])
          else length ps \<le> 9 \<and> ipv6_parts_ok ps))"

text \<open>A zone, after a percent sign, is not empty and has no second one.\<close>

definition bracket_ok :: "string \<Rightarrow> bool" where
  "bracket_ok h \<longleftrightarrow>
     (case h of
        c # r \<Rightarrow>
          if c = CHR ''v''
          then before (CHR ''.'') r \<noteq> [] \<and> list_all is_hex (before (CHR ''.'') r) \<and> after (CHR ''.'') r \<noteq> []
          else CHR ''/'' \<notin> set h \<and> ipv6_ok (before (CHR ''%'') h) \<and>
            (CHR ''%'' \<in> set h \<longrightarrow> after (CHR ''%'') h \<noteq> [] \<and> CHR ''%'' \<notin> set (after (CHR ''%'') h))
      | [] \<Rightarrow> False)"

section \<open>Splitting\<close>

record split_url =
  url_scheme :: string
  url_netloc :: string

definition scheme_char :: "char \<Rightarrow> bool" where
  "scheme_char c \<longleftrightarrow> is_alpha c \<or> is_digit c \<or> c \<in> set ''+-.''"

definition clean_url :: "string \<Rightarrow> string" where
  "clean_url s = filter (\<lambda>c. c \<notin> {CHR 0x09, CHR 0x0A, CHR 0x0D}) (dropWhile (\<lambda>c. ord c \<le> 32) s)"

definition split_scheme :: "string \<Rightarrow> string \<times> string" where
  "split_scheme s =
     (let p = before (CHR '':'') s
      in if CHR '':'' \<in> set s \<and> p \<noteq> [] \<and> is_alpha (hd s) \<and> list_all scheme_char p
         then (lower p, after (CHR '':'') s) else ([], s))"

definition urlsplit :: "string \<Rightarrow> split_url res" where
  "urlsplit s =
     (let (sch, r) = split_scheme (clean_url s)
      in if take 2 r \<noteq> ''//'' then Inr \<lparr>url_scheme = sch, url_netloc = []\<rparr>
         else let n = takeWhile (\<lambda>c. c \<notin> set ''/?#'') (drop 2 r);
                  l = CHR ''['' \<in> set n; r = CHR '']'' \<in> set n
           in if l \<noteq> r then Inl ValueError
              else if l \<and> \<not> bracket_ok (before (CHR '']'') (after (CHR ''['') n)) then Inl ValueError
              else Inr \<lparr>url_scheme = sch, url_netloc = n\<rparr>)"

definition hostinfo :: "split_url \<Rightarrow> string \<times> string" where
  "hostinfo u =
     (let h = after_last (CHR ''@'') (url_netloc u)
      in if CHR ''['' \<in> set h
         then let b = after (CHR ''['') h in (before (CHR '']'') b, after (CHR '':'') (after (CHR '']'') b))
         else (before (CHR '':'') h, after (CHR '':'') h))"

text \<open>The name is lowered up to a zone; an absent one is the empty string.\<close>

definition url_hostname :: "split_url \<Rightarrow> string" where
  "url_hostname u =
     (let h = fst (hostinfo u)
      in lower (before (CHR ''%'') h) @ drop (length (before (CHR ''%'') h)) h)"

definition url_port :: "split_url \<Rightarrow> nat option res" where
  "url_port u =
     (let p = snd (hostinfo u)
      in if p = [] then Inr None
         else if list_all is_digit p \<and> length p \<le> max_str_digits \<and> run_val p \<le> 65535 then Inr (Some (run_val p)) else Inl ValueError)"

lemma urlsplit_errors: "urlsplit s = Inl e \<Longrightarrow> e = ValueError"
  by (auto simp: urlsplit_def Let_def split: prod.splits if_splits)

lemma url_port_errors: "url_port u = Inl e \<Longrightarrow> e = ValueError"
  by (auto simp: url_port_def Let_def split: if_splits)

end
