(* ===== verification/Asgi.thy ===== *)
theory Asgi
  imports Urls Conf CloseCodes
begin

text \<open>
  Host assembly, \<open>asgi.py\<close>: normalizing an origin, the allowlist of \<open>OriginGuard\<close> with the site
  registry's origins, its decision on a handshake, the discovery of socket routes and the application that
  is built of them. The site registry, the import system and the URL patterns are not the repository's: the
  registry is the datatype \<open>site_registry\<close>, finding and importing a routing module are parameters.
\<close>

section \<open>Origins\<close>

definition DEFAULT_PORTS :: "(string \<times> string) list" where
  "DEFAULT_PORTS = [(''http'', ''80''), (''ws'', ''80''), (''https'', ''443''), (''wss'', ''443'')]"

definition render_origin :: "string \<Rightarrow> string \<Rightarrow> nat option \<Rightarrow> string" where
  "render_origin scheme host port =
     (case port of
        None \<Rightarrow> scheme @ ''://'' @ host
      | Some p \<Rightarrow>
          if map_of DEFAULT_PORTS scheme = Some (nat_str p) then scheme @ ''://'' @ host
          else scheme @ ''://'' @ host @ '':'' @ nat_str p)"

definition normalize_text :: "string \<Rightarrow> string res" where
  "normalize_text origin =
     rbind (urlsplit (str_strip origin)) (\<lambda>parts.
       let scheme = lower (url_scheme parts); host = lower (url_hostname parts)
       in rbind (url_port parts) (\<lambda>port.
            if scheme = [] \<or> host = [] then Inl ValueError
            else Inr (render_origin scheme host port)))"

text \<open>Only a text has a \<open>strip\<close>.\<close>

definition normalize_origin :: "pyval \<Rightarrow> string res" where
  "normalize_origin origin = (case origin of PStr s \<Rightarrow> normalize_text s | _ \<Rightarrow> Inl AttributeError)"

datatype site_registry = NoRegistry | Registry "string list res"

definition site_registry_origins :: "site_registry \<Rightarrow> string list res" where
  "site_registry_origins reg =
     (case reg of
        NoRegistry \<Rightarrow> Inr []
      | Registry (Inr origins) \<Rightarrow> Inr origins
      | Registry (Inl e) \<Rightarrow> if e = SitesConfigError then Inr [] else Inl e)"

text \<open>\<open>list(v)\<close> of a configured value: a text gives its characters, a dictionary its keys.\<close>

fun py_list :: "pyval \<Rightarrow> pyval list res" where
  "py_list (PList vs) = Inr vs"
| "py_list (PStr s) = Inr (map (\<lambda>c. PStr [c]) s)"
| "py_list (PDict d) = Inr (map (PStr \<circ> fst) d)"
| "py_list _ = Inl TypeError"

fun union_origins :: "pyval list \<Rightarrow> string list \<Rightarrow> pyval list" where
  "union_origins entries [] = entries"
| "union_origins entries (origin # rest) =
     union_origins (if PStr origin \<in> set entries then entries else entries @ [PStr origin]) rest"

definition configured :: "settings \<Rightarrow> site_registry \<Rightarrow> pyval list option \<Rightarrow> pyval list res" where
  "configured st reg explicit =
     (case explicit of
        Some vs \<Rightarrow> Inr vs
      | None \<Rightarrow>
          rbind (py_list (py_or (ALLOWED_ORIGINS st) (PList []))) (\<lambda>entries.
            rmap (union_origins entries) (site_registry_origins reg)))"

text \<open>The parseable entries; an exception other than the three that are caught leaves the
  property.\<close>

fun parse_entries :: "pyval list \<Rightarrow> string list res" where
  "parse_entries [] = Inr []"
| "parse_entries (entry # rest) =
     (case normalize_origin entry of
        Inr n \<Rightarrow> rmap ((#) n) (parse_entries rest)
      | Inl e \<Rightarrow>
          if e = ValueError \<or> e = AttributeError \<or> e = TypeError then parse_entries rest else Inl e)"

definition allowed :: "settings \<Rightarrow> site_registry \<Rightarrow> pyval list option \<Rightarrow> string list res" where
  "allowed st reg explicit = rbind (configured st reg explicit) parse_entries"

text \<open>A connection: the type of its scope and its headers, decoded.\<close>

record connection =
  conn_type :: string
  conn_headers :: "(string \<times> string) list"

definition origin_header :: "connection \<Rightarrow> string option" where
  "origin_header conn = map_of (conn_headers conn) ''origin''"

datatype guard_action = PassOn | Refuse int

definition guard_call :: "settings \<Rightarrow> site_registry \<Rightarrow> pyval list option \<Rightarrow> connection \<Rightarrow> guard_action res" where
  "guard_call st reg explicit conn =
     (if conn_type conn \<noteq> ''websocket'' then Inr PassOn
      else rbind (configured st reg explicit) (\<lambda>entries.
        if entries = [] then Inr PassOn
        else rbind (allowed st reg explicit) (\<lambda>ok.
          case origin_header conn of
            None \<Rightarrow> Inr PassOn
          | Some origin \<Rightarrow>
              (case normalize_text origin of
                 Inr n \<Rightarrow> Inr (if n \<in> set ok then PassOn else Refuse CLOSE_FORBIDDEN)
               | Inl e \<Rightarrow> if e = ValueError then Inr (Refuse CLOSE_FORBIDDEN) else Inl e))))"

section \<open>Routes and assembly\<close>

text \<open>The routing module of an app: \<open>find_spec\<close> says whether there is one, the import gives
  the value of its \<open>websocket_urlpatterns\<close>, if it has one.\<close>

fun collect_websocket_urlpatterns ::
    "(string \<Rightarrow> bool res) \<Rightarrow> (string \<Rightarrow> 'p list option res) \<Rightarrow> string list \<Rightarrow> 'p list res" where
  "collect_websocket_urlpatterns find_spec load [] = Inr []"
| "collect_websocket_urlpatterns find_spec load (app # apps) =
     (let module_name = app @ ''.routing''
      in case find_spec module_name of
           Inl e \<Rightarrow>
             if e = ImportError \<or> e = ValueError then collect_websocket_urlpatterns find_spec load apps else Inl e
         | Inr found \<Rightarrow>
             if \<not> found then collect_websocket_urlpatterns find_spec load apps
             else rbind (load module_name) (\<lambda>patterns.
               rmap ((@) (case patterns of None \<Rightarrow> [] | Some ps \<Rightarrow> ps))
                 (collect_websocket_urlpatterns find_spec load apps)))"

datatype ('p, 'h) application =
    URLRouter "'p list"
  | JWTAuth "('p, 'h) application"
  | OriginGuard "pyval list option" "('p, 'h) application"
  | HttpApp 'h
  | ProtocolRouter "(string \<times> ('p, 'h) application) list"

definition build_websocket_application ::
    "'p list res \<Rightarrow> 'p list option \<Rightarrow> 'h option \<Rightarrow> pyval list option \<Rightarrow> bool \<Rightarrow> ('p, 'h) application res" where
  "build_websocket_application discovered patterns http_application allowed_origins authenticate =
     rmap (\<lambda>ps.
        let inner = (if authenticate then JWTAuth (URLRouter ps) else URLRouter ps)
        in ProtocolRouter ((''websocket'', OriginGuard allowed_origins inner) #
             (case http_application of None \<Rightarrow> [] | Some h \<Rightarrow> [(''http'', HttpApp h)])))
       (case patterns of None \<Rightarrow> discovered | Some ps \<Rightarrow> Inr ps)"

section \<open>Lemmas\<close>

lemma normalize_text_errors: "normalize_text s = Inl e \<Longrightarrow> e = ValueError"
  using urlsplit_errors url_port_errors
  by (auto simp: normalize_text_def Let_def rbind_def split: sum.splits if_splits)

lemma normalize_origin_errors: "normalize_origin v = Inl e \<Longrightarrow> e = ValueError \<or> e = AttributeError"
  using normalize_text_errors by (auto simp: normalize_origin_def split: pyval.splits)

lemma parse_entries_set:
  "\<exists>ns. parse_entries vs = Inr ns \<and> set ns = {n. \<exists>v\<in>set vs. normalize_origin v = Inr n}"
proof (induction vs)
  case Nil
  then show ?case by simp
next
  case (Cons v vs)
  then show ?case
    using normalize_origin_errors [of v] by (cases "normalize_origin v") auto
qed

lemma union_origins_set: "set (union_origins vs os) = set vs \<union> PStr ` set os"
  by (induction os arbitrary: vs) auto

lemma nat_str_no_colon: "CHR '':'' \<notin> set (nat_str n)"
  using nat_str_digits by (force simp: is_digit_def)


lemma py_list_errors: "py_list v = Inl e \<Longrightarrow> e = TypeError"
  by (cases v) auto

lemma lower_char_colon: "CHR '':'' = lower_char c \<longleftrightarrow> c = CHR '':''"
proof (cases "65 \<le> ord c \<and> ord c \<le> 90 \<or> 192 \<le> ord c \<and> ord c \<le> 222 \<and> ord c \<noteq> 215")
  case True
  then have "ord (lower_char c) = ord c + 32" by (auto simp: lower_char_def)
  then have "lower_char c \<noteq> CHR '':''" using True by auto
  with True show ?thesis by auto
next
  case False
  then have "lower_char c = c" unfolding lower_char_def by (simp only: if_False)
  then show ?thesis by auto
qed

lemma colon_free_lower [simp]: "CHR '':'' \<in> lower_char ` A \<longleftrightarrow> CHR '':'' \<in> A"
  by (auto simp: image_iff lower_char_colon)

lemma before_free [simp]: "d \<notin> set (before d s)"
  by (auto simp: before_def dest: set_takeWhileD)

lemma urlsplit_scheme_free: "urlsplit s = Inr u \<Longrightarrow> CHR '':'' \<notin> set (url_scheme u)"
proof -
  have *: "CHR '':'' \<notin> set (fst (split_scheme t))" for t
    using before_free [of "CHR '':''" t] by (simp add: split_scheme_def Let_def)
  assume "urlsplit s = Inr u"
  then show ?thesis
    using * [of "clean_url s"] by (auto simp: urlsplit_def Let_def split: prod.splits if_splits)
qed

text \<open>What an origin identifies: scheme and host in lower case, and the port unless it is the scheme's
  default.\<close>

definition origin_identity :: "string \<Rightarrow> (string \<times> string \<times> nat option) res" where
  "origin_identity s =
     rbind (urlsplit (str_strip s)) (\<lambda>u. rmap (\<lambda>port.
       (lower (url_scheme u), lower (url_hostname u),
        (case port of None \<Rightarrow> None
         | Some p \<Rightarrow> if map_of DEFAULT_PORTS (lower (url_scheme u)) = Some (nat_str p) then None else Some p)))
       (url_port u))"

lemma split_rendered:
  assumes "CHR '':'' \<notin> set sch" "CHR '':'' \<notin> set host"
  shows "split_on (CHR '':'') (sch @ ''://'' @ host) = [sch, ''//'' @ host]"
    "split_on (CHR '':'') (sch @ ''://'' @ host @ '':'' @ nat_str p) = [sch, ''//'' @ host, nat_str p]"
  using assms split_on_append [of "CHR '':''" "''//'' @ host" "nat_str p"]
  by (simp_all add: split_on_append split_on_free nat_str_no_colon)

lemma normalize_identity:
  assumes "normalize_text s = Inr n" "origin_identity s = Inr (sch, host, q)"
  shows "CHR '':'' \<notin> set sch \<and>
    n = (case q of None \<Rightarrow> sch @ ''://'' @ host | Some p \<Rightarrow> sch @ ''://'' @ host @ '':'' @ nat_str p)"
proof -
  obtain u port where u: "urlsplit (str_strip s) = Inr u" "url_port u = Inr port"
    and id: "sch = lower (url_scheme u)" "host = lower (url_hostname u)"
      "q = (case port of None \<Rightarrow> None
         | Some p \<Rightarrow> if map_of DEFAULT_PORTS (lower (url_scheme u)) = Some (nat_str p) then None else Some p)"
    using assms(2) by (auto simp: origin_identity_def rbind_eq_Inr_iff rmap_eq_Inr_iff)
  have "n = render_origin sch host port"
    using assms(1) u id by (auto simp: normalize_text_def Let_def split: if_splits)
  with urlsplit_scheme_free [OF u(1)] id show ?thesis
    by (auto simp: render_origin_def split: option.splits)
qed

section \<open>Concrete origins\<close>

lemma ports_text: "nat_str 80 = ''80''" "nat_str 8600 = ''8600''" "nat_str 8080 = ''8080''"
  by (simp add: nat_str.simps, code_simp)+

lemma normalize_known:
  assumes "urlsplit (str_strip s) = Inr u" "url_port u = Inr port"
    and "lower (url_scheme u) = sch" "lower (url_hostname u) = host"
  shows "normalize_text s = (if sch = [] \<or> host = [] then Inl ValueError else Inr (render_origin sch host port))"
    and "origin_identity s = Inr (sch, host,
        (case port of None \<Rightarrow> None
         | Some p \<Rightarrow> if map_of DEFAULT_PORTS sch = Some (nat_str p) then None else Some p))"
  unfolding normalize_text_def origin_identity_def Let_def assms rbind_simps rmap_simps by (rule refl)+

lemmas port_defs = url_port_def hostinfo_def after_last_def after_def before_def Let_def py_defs

lemma sample_ports:
  "url_port \<lparr>url_scheme = ''http'', url_netloc = ''Studio.Localhost:8600''\<rparr> = Inr (Some 8600)"
  "url_port \<lparr>url_scheme = ''http'', url_netloc = ''studio.localhost:80''\<rparr> = Inr (Some 80)"
  "url_port \<lparr>url_scheme = ''http'', url_netloc = ''[::1]:8080''\<rparr> = Inr (Some 8080)"
  "url_port \<lparr>url_scheme = ''http'', url_netloc = ''[::1:8080]''\<rparr> = Inr None"
  "url_port \<lparr>url_scheme = ''http'', url_netloc = ''::1:8080''\<rparr> = Inl ValueError"
  by (simp_all add: port_defs)

lemma sample_splits:
  "urlsplit (str_strip ''HTTP://Studio.Localhost:8600/x'') =
     Inr \<lparr>url_scheme = ''http'', url_netloc = ''Studio.Localhost:8600''\<rparr>"
  "urlsplit (str_strip ''http://studio.localhost:80'') =
     Inr \<lparr>url_scheme = ''http'', url_netloc = ''studio.localhost:80''\<rparr>"
  "urlsplit (str_strip ''http://[::1]:8080'') = Inr \<lparr>url_scheme = ''http'', url_netloc = ''[::1]:8080''\<rparr>"
  "urlsplit (str_strip ''http://[::1:8080]'') = Inr \<lparr>url_scheme = ''http'', url_netloc = ''[::1:8080]''\<rparr>"
  "urlsplit (str_strip ''http://::1:8080'') = Inr \<lparr>url_scheme = ''http'', url_netloc = ''::1:8080''\<rparr>"
  by code_simp+

lemma sample_hosts:
  "lower (url_scheme \<lparr>url_scheme = ''http'', url_netloc = n\<rparr>) = ''http''"
  "lower (url_hostname \<lparr>url_scheme = ''http'', url_netloc = ''Studio.Localhost:8600''\<rparr>) = ''studio.localhost''"
  "lower (url_hostname \<lparr>url_scheme = ''http'', url_netloc = ''studio.localhost:80''\<rparr>) = ''studio.localhost''"
  "lower (url_hostname \<lparr>url_scheme = ''http'', url_netloc = ''[::1]:8080''\<rparr>) = ''::1''"
  "lower (url_hostname \<lparr>url_scheme = ''http'', url_netloc = ''[::1:8080]''\<rparr>) = ''::1:8080''"
  by code_simp+

lemmas known_studio = normalize_known [OF sample_splits(1) sample_ports(1) sample_hosts(1,2)]
lemmas known_plain = normalize_known [OF sample_splits(2) sample_ports(2) sample_hosts(1,3)]
lemmas known_port = normalize_known [OF sample_splits(3) sample_ports(3) sample_hosts(1,4)]
lemmas known_address = normalize_known [OF sample_splits(4) sample_ports(4) sample_hosts(1,5)]
lemmas origin_evals = known_studio known_plain known_port known_address render_origin_def DEFAULT_PORTS_def
  ports_text

section \<open>Properties\<close>

text \<open>C21: The origin guard's decision, completely: a handshake passes exactly when it is not a websocket,
  no origin is configured (setting and site registry together, or the explicit list), the client sent no
  \<open>Origin\<close>, or the normalized \<open>Origin\<close> equals a normalized entry; everything else is closed 4403.
  In particular an allowlist all of whose entries are malformed refuses every origin.\<close>

theorem guard_decides:
  assumes "configured st reg explicit = Inr entries"
  shows "guard_call st reg explicit conn =
    Inr (if conn_type conn \<noteq> ''websocket'' \<or> entries = [] \<or> origin_header conn = None \<or>
          (\<exists>origin n. origin_header conn = Some origin \<and> normalize_text origin = Inr n \<and>
             (\<exists>entry\<in>set entries. normalize_origin entry = Inr n))
         then PassOn else Refuse 4403)"
proof -
  obtain ns where ns: "parse_entries entries = Inr ns" "set ns = {n. \<exists>v\<in>set entries. normalize_origin v = Inr n}"
    using parse_entries_set by blast
  then have ok: "allowed st reg explicit = Inr ns" using assms by (simp add: allowed_def)
  show ?thesis
  proof (cases "origin_header conn")
    case None
    with ok assms show ?thesis by (simp add: guard_call_def)
  next
    case (Some origin)
    with ok assms ns normalize_text_errors [of origin] show ?thesis
      by (cases "normalize_text origin") (auto simp: guard_call_def CLOSE_FORBIDDEN_def)
  qed
qed

theorem guard_decides_witness:
  "guard_call defaults (Registry (Inr [''https://a.example''])) None
     \<lparr>conn_type = ''websocket'', conn_headers = [(''origin'', ''https://b.example'')]\<rparr> =
    Inr (if conn_type \<lparr>conn_type = ''websocket'', conn_headers = [(''origin'', ''https://b.example'')]\<rparr> \<noteq> ''websocket'' \<or>
          [PStr ''https://a.example''] = [] \<or>
          origin_header \<lparr>conn_type = ''websocket'', conn_headers = [(''origin'', ''https://b.example'')]\<rparr> = None \<or>
          (\<exists>origin n. origin_header \<lparr>conn_type = ''websocket'', conn_headers = [(''origin'', ''https://b.example'')]\<rparr> =
              Some origin \<and> normalize_text origin = Inr n \<and>
             (\<exists>entry\<in>set [PStr ''https://a.example'']. normalize_origin entry = Inr n))
         then PassOn else Refuse 4403)"
  by (rule guard_decides) (simp add: configured_def defaults_def py_or_def site_registry_origins_def)

text \<open>Normalization is exact on origins whose host has no colon: two of them compare equal exactly when
  scheme, host (in any case) and effective port agree, so a port that is not the scheme's default is part of
  an origin's identity and a default port, the case and the path are not.\<close>

theorem normalize_identifies:
  assumes "normalize_text a = Inr m" "normalize_text b = Inr n"
    and "origin_identity a = Inr (sa, ha, pa)" "origin_identity b = Inr (sb, hb, pb)"
    and "CHR '':'' \<notin> set ha" "CHR '':'' \<notin> set hb"
  shows "m = n \<longleftrightarrow> sa = sb \<and> ha = hb \<and> pa = pb"
proof -
  have m: "CHR '':'' \<notin> set sa" "m = (case pa of None \<Rightarrow> sa @ ''://'' @ ha | Some p \<Rightarrow> sa @ ''://'' @ ha @ '':'' @ nat_str p)"
    using normalize_identity [OF assms(1,3)] by simp_all
  have n: "CHR '':'' \<notin> set sb" "n = (case pb of None \<Rightarrow> sb @ ''://'' @ hb | Some p \<Rightarrow> sb @ ''://'' @ hb @ '':'' @ nat_str p)"
    using normalize_identity [OF assms(2,4)] by simp_all
  have parts: "split_on (CHR '':'') m = [sa, ''//'' @ ha] @ (case pa of None \<Rightarrow> [] | Some p \<Rightarrow> [nat_str p])"
    "split_on (CHR '':'') n = [sb, ''//'' @ hb] @ (case pb of None \<Rightarrow> [] | Some p \<Rightarrow> [nat_str p])"
    using m n split_rendered assms(5,6) by (auto split: option.splits)
  have "m = n \<longleftrightarrow> split_on (CHR '':'') m = split_on (CHR '':'') n"
    by (metis join_split)
  also have "\<dots> \<longleftrightarrow> sa = sb \<and> ha = hb \<and> pa = pb"
    unfolding parts by (cases pa; cases pb) auto
  finally show ?thesis .
qed

theorem normalize_identifies_witness:
  "''http://studio.localhost:8600'' = ''http://studio.localhost'' \<longleftrightarrow>
     ''http'' = ''http'' \<and> ''studio.localhost'' = ''studio.localhost'' \<and> Some (8600::nat) = None"
  by (rule normalize_identifies
       [of "''HTTP://Studio.Localhost:8600/x''" _ "''http://studio.localhost:80''"])
     (simp_all add: origin_evals)

text \<open>The brackets of an IPv6 host are dropped, which merges two origins: port 8080 of one address and
  the address that ends in those digits, at the default port, normalize alike, and what they normalize to is
  not an origin any more.\<close>

theorem normalize_merges_ipv6:
  "normalize_text ''http://[::1]:8080'' = normalize_text ''http://[::1:8080]'' \<and>
   normalize_text ''http://[::1]:8080'' = Inr ''http://::1:8080'' \<and>
   normalize_text ''http://::1:8080'' = Inl ValueError \<and>
   origin_identity ''http://[::1]:8080'' \<noteq> origin_identity ''http://[::1:8080]''"
proof -
  have "normalize_text ''http://::1:8080'' = Inl ValueError"
    by (simp add: normalize_text_def sample_splits sample_ports Let_def)
  then show ?thesis by (simp add: origin_evals)
qed

text \<open>What one app contributes to the discovered routes.\<close>

definition contribution :: "(string \<Rightarrow> bool res) \<Rightarrow> (string \<Rightarrow> 'p list option res) \<Rightarrow> string \<Rightarrow> 'p list res" where
  "contribution find_spec load app =
     (case find_spec (app @ ''.routing'') of
        Inl e \<Rightarrow> if e = ImportError \<or> e = ValueError then Inr [] else Inl e
      | Inr False \<Rightarrow> Inr []
      | Inr True \<Rightarrow> rmap (\<lambda>ps. case ps of None \<Rightarrow> [] | Some ps \<Rightarrow> ps) (load (app @ ''.routing'')))"

text \<open>Route discovery is the contributions of the installed apps, in their order: an app without a
  routing module contributes nothing, and the first routing module that fails to import is re-raised, never
  skipped.\<close>

theorem collect_is_concat:
  "collect_websocket_urlpatterns find_spec load apps = rmap concat (rmapM (contribution find_spec load) apps)"
proof (induction apps)
  case Nil
  then show ?case by simp
next
  case (Cons app apps)
  have comp: "rmap concat (rmap ((#) x) r) = rmap ((@) x) (rmap concat r)" for x :: "'a list" and r
    by (cases r) auto
  show ?case
  proof (cases "find_spec (app @ ''.routing'')")
    case (Inl e)
    have "rmap ((@) []) r = r" for r :: "'a list res" by (cases r) auto
    with Inl Cons show ?thesis by (auto simp: contribution_def Let_def comp)
  next
    case (Inr found)
    have "rmap ((@) []) r = r" for r :: "'a list res" by (cases r) auto
    with Inr Cons show ?thesis
      by (cases found; cases "load (app @ ''.routing'')") (auto simp: contribution_def Let_def comp)
  qed
qed

text \<open>Every application the assembly builds puts the origin guard around the whole socket half, with
  the JWT stack directly inside it unless authentication was turned off, and routes HTTP only when an HTTP
  application was given.\<close>

theorem build_always_guarded:
  "build_websocket_application discovered patterns http origins auth = Inr app \<longleftrightarrow>
     (\<exists>ps. (case patterns of None \<Rightarrow> discovered | Some qs \<Rightarrow> Inr qs) = Inr ps \<and>
        app = ProtocolRouter ((''websocket'', OriginGuard origins (if auth then JWTAuth (URLRouter ps) else URLRouter ps)) #
          map (\<lambda>h. (''http'', HttpApp h)) (case http of None \<Rightarrow> [] | Some h \<Rightarrow> [h])))"
  by (auto simp: build_websocket_application_def rmap_eq_Inr_iff Let_def split: option.splits)

end
