(* ===== verification/Checks.thy ===== *)
theory Checks
  imports Asgi "HOL-Library.Sublist"
begin

text \<open>
  The system checks, \<open>checks.py\<close>. A check answers a list of messages or raises; of a message the
  severity and the id are modelled, its wording is not. The Django settings, the environment and the
  settings of this package are the record \<open>host\<close>; the value of redis-py's default timeout and the
  routes of the installed apps are parameters.
\<close>

section \<open>Messages\<close>

datatype severity = WARNING | ERROR_LEVEL

fun severity_number :: "severity \<Rightarrow> nat" where
  "severity_number WARNING = 30"
| "severity_number ERROR_LEVEL = 40"

instantiation severity :: linorder
begin

definition less_eq_severity :: "severity \<Rightarrow> severity \<Rightarrow> bool" where
  "less_eq_severity a b \<longleftrightarrow> severity_number a \<le> severity_number b"

definition less_severity :: "severity \<Rightarrow> severity \<Rightarrow> bool" where
  "less_severity a b \<longleftrightarrow> severity_number a < severity_number b"

instance
proof
  fix a b :: severity
  show "a \<le> b \<Longrightarrow> b \<le> a \<Longrightarrow> a = b"
    by (cases a; cases b) (simp_all add: less_eq_severity_def)
qed (auto simp: less_eq_severity_def less_severity_def)

end

record message =
  msg_level :: severity
  msg_id :: string

definition check_error :: "string \<Rightarrow> message" where
  "check_error i = \<lparr>msg_level = ERROR_LEVEL, msg_id = i\<rparr>"

definition check_warning :: "string \<Rightarrow> message" where
  "check_warning i = \<lparr>msg_level = WARNING, msg_id = i\<rparr>"

section \<open>What the checks read\<close>

record host =
  django :: pydict
  environ :: "(string \<times> string) list"
  package :: settings

definition WORKER_ENV_VARS :: "string list" where
  "WORKER_ENV_VARS = [''WEB_CONCURRENCY'', ''UVICORN_WORKERS'', ''GUNICORN_WORKERS'']"

definition IN_MEMORY :: string where
  "IN_MEMORY = ''channels.layers.InMemoryChannelLayer''"

text \<open>The first variable that is set and holds an integer.\<close>

fun worker_count_of :: "string list \<Rightarrow> (string \<times> string) list \<Rightarrow> int" where
  "worker_count_of [] e = 1"
| "worker_count_of (name # names) e =
     (case map_of e name of
        None \<Rightarrow> worker_count_of names e
      | Some raw \<Rightarrow>
          if raw = [] then worker_count_of names e
          else (case py_int_str raw of Inr n \<Rightarrow> n | Inl _ \<Rightarrow> worker_count_of names e))"

definition worker_count :: "(string \<times> string) list \<Rightarrow> int" where
  "worker_count e = worker_count_of WORKER_ENV_VARS e"

text \<open>\<open>v.get(k)\<close>, and \<open>s in v\<close> for a text \<open>s\<close>.\<close>

definition py_get :: "pyval \<Rightarrow> string \<Rightarrow> pyval res" where
  "py_get v k = (case v of PDict d \<Rightarrow> Inr (dict_get d k) | _ \<Rightarrow> Inl AttributeError)"

fun py_contains :: "string \<Rightarrow> pyval \<Rightarrow> bool res" where
  "py_contains s (PStr t) = Inr (sublist s t)"
| "py_contains s (PList vs) = Inr (PStr s \<in> set vs)"
| "py_contains s (PDict d) = Inr (s \<in> set (map fst d))"
| "py_contains s _ = Inl TypeError"

definition or_dict :: "pyval \<Rightarrow> pyval" where
  "or_dict v = py_or v (PDict [])"

definition default_layer :: "host \<Rightarrow> pyval res" where
  "default_layer h = rmap or_dict (py_get (or_dict (dict_get (django h) ''CHANNEL_LAYERS'')) ''default'')"

section \<open>The checks\<close>

definition check_channel_layer :: "host \<Rightarrow> message list res" where
  "check_channel_layer h =
     rbind (default_layer h) (\<lambda>layer.
       if \<not> truthy layer then Inr [check_warning ''realtime.W001'']
       else rbind (py_get layer ''BACKEND'') (\<lambda>backend.
         Inr (if backend = PStr IN_MEMORY \<and> 1 < worker_count (environ h)
              then [check_error ''realtime.E001''] else [])))"

text \<open>The library's constant: absent without redis-py.\<close>

definition redis_library_default_timeout :: "pyval option \<Rightarrow> pyfloat option res" where
  "redis_library_default_timeout lib =
     (case lib of
        None \<Rightarrow> Inr None
      | Some v \<Rightarrow>
          if v = PNone then Inr None
          else (case py_float v of
                  Inr f \<Rightarrow> Inr (Some f)
                | Inl e \<Rightarrow> if e = TypeError \<or> e = ValueError then Inr None else Inl e))"

text \<open>The loop over the sources: whether a timeout is stated anywhere, and how many are below the
  floor.\<close>

fun scan_sources :: "pyfloat \<Rightarrow> pyval list \<Rightarrow> (bool \<times> nat) res" where
  "scan_sources flr [] = Inr (False, 0)"
| "scan_sources flr (source # rest) =
     rbind (py_contains ''socket_timeout'' source) (\<lambda>stated.
     rbind (py_get source ''socket_timeout'') (\<lambda>timeout.
     rbind (if timeout = PNone then Inr False else rmap (\<lambda>f. pf_lt f flr) (py_float timeout)) (\<lambda>low.
       rmap (\<lambda>(st, n). (stated \<or> st, if low then n + 1 else n)) (scan_sources flr rest))))"

definition is_dict :: "pyval \<Rightarrow> bool" where
  "is_dict v = (case v of PDict _ \<Rightarrow> True | _ \<Rightarrow> False)"

definition layer_sources :: "pyval \<Rightarrow> pyval list res" where
  "layer_sources config =
     rbind (py_get config ''connection_kwargs'') (\<lambda>kwargs.
       rmap (\<lambda>hosts. [config, or_dict kwargs] @
              (case hosts of PList hs \<Rightarrow> filter is_dict hs | _ \<Rightarrow> []))
         (py_get config ''hosts''))"

definition layer_floor :: "host \<Rightarrow> pyval \<Rightarrow> pyfloat res" where
  "layer_floor h config =
     rbind (case config of
              PDict d \<Rightarrow> py_float (case map_of d ''expiry'' of None \<Rightarrow> PInt 60 | Some v \<Rightarrow> v)
            | _ \<Rightarrow> Inl AttributeError)
       (\<lambda>expiry. let flr = LAYER_SOCKET_TIMEOUT_MIN (package h)
          in if flr \<noteq> PNone then py_float flr else Inr (pf_add expiry (Fin 10)))"

definition check_layer_socket_timeout :: "pyval option \<Rightarrow> host \<Rightarrow> message list res" where
  "check_layer_socket_timeout lib h =
     rbind (default_layer h) (\<lambda>layer.
     rbind (py_get layer ''BACKEND'') (\<lambda>backend.
     rbind (py_contains ''channels_redis'' (py_or backend (PStr []))) (\<lambda>redis.
       if \<not> redis then Inr []
       else rbind (rmap or_dict (py_get layer ''CONFIG'')) (\<lambda>config.
            rbind (layer_floor h config) (\<lambda>flr.
            rbind (layer_sources config) (\<lambda>sources.
            rbind (scan_sources flr sources) (\<lambda>(stated, low).
              if low \<noteq> 0 \<or> stated then Inr (replicate low (check_error ''realtime.E002''))
              else rmap (\<lambda>inherited.
                     case inherited of
                       None \<Rightarrow> []
                     | Some f \<Rightarrow> if pf_lt f flr then [check_error ''realtime.E002''] else [])
                   (redis_library_default_timeout lib))))))))"

fun malformed_entries :: "pyval list \<Rightarrow> message list res" where
  "malformed_entries [] = Inr []"
| "malformed_entries (entry # rest) =
     (case normalize_origin entry of
        Inr _ \<Rightarrow> malformed_entries rest
      | Inl e \<Rightarrow>
          if e = ValueError \<or> e = AttributeError
          then rmap ((#) (check_error ''realtime.E003'')) (malformed_entries rest) else Inl e)"

definition check_allowed_origins :: "site_registry \<Rightarrow> host \<Rightarrow> message list res" where
  "check_allowed_origins reg h =
     (let raw = py_or (ALLOWED_ORIGINS (package h)) (PList [])
      in rbind (if truthy raw then Inr False else rmap (\<lambda>os. os = []) (site_registry_origins reg)) (\<lambda>unguarded.
           if unguarded then Inr [check_warning ''realtime.W002'']
           else rbind (py_list raw) malformed_entries))"

definition check_heartbeat :: "host \<Rightarrow> message list res" where
  "check_heartbeat h =
     rmap (\<lambda>f. if pf_lt (Fin 0) f then [] else [check_warning ''realtime.W003''])
       (heartbeat_interval (package h))"

definition slash :: char where
  "slash = CHR ''/''"

definition outside_prefix :: "string \<Rightarrow> string \<Rightarrow> bool" where
  "outside_prefix p route \<longleftrightarrow>
     route \<noteq> [] \<and> \<not> prefix (p @ [slash]) (dropWhile (\<lambda>c. c = slash) route)"

definition check_route_prefix :: "(pyval \<Rightarrow> string) \<Rightarrow> string list res \<Rightarrow> host \<Rightarrow> message list res" where
  "check_route_prefix rp routes h =
     (let p = strip_with (\<lambda>c. c = slash) (url_prefix rp (django h))
      in rmap (\<lambda>rs. map (\<lambda>_. check_warning ''realtime.W004'') (filter (outside_prefix p) rs)) routes)"

definition check_bare_url_prefix :: "host \<Rightarrow> message list res" where
  "check_bare_url_prefix h =
     Inr (if ''URL_PREFIX'' \<in> set (map fst (overrides (django h))) then []
          else if ''URL_PREFIX'' \<notin> set (map fst (django h)) then []
          else [check_warning ''realtime.W007''])"

definition presence_cache_backend :: "(pyval \<Rightarrow> string) \<Rightarrow> host \<Rightarrow> string res" where
  "presence_cache_backend rp h =
     rbind (rmap or_dict (py_get (or_dict (dict_get (django h) ''CACHES'')) ''default'')) (\<lambda>e.
       rmap (\<lambda>b. py_str rp (py_or b (PStr []))) (py_get e ''BACKEND''))"

definition strict_ttl :: "host \<Rightarrow> int res" where
  "strict_ttl h = py_int (py_or (PRESENCE_TTL_S (package h)) (PInt 0))"

definition check_presence_cache :: "(pyval \<Rightarrow> string) \<Rightarrow> host \<Rightarrow> message list res" where
  "check_presence_cache rp h =
     rbind (strict_ttl h) (\<lambda>ttl.
       if ttl \<le> 0 then Inr []
       else rmap (\<lambda>backend.
              if sublist ''locmem'' backend then [check_warning ''realtime.W005'']
              else if sublist ''dummy'' backend then [check_warning ''realtime.W005''] else [])
            (presence_cache_backend rp h))"

definition check_presence_ttl :: "host \<Rightarrow> message list res" where
  "check_presence_ttl h =
     rbind (strict_ttl h) (\<lambda>ttl.
       if ttl \<le> 0 then Inr [check_warning ''realtime.W006'']
       else rmap (\<lambda>f. if pf_le f (Fin 0) then []
              else if pf_le (Fin (of_int ttl)) f then [check_warning ''realtime.W006''] else [])
            (heartbeat_interval (package h)))"

text \<open>The checks in the order in which they are registered.\<close>

definition ALL_CHECKS :: "pyval option \<Rightarrow> site_registry \<Rightarrow> (pyval \<Rightarrow> string) \<Rightarrow> string list res \<Rightarrow>
    (host \<Rightarrow> message list res) list" where
  "ALL_CHECKS lib reg rp routes =
     [check_channel_layer, check_layer_socket_timeout lib, check_allowed_origins reg, check_heartbeat,
      check_route_prefix rp routes, check_bare_url_prefix, check_presence_cache rp, check_presence_ttl]"

definition register_checks :: "((host \<Rightarrow> message list res) \<Rightarrow> 'r \<Rightarrow> 'r) \<Rightarrow>
    pyval option \<Rightarrow> site_registry \<Rightarrow> (pyval \<Rightarrow> string) \<Rightarrow> string list res \<Rightarrow> 'r \<Rightarrow> 'r" where
  "register_checks register lib reg rp routes r = foldl (\<lambda>r c. register c r) r (ALL_CHECKS lib reg rp routes)"


section \<open>Lemmas\<close>

definition malformed :: "pyval \<Rightarrow> bool" where
  "malformed v \<longleftrightarrow> (\<exists>e. normalize_origin v = Inl e)"

lemma malformed_entries_result:
  "malformed_entries vs = Inr (replicate (length (filter malformed vs)) (check_error ''realtime.E003''))"
proof (induction vs)
  case Nil
  then show ?case by simp
next
  case (Cons v vs)
  then show ?case
    using normalize_origin_errors [of v] by (cases "normalize_origin v") (auto simp: malformed_def)
qed

text \<open>An entry admits an origin when both normalize, to the same text. A malformed entry admits none, and any
  other one admits the origin it is.\<close>

definition admits :: "pyval \<Rightarrow> string \<Rightarrow> bool" where
  "admits entry origin \<longleftrightarrow> (\<exists>n. normalize_origin entry = Inr n \<and> normalize_text origin = Inr n)"

lemma malformed_admits_none: "malformed entry \<longleftrightarrow> (\<forall>origin. \<not> admits entry origin)"
proof -
  have "normalize_origin entry = Inr n \<Longrightarrow> \<exists>origin. normalize_text origin = Inr n" for n
    by (auto simp: normalize_origin_def split: pyval.splits)
  then show ?thesis by (cases "normalize_origin entry") (auto simp: malformed_def admits_def)
qed

text \<open>What a source states: nothing, blocking, or a timeout.\<close>

definition states_timeout :: "pydict \<Rightarrow> bool" where
  "states_timeout d \<longleftrightarrow> ''socket_timeout'' \<in> set (map fst d)"

definition low_timeout :: "pyfloat \<Rightarrow> pydict \<Rightarrow> bool" where
  "low_timeout flr d \<longleftrightarrow>
     dict_get d ''socket_timeout'' \<noteq> PNone \<and>
     (\<exists>f. py_float (dict_get d ''socket_timeout'') = Inr f \<and> pf_lt f flr)"

definition readable_timeout :: "pydict \<Rightarrow> bool" where
  "readable_timeout d \<longleftrightarrow>
     dict_get d ''socket_timeout'' = PNone \<or> (\<exists>f. py_float (dict_get d ''socket_timeout'') = Inr f)"

lemma scan_sources_dicts:
  "list_all readable_timeout ds \<Longrightarrow>
     scan_sources flr (map PDict ds) = Inr (list_ex states_timeout ds, length (filter (low_timeout flr) ds))"
proof (induction ds)
  case Nil
  then show ?case by simp
next
  case (Cons d ds)
  have "(if dict_get d ''socket_timeout'' = PNone then Inr False
      else rmap (\<lambda>f. pf_lt f flr) (py_float (dict_get d ''socket_timeout''))) = (Inr (low_timeout flr d) :: bool res)"
    using Cons.prems by (auto simp: low_timeout_def readable_timeout_def)
  with Cons show ?case by (simp add: py_get_def states_timeout_def)
qed

lemma strict_ttl_view:
  "strict_ttl h = Inr n \<Longrightarrow> check_presence_ttl h =
     (if n \<le> 0 then Inr [check_warning ''realtime.W006'']
      else rmap (\<lambda>f. if pf_le f (Fin 0) then []
              else if pf_le (Fin (of_int n)) f then [check_warning ''realtime.W006''] else [])
            (heartbeat_interval (package h)))"
  by (simp add: check_presence_ttl_def)

section \<open>Properties\<close>

text \<open>C38: The origin check and the origin guard agree. For a non-empty setting the check reports one error per
  configured entry that is malformed; the guard is on, its list is exactly what the other entries, and those of the
  site registry, normalize to, and it lets a browser's handshake pass exactly when its origin normalizes as
  one of them does. So the entries the check reports are those that admit no origin at all, and when it reports
  nothing every entry admits the origins it names.\<close>

theorem origin_check_agrees_with_guard:
  assumes "truthy (ALLOWED_ORIGINS (package h))" and "py_list (ALLOWED_ORIGINS (package h)) = Inr entries"
    and "site_registry_origins reg = Inr os"
    and conn: "conn_type conn = ''websocket''" "origin_header conn = Some origin"
  shows "check_allowed_origins reg h =
      Inr (replicate (length (filter malformed entries)) (check_error ''realtime.E003'')) \<and>
    (\<exists>ok. allowed (package h) reg None = Inr ok \<and>
       set ok = {n. \<exists>entry\<in>set entries \<union> PStr ` set os. normalize_origin entry = Inr n}) \<and>
    guard_call (package h) reg None conn =
      Inr (if \<exists>entry\<in>set entries \<union> PStr ` set os. admits entry origin then PassOn else Refuse CLOSE_FORBIDDEN) \<and>
    (malformed entry \<longleftrightarrow> (\<forall>o'. \<not> admits entry o'))"
proof -
  have raw: "py_or (ALLOWED_ORIGINS (package h)) (PList []) = ALLOWED_ORIGINS (package h)"
    using assms(1) by (simp add: py_or_def)
  have check: "check_allowed_origins reg h = malformed_entries entries"
    using assms raw by (simp add: check_allowed_origins_def Let_def)
  have conf: "configured (package h) reg None = Inr (union_origins entries os)"
    using assms raw by (simp add: configured_def)
  have "entries \<noteq> []" using assms(1,2) by (cases "ALLOWED_ORIGINS (package h)") auto
  then have nonempty: "union_origins entries os \<noteq> []"
    using union_origins_set [of entries os] by (metis Un_empty set_empty)
  obtain ns where ns: "parse_entries (union_origins entries os) = Inr ns"
    "set ns = {n. \<exists>v\<in>set (union_origins entries os). normalize_origin v = Inr n}"
    using parse_entries_set by blast
  then have ok: "allowed (package h) reg None = Inr ns"
    "set ns = {n. \<exists>entry\<in>set entries \<union> PStr ` set os. normalize_origin entry = Inr n}"
    using conf by (simp_all add: allowed_def union_origins_set)
  have "guard_call (package h) reg None conn =
      Inr (if \<exists>entry\<in>set entries \<union> PStr ` set os. admits entry origin then PassOn else Refuse CLOSE_FORBIDDEN)"
  proof (cases "normalize_text origin")
    case (Inl e)
    then show ?thesis
      using normalize_text_errors [OF Inl] conn conf nonempty ok by (simp add: guard_call_def admits_def)
  next
    case (Inr n)
    then show ?thesis
      using conn conf nonempty ok by (simp add: guard_call_def admits_def)
  qed
  then show ?thesis
    using check ok malformed_admits_none [of entry] unfolding malformed_entries_result by blast
qed

definition sample_host :: host where
  "sample_host = \<lparr>django = [], environ = [],
     package = defaults\<lparr>ALLOWED_ORIGINS := PList [PStr ''http://studio.localhost:80'', PInt 3]\<rparr>\<rparr>"

theorem origin_check_agrees_with_guard_witness:
  "check_allowed_origins NoRegistry sample_host =
      Inr (replicate (length (filter malformed [PStr ''http://studio.localhost:80'', PInt 3]))
        (check_error ''realtime.E003'')) \<and>
    guard_call (package sample_host) NoRegistry None
        \<lparr>conn_type = ''websocket'', conn_headers = [(''origin'', ''http://studio.localhost:80'')]\<rparr> = Inr PassOn"
proof -
  let ?conn = "\<lparr>conn_type = ''websocket'', conn_headers = [(''origin'', ''http://studio.localhost:80'')]\<rparr>"
  let ?entries = "[PStr ''http://studio.localhost:80'', PInt 3]"
  obtain n where "normalize_text ''http://studio.localhost:80'' = Inr n"
    using known_plain(1) by simp
  then have "admits (PStr ''http://studio.localhost:80'') ''http://studio.localhost:80''"
    by (simp add: admits_def normalize_origin_def)
  then show ?thesis
    using origin_check_agrees_with_guard [of sample_host ?entries NoRegistry "[]" ?conn "''http://studio.localhost:80''"]
    by (simp add: sample_host_def defaults_def site_registry_origins_def origin_header_def)
qed

lemma socket_timeout_verdict:
  assumes "default_layer h = Inr (PDict layer)" and "dict_get layer ''BACKEND'' = PStr backend"
    and "sublist ''channels_redis'' backend" and "dict_get layer ''CONFIG'' = PDict config" "config \<noteq> []"
    and "layer_floor h (PDict config) = Inr flr"
    and "layer_sources (PDict config) = Inr (map PDict ds)" "list_all readable_timeout ds"
    and "redis_library_default_timeout lib = Inr inherited"
  shows "check_layer_socket_timeout lib h =
    Inr (replicate
      (if list_ex states_timeout ds then length (filter (low_timeout flr) ds)
       else (case inherited of None \<Rightarrow> 0 | Some f \<Rightarrow> if pf_lt f flr then 1 else 0))
      (check_error ''realtime.E002''))"
proof -
  have "py_or (PStr backend) (PStr []) = PStr backend" by (simp add: py_or_def)
  then have run: "check_layer_socket_timeout lib h =
      rbind (scan_sources flr (map PDict ds)) (\<lambda>(stated, low).
        if low \<noteq> 0 \<or> stated then Inr (replicate low (check_error ''realtime.E002''))
        else rmap (\<lambda>inherited.
               case inherited of
                 None \<Rightarrow> []
               | Some f \<Rightarrow> if pf_lt f flr then [check_error ''realtime.E002''] else [])
             (redis_library_default_timeout lib))"
    using assms by (simp add: check_layer_socket_timeout_def py_get_def or_dict_def py_or_def)
  have "states_timeout d" if "low_timeout flr d" for d
    using that map_of_eq_None_iff [of d "''socket_timeout''"]
    by (simp add: low_timeout_def states_timeout_def dict_get_def split: option.splits)
  then have none: "\<not> list_ex states_timeout ds \<Longrightarrow> length (filter (low_timeout flr) ds) = 0"
    by (auto simp: list_ex_iff filter_empty_conv)
  show ?thesis
  proof (cases "list_ex states_timeout ds")
    case True
    then show ?thesis unfolding run scan_sources_dicts [OF assms(8)] rbind_simps by simp
  next
    case False
    then show ?thesis
      unfolding run scan_sources_dicts [OF assms(8)] rbind_simps none [OF False] assms(9)
      by (simp split: option.splits)
  qed
qed

text \<open>What the socket-timeout check says of a redis layer whose configuration is dictionaries and
  readable timeouts: one error per source that states a timeout below the floor, and, only when no source at
  all states one, one error if the installed library's default is below it.\<close>

theorem socket_timeout_check_verdict:
  assumes "default_layer h = Inr (PDict layer)" and "dict_get layer ''BACKEND'' = PStr backend"
    and "sublist ''channels_redis'' backend" and "dict_get layer ''CONFIG'' = PDict config" "config \<noteq> []"
    and "layer_floor h (PDict config) = Inr flr"
    and "layer_sources (PDict config) = Inr (map PDict ds)" "list_all readable_timeout ds"
    and "redis_library_default_timeout lib = Inr inherited"
  shows "check_layer_socket_timeout lib h =
    Inr (replicate
      (if list_ex states_timeout ds then length (filter (low_timeout flr) ds)
       else (case inherited of None \<Rightarrow> 0 | Some f \<Rightarrow> if pf_lt f flr then 1 else 0))
      (check_error ''realtime.E002''))"
  using assms by (rule socket_timeout_verdict)

text \<open>Two redis hosts, of which only one states its timeout.\<close>

definition redis_host :: "pydict list \<Rightarrow> host" where
  "redis_host hosts = \<lparr>django = [(''CHANNEL_LAYERS'', PDict [(''default'', PDict
       [(''BACKEND'', PStr ''channels_redis.core.RedisChannelLayer''),
        (''CONFIG'', PDict [(''hosts'', PList (map PDict hosts))])])])],
     environ = [], package = defaults\<rparr>"

lemma redis_host_reads:
  "default_layer (redis_host hosts) = Inr (PDict
     [(''BACKEND'', PStr ''channels_redis.core.RedisChannelLayer''),
      (''CONFIG'', PDict [(''hosts'', PList (map PDict hosts))])])"
  "layer_floor (redis_host hosts) (PDict [(''hosts'', PList (map PDict hosts))]) = Inr (Fin 70)"
  "layer_sources (PDict [(''hosts'', PList (map PDict hosts))]) =
     Inr (map PDict ([(''hosts'', PList (map PDict hosts))] # [] # hosts))"
proof -
  have "filter is_dict (map PDict hosts) = map PDict hosts" for hosts
    by (induction hosts) (auto simp: is_dict_def)
  then show "layer_sources (PDict [(''hosts'', PList (map PDict hosts))]) =
     Inr (map PDict ([(''hosts'', PList (map PDict hosts))] # [] # hosts))"
    by (simp add: layer_sources_def py_get_def or_dict_def py_or_def)
qed (simp_all add: default_layer_def redis_host_def py_get_def or_dict_def py_or_def layer_floor_def Let_def
    defaults_def float_limit_def)

theorem socket_timeout_check_verdict_witness:
  "check_layer_socket_timeout (Some (PInt 5)) (redis_host [[(''socket_timeout'', PInt 5)]]) =
    Inr (replicate
      (if list_ex states_timeout ([(''hosts'', PList (map PDict [[(''socket_timeout'', PInt 5)]]))] # [] #
            [[(''socket_timeout'', PInt 5)]])
       then length (filter (low_timeout (Fin 70))
              ([(''hosts'', PList (map PDict [[(''socket_timeout'', PInt 5)]]))] # [] # [[(''socket_timeout'', PInt 5)]]))
       else (case Some (Fin 5) of None \<Rightarrow> 0 | Some f \<Rightarrow> if pf_lt f (Fin 70) then 1 else 0))
      (check_error ''realtime.E002''))"
proof (rule socket_timeout_check_verdict [OF redis_host_reads(1) _ _ _ _ redis_host_reads(2,3)])
  show "sublist ''channels_redis'' ''channels_redis.core.RedisChannelLayer''" by code_simp
qed (simp_all add: readable_timeout_def float_limit_def redis_library_default_timeout_def)

text \<open>One stated timeout hides the inherited one of the others: with two redis hosts of which one
  restores blocking reads and the other states nothing, the check is silent, although the second inherits the
  library's five seconds, the configuration the check exists to report (and does report when neither states
  anything).\<close>

theorem stated_timeout_masks_inherited:
  "check_layer_socket_timeout (Some (PInt 5))
     (redis_host [[(''address'', PStr ''redis://a''), (''socket_timeout'', PNone)], [(''address'', PStr ''redis://b'')]]) =
     Inr [] \<and>
   check_layer_socket_timeout (Some (PInt 5))
     (redis_host [[(''address'', PStr ''redis://a'')], [(''address'', PStr ''redis://b'')]]) =
     Inr [check_error ''realtime.E002'']"
proof -
  have c: "sublist ''channels_redis'' ''channels_redis.core.RedisChannelLayer''" by code_simp
  have lib: "redis_library_default_timeout (Some (PInt 5)) = Inr (Some (Fin 5))"
    by (simp add: redis_library_default_timeout_def float_limit_def)
  have verdict: "check_layer_socket_timeout (Some (PInt 5)) (redis_host hosts) =
    Inr (replicate
      (if list_ex states_timeout ([(''hosts'', PList (map PDict hosts))] # [] # hosts)
       then length (filter (low_timeout (Fin 70)) ([(''hosts'', PList (map PDict hosts))] # [] # hosts))
       else 1) (check_error ''realtime.E002''))"
    if "list_all readable_timeout ([(''hosts'', PList (map PDict hosts))] # [] # hosts)" for hosts
    using socket_timeout_verdict [OF redis_host_reads(1) _ c _ _ redis_host_reads(2,3) that lib]
    by simp
  show ?thesis
    using verdict [of "[[(''address'', PStr ''redis://a''), (''socket_timeout'', PNone)], [(''address'', PStr ''redis://b'')]]"]
      verdict [of "[[(''address'', PStr ''redis://a'')], [(''address'', PStr ''redis://b'')]]"]
    by (simp add: readable_timeout_def states_timeout_def low_timeout_def)
qed

text \<open>The lease check is exact about what it compares: for readable settings it is silent exactly when
  the registry is on and the heartbeat is off or strictly shorter than the lease; the answer timeout plays no
  part in it.\<close>

theorem presence_ttl_check_verdict:
  assumes "strict_ttl h = Inr n" and "heartbeat_interval (package h) = Inr (Fin i)"
  shows "check_presence_ttl h = Inr [] \<longleftrightarrow> 0 < n \<and> (i \<le> 0 \<or> i < of_int n)"
  using assms by (auto simp: strict_ttl_view)

theorem presence_ttl_check_verdict_witness:
  "check_presence_ttl sample_host = Inr [] \<longleftrightarrow> 0 < (60::int) \<and> ((25::rat) \<le> 0 \<or> (25::rat) < of_int (60::int))"
  by (rule presence_ttl_check_verdict)
     (simp_all add: sample_host_def strict_ttl_def defaults_def py_or_def heartbeat_interval_def float_limit_def)

text \<open>The fan-out check: with a configured layer it reports an error exactly when the layer is the
  in-memory one and the environment asks for more than one worker, and without one it warns; it is never
  silent on a deployment where a signal cannot reach another worker's sockets.\<close>

theorem channel_layer_check_verdict:
  "check_channel_layer h =
     rbind (default_layer h) (\<lambda>layer. rbind (if truthy layer then py_get layer ''BACKEND'' else Inr PNone) (\<lambda>backend.
       Inr (if \<not> truthy layer then [check_warning ''realtime.W001'']
            else if backend = PStr IN_MEMORY \<and> 1 < worker_count (environ h) then [check_error ''realtime.E001'']
            else [])))"
proof (cases "default_layer h")
  case (Inr layer)
  then show ?thesis by (cases "truthy layer") (simp_all add: check_channel_layer_def)
qed (simp add: check_channel_layer_def)

text \<open>A socket route is reported exactly when it is not mounted below the package's own prefix, the
  namespaced \<open>URL_PREFIX\<close> or \<open>ws\<close>; the bare Django setting of the same name never changes the verdict.\<close>

theorem route_check_ignores_bare_prefix:
  assumes "k \<noteq> namespace"
  shows "check_route_prefix rp (Inr routes) (h\<lparr>django := dict_set k v (django h)\<rparr>) =
      check_route_prefix rp (Inr routes) h \<and>
    (check_route_prefix rp (Inr routes) h = Inr [] \<longleftrightarrow>
       (\<forall>route\<in>set routes. route = [] \<or>
          prefix (strip_with (\<lambda>c. c = slash) (url_prefix rp (django h)) @ [slash])
            (dropWhile (\<lambda>c. c = slash) route)))"
  using url_prefix_ignores_flat [OF assms, of rp v "django h"]
  by (auto simp: check_route_prefix_def Let_def outside_prefix_def filter_empty_conv)

theorem route_check_ignores_bare_prefix_witness:
  "check_route_prefix (\<lambda>v. []) (Inr [''ws/chat/inbox'', ''chat/inbox''])
      (sample_host\<lparr>django := dict_set ''URL_PREFIX'' (PStr ''chat/'') (django sample_host)\<rparr>) =
      check_route_prefix (\<lambda>v. []) (Inr [''ws/chat/inbox'', ''chat/inbox'']) sample_host \<and>
    (check_route_prefix (\<lambda>v. []) (Inr [''ws/chat/inbox'', ''chat/inbox'']) sample_host = Inr [] \<longleftrightarrow>
       (\<forall>route\<in>set [''ws/chat/inbox'', ''chat/inbox'']. route = [] \<or>
          prefix (strip_with (\<lambda>c. c = slash) (url_prefix (\<lambda>v. []) (django sample_host)) @ [slash])
            (dropWhile (\<lambda>c. c = slash) route)))"
  by (rule route_check_ignores_bare_prefix) (simp add: namespace_def)

end
