(* ===== verification/Surface.thy ===== *)
theory Surface
  imports Presence Checks Delivery
begin

text \<open>
  The package's outer surface: the two comm Functions of \<open>functions.py\<close>, the lazy exports of the
  package module, and what \<open>apps.py\<close> registers when the host starts. The core validates a payload
  against the Function's schema before it calls, so a family is a text, null or absent; importing a
  submodule is a parameter.
\<close>

section \<open>The comm Functions\<close>

text \<open>An identifier as the presence module uses it: absent, or known by its text.\<close>

definition payload_ident :: "(pyval \<Rightarrow> string) \<Rightarrow> pyval \<Rightarrow> ident option" where
  "payload_ident rp v =
     (case v of PNone \<Rightarrow> None | PInt i \<Rightarrow> Some (IdInt i) | PStr s \<Rightarrow> Some (IdStr s) | _ \<Rightarrow> Some (IdObj (py_str rp v)))"

definition payload_family :: "pydict \<Rightarrow> string option" where
  "payload_family d = (case dict_get d ''family'' of PStr f \<Rightarrow> if f = [] then None else Some f | _ \<Rightarrow> None)"

definition function_is_live :: "'c cache_ops \<Rightarrow> settings \<Rightarrow> (string \<Rightarrow> string) \<Rightarrow> (pyval \<Rightarrow> string) \<Rightarrow> rat \<Rightarrow>
    pydict \<Rightarrow> 'c option \<Rightarrow> snapshot res" where
  "function_is_live ops st sha rp now payload store =
     (case map_of payload ''user_id'' of
        None \<Rightarrow> Inl KeyError
      | Some v \<Rightarrow> is_live ops st sha now (payload_ident rp v) (payload_family payload) store)"

definition function_live_batch :: "'c cache_ops \<Rightarrow> settings \<Rightarrow> (string \<Rightarrow> string) \<Rightarrow> (pyval \<Rightarrow> string) \<Rightarrow> rat \<Rightarrow>
    pydict \<Rightarrow> 'c option \<Rightarrow> (string \<times> (string \<times> snapshot) list) list res" where
  "function_live_batch ops st sha rp now payload store =
     rbind (py_list (py_or (dict_get payload ''user_ids'') (PList []))) (\<lambda>ids.
       rmap (\<lambda>users. [(''users'', users)])
         (live_batch ops st sha now (map (payload_ident rp) ids) (payload_family payload) store))"

section \<open>The package module\<close>

definition LAZY_EXPORTS :: "(string \<times> string) list" where
  "LAZY_EXPORTS =
     [(''realtime_settings'', ''.conf''), (''deliver'', ''.delivery''), (''deliver_frame'', ''.delivery''),
      (''revoke'', ''.delivery''), (''BaseStreamConsumer'', ''.consumers''),
      (''EphemeralStreamConsumer'', ''.consumers''), (''ResumableStreamConsumer'', ''.consumers''),
      (''JournalRow'', ''.consumers''), (''WorkspaceCapability'', ''.authorize''), (''is_live'', ''.presence''),
      (''live_batch'', ''.presence''), (''build_websocket_application'', ''.asgi''),
      (''collect_websocket_urlpatterns'', ''.asgi''), (''StreamKey'', ''.streams''),
      (''InvalidStreamKey'', ''.streams''), (''build_stream_key'', ''.streams''),
      (''parse_stream_key'', ''.streams''), (''workspace_stream'', ''.streams''), (''group_name'', ''.streams''),
      (''WIRE_VERSION'', ''.envelope''), (''Frame'', ''.envelope''), (''InvalidEnvelope'', ''.envelope''),
      (''frame'', ''.envelope''), (''parse_frame'', ''.envelope'')]"

definition ALL_EXPORTS :: "string list" where
  "ALL_EXPORTS =
     [''realtime_settings'', ''deliver'', ''deliver_frame'', ''revoke'', ''BaseStreamConsumer'',
      ''EphemeralStreamConsumer'', ''ResumableStreamConsumer'', ''JournalRow'', ''WorkspaceCapability'',
      ''is_live'', ''live_batch'', ''build_websocket_application'', ''collect_websocket_urlpatterns'',
      ''StreamKey'', ''InvalidStreamKey'', ''build_stream_key'', ''parse_stream_key'', ''workspace_stream'',
      ''group_name'', ''WIRE_VERSION'', ''Frame'', ''InvalidEnvelope'', ''frame'', ''parse_frame'']"

text \<open>\<open>__getattr__\<close>, called for a name that is not in the module's globals: the value and the
  globals that cache it.\<close>

definition module_getattr :: "(string \<Rightarrow> string \<Rightarrow> 'v res) \<Rightarrow> string \<Rightarrow> (string \<times> 'v) list \<Rightarrow>
    'v res \<times> (string \<times> 'v) list" where
  "module_getattr load name globals =
     (case map_of LAZY_EXPORTS name of
        None \<Rightarrow> (Inl AttributeError, globals)
      | Some submodule \<Rightarrow>
          (case load submodule name of
             Inl e \<Rightarrow> (Inl e, globals)
           | Inr value \<Rightarrow> (Inr value, dict_set name value globals)))"

text \<open>Python's access to an attribute of the module.\<close>

definition module_attribute :: "(string \<Rightarrow> string \<Rightarrow> 'v res) \<Rightarrow> string \<Rightarrow> (string \<times> 'v) list \<Rightarrow>
    'v res \<times> (string \<times> 'v) list" where
  "module_attribute load name globals =
     (case map_of globals name of
        Some value \<Rightarrow> (Inr value, globals)
      | None \<Rightarrow> module_getattr load name globals)"

definition module_dir :: "(string \<times> 'v) list \<Rightarrow> string list" where
  "module_dir globals = sort (remdups (map fst globals @ ALL_EXPORTS))"

section \<open>Start-up\<close>

text \<open>\<open>RealtimeConfig.ready\<close>: the Functions register themselves on import, then the checks and the
  transport are registered.\<close>

definition FUNCTION_NAMES :: "string list" where
  "FUNCTION_NAMES = [''realtime.is_live'', ''realtime.live_batch'']"

definition ready_app :: "('r \<Rightarrow> 'r) \<Rightarrow> ('r \<Rightarrow> 'r) \<Rightarrow> ('r \<Rightarrow> 'r) \<Rightarrow> 'r \<Rightarrow> 'r" where
  "ready_app import_functions checks transport r = transport (checks (import_functions r))"

section \<open>Properties\<close>

text \<open>The batch Function and the single one agree: over a batch that holds a user, the batch answers for
  that user exactly what the single Function answers for the same user and family at the same time, unless a
  single read raises; above the cap it raises \<open>ValueError\<close>.\<close>

theorem functions_agree:
  assumes "batch_agrees ops" "presence_ttl st = Inr ttl"
    and ids: "dict_get payload ''user_ids'' = PList ids" "v \<in> set ids" "payload_ident rp v = Some u"
    and one: "map_of single ''user_id'' = Some v" "payload_family single = payload_family payload"
  shows "if MAX_BATCH < length (List.map_filter id (map (payload_ident rp) ids))
    then function_live_batch ops st sha rp now payload store = Inl ValueError
    else (\<exists>users s. function_live_batch ops st sha rp now payload store = Inr [(''users'', users)] \<and>
        map_of users (ident_str u) = Some s \<and> function_is_live ops st sha rp now single store = Inr s) \<or>
      (\<exists>w e. payload_ident rp w \<noteq> None \<and> w \<in> set ids \<and>
         is_live ops st sha now (payload_ident rp w) (payload_family payload) store = Inl e)"
proof -
  let ?ids = "map (payload_ident rp) ids"
  have "ids \<noteq> []" using ids(2) by auto
  then have list: "py_list (py_or (dict_get payload ''user_ids'') (PList [])) = Inr ids"
    using ids(1) by (simp add: py_or_def)
  have mem: "w \<in> set (List.map_filter id ?ids) \<longleftrightarrow> (\<exists>x\<in>set ids. payload_ident rp x = Some w)" for w
    by (force simp: List.map_filter_def image_iff)
  have u: "u \<in> set (List.map_filter id ?ids)" using mem ids by auto
  have single: "function_is_live ops st sha rp now single store =
      is_live ops st sha now (Some u) (payload_family payload) store"
    using one ids(3) by (simp add: function_is_live_def)
  note batch = live_batch_single [OF assms(1,2), of ?ids sha now "payload_family payload" store]
  show ?thesis
  proof (cases "MAX_BATCH < length (List.map_filter id ?ids)")
    case True
    with batch list show ?thesis by (simp add: function_live_batch_def)
  next
    case False
    with batch consider (all) ys where
        "live_batch ops st sha now ?ids (payload_family payload) store = Inr ys"
        "\<forall>u\<in>set (List.map_filter id ?ids). \<exists>s. map_of ys (ident_str u) = Some s \<and>
           is_live ops st sha now (Some u) (payload_family payload) store = Inr s"
      | (raised) w e where "w \<in> set (List.map_filter id ?ids)"
        "is_live ops st sha now (Some w) (payload_family payload) store = Inl e"
      by auto
    then show ?thesis
    proof cases
      case all
      then obtain s where "map_of ys (ident_str u) = Some s"
        "is_live ops st sha now (Some u) (payload_family payload) store = Inr s" using u by blast
      with all list single False show ?thesis by (simp add: function_live_batch_def)
    next
      case raised
      then obtain x where "x \<in> set ids" "payload_ident rp x = Some w" using mem by auto
      with raised False show ?thesis by auto
    qed
  qed
qed

theorem functions_agree_witness:
  "if MAX_BATCH < length (List.map_filter id (map (payload_ident (\<lambda>v. [])) [PStr ''u'']))
    then function_live_batch sample_cache defaults id (\<lambda>v. []) 10 [(''user_ids'', PList [PStr ''u''])] (Some []) =
      Inl ValueError
    else (\<exists>users s. function_live_batch sample_cache defaults id (\<lambda>v. []) 10
          [(''user_ids'', PList [PStr ''u''])] (Some []) = Inr [(''users'', users)] \<and>
        map_of users (ident_str (IdStr ''u'')) = Some s \<and>
        function_is_live sample_cache defaults id (\<lambda>v. []) 10 [(''user_id'', PStr ''u'')] (Some []) = Inr s) \<or>
      (\<exists>w e. payload_ident (\<lambda>v. []) w \<noteq> None \<and> w \<in> set [PStr ''u''] \<and>
         is_live sample_cache defaults id 10 (payload_ident (\<lambda>v. []) w)
           (payload_family [(''user_ids'', PList [PStr ''u''])]) (Some []) = Inl e)"
  by (rule functions_agree [OF sample_cache_works(2) presence_ttl_defaults])
     (simp_all add: payload_ident_def payload_family_def)

text \<open>The lazy exports are exactly the public names, each defined by one submodule; an access loads the
  submodule once and caches the value, so a second access reads the cache and leaves it as it is, and any other
  name is an \<open>AttributeError\<close> that loads nothing.\<close>

theorem lazy_exports_complete:
  "map fst LAZY_EXPORTS = ALL_EXPORTS \<and> distinct ALL_EXPORTS \<and>
   (case module_attribute load name globals of
      (Inr value, globals') \<Rightarrow> module_attribute load' name globals' = (Inr value, globals')
    | (Inl e, globals') \<Rightarrow> globals' = globals \<and> (name \<in> set ALL_EXPORTS \<or> e = AttributeError))"
proof -
  have names: "map fst LAZY_EXPORTS = ALL_EXPORTS" by (simp add: LAZY_EXPORTS_def ALL_EXPORTS_def)
  have "distinct ALL_EXPORTS" by code_simp
  moreover have "map_of LAZY_EXPORTS name \<noteq> None \<Longrightarrow> name \<in> set ALL_EXPORTS"
    by (metis map_of_eq_None_iff list.set_map names)
  ultimately show ?thesis
    using names by (auto simp: module_attribute_def module_getattr_def split: option.splits sum.splits)
qed

end
