(* ===== verification/Schemas.thy ===== *)
theory Schemas
  imports Fleet Surface
begin

text \<open>
  The published contracts under \<open>schemas/\<close>, as data, and what it means to satisfy them: the wire envelope
  shared with a browser client, and the payloads of the two comm Functions. A schema is a tree of the JSON
  Schema keywords those documents use; \<open>validates\<close> is their meaning. The theorems compare the code with the
  documents: every protocol frame a socket sends satisfies the envelope, the parser accepts what the envelope
  accepts and exactly some more, and a payload the core has validated cannot make a Function raise by itself.
\<close>

section \<open>Schemas and what satisfies them\<close>

text \<open>\<open>const\<close> of a number, \<open>string\<close> with \<open>minLength\<close>, \<open>enum\<close> of texts, \<open>integer\<close> with \<open>minimum\<close>,
  \<open>boolean\<close>, \<open>array\<close> with \<open>maxItems\<close> and \<open>items\<close>, \<open>object\<close> with \<open>required\<close>, \<open>properties\<close> and whether other
  properties are allowed.\<close>

datatype schema =
    SConst int
  | SString nat
  | SEnum "string list"
  | SInteger "int option"
  | SBoolean
  | SArray nat schema
  | SObject "string list" "(string \<times> schema) list" bool

text \<open>A JSON number is an integer when its value is; \<open>true\<close> is not a number.\<close>

fun json_integer :: "pyval \<Rightarrow> int option" where
  "json_integer (PInt n) = Some n"
| "json_integer (PFloat (Fin q)) = (if of_int \<lfloor>q\<rfloor> = q then Some \<lfloor>q\<rfloor> else None)"
| "json_integer _ = None"

fun validates :: "schema \<Rightarrow> pyval \<Rightarrow> bool" where
  "validates (SConst n) v = (json_integer v = Some n)"
| "validates (SString k) v = (case v of PStr s \<Rightarrow> k \<le> length s | _ \<Rightarrow> False)"
| "validates (SEnum ts) v = (case v of PStr s \<Rightarrow> s \<in> set ts | _ \<Rightarrow> False)"
| "validates (SInteger lo) v =
     (case json_integer v of None \<Rightarrow> False | Some n \<Rightarrow> (case lo of None \<Rightarrow> True | Some m \<Rightarrow> m \<le> n))"
| "validates SBoolean v = (case v of PBool b \<Rightarrow> True | _ \<Rightarrow> False)"
| "validates (SArray k sc) v = (case v of PList vs \<Rightarrow> length vs \<le> k \<and> list_all (validates sc) vs | _ \<Rightarrow> False)"
| "validates (SObject required properties others) v =
     (case v of
        PDict d \<Rightarrow>
          list_all (\<lambda>k. map_of d k \<noteq> None) required \<and>
          list_all (\<lambda>(k, sc). case map_of d k of None \<Rightarrow> True | Some x \<Rightarrow> validates sc x) properties \<and>
          (others \<or> list_all (\<lambda>(k, x). k \<in> fst ` set properties) d)
      | _ \<Rightarrow> False)"

section \<open>The documents\<close>

text \<open>\<open>schemas/wire/envelope.v1.json\<close>: the envelope, and the payloads of its \<open>$defs\<close>.\<close>

definition ENVELOPE_SCHEMA :: schema where
  "ENVELOPE_SCHEMA =
     SObject [''v'', ''type'', ''payload'']
       [(''v'', SConst 1), (''type'', SString 0), (''payload'', SObject [] [] True),
        (''seq'', SInteger (Some 0)), (''stream'', SString 0)] False"

definition ENVELOPE_DEFS :: "(string \<times> schema) list" where
  "ENVELOPE_DEFS =
     [(''protocol_frame_types'', SEnum [''hello'', ''welcome'', ''replay'', ''replay_done'', ''live'', ''ephemeral'',
        ''ping'', ''pong'', ''resync'', ''kick'', ''error'']),
      (''hello'', SObject [] [(''last_seq'', SInteger (Some 0))] True),
      (''welcome'', SObject [] [(''server_seq'', SInteger (Some 0)), (''ephemeral'', SBoolean)] True),
      (''replay_done'', SObject [] [(''up_to_seq'', SInteger (Some 0))] True),
      (''resync'', SObject [''gap'', ''window'', ''server_seq'']
        [(''gap'', SInteger None), (''window'', SInteger None), (''server_seq'', SInteger None)] True),
      (''kick'', SObject [''reason''] [(''reason'', SString 0)] True),
      (''error'', SObject [''code'', ''message'']
        [(''code'', SEnum [''bad_envelope'', ''bad_type'', ''unauthorized'']), (''message'', SString 0)] True)]"

text \<open>\<open>schemas/functions\<close>: the file \<open>_schema\<close> reads for a name.\<close>

definition function_schema :: "string \<Rightarrow> schema option" where
  "function_schema = map_of
     [(''realtime.is_live'',
        SObject [''user_id''] [(''user_id'', SString 1), (''family'', SString 1)] False),
      (''realtime.live_batch'',
        SObject [''user_ids''] [(''user_ids'', SArray 100 (SString 1)), (''family'', SString 1)] False)]"

section \<open>What goes out\<close>

lemma validates_frame:
  assumes "\<forall>n. q = Some n \<longrightarrow> 0 \<le> n"
  shows "validates ENVELOPE_SCHEMA (PDict (frame t p q k))"
  using assms by (auto simp: ENVELOPE_SCHEMA_def frame_def opt_field_def wire_defs split: option.splits)

text \<open>Every frame of a socket is one of the protocol's, with its payload, a journal frame of a positive
  sequence, or a relayed signal; all of them carry the socket's stream.\<close>

definition known_frame :: "string option \<Rightarrow> pydict \<Rightarrow> bool" where
  "known_frame k f \<longleftrightarrow> plain_frame (\<lambda>_. True) k f \<or>
     (\<exists>t d n. (t = LIVE \<or> t = REPLAY) \<and> 0 < n \<and> f = frame t (Some d) (Some n) k)"

definition frames_known :: "sock \<Rightarrow> bool" where
  "frames_known s \<longleftrightarrow> 0 \<le> max_seq_sent s \<and> (\<forall>f\<in>set (frames s). known_frame (stream_key s) f)"

lemma plain_frame_any: "plain_frame R k f \<Longrightarrow> plain_frame (\<lambda>_. True) k f"
  by (induction rule: plain_frame.induct) (auto intro: plain_frame.intros)

lemma small_new_frame:
  assumes "small R s s'"
  shows "\<forall>f\<in>set (frames s'). f \<in> set (frames s) \<or> plain_frame R (stream_key s) f \<or>
    (\<exists>t d n. (t = LIVE \<or> t = REPLAY) \<and> max_seq_sent s < n \<and> f = frame t (Some d) (Some n) (stream_key s))"
  using assms
proof cases
  case tune
  then show ?thesis by (simp add: frames_def)
next
  case (plain f)
  then show ?thesis using frames_enqueue [of f s] by auto
next
  case (journal n t ev d)
  let ?f = "frame t (Some d) (Some n) (stream_key s)"
  have "set (frames s') \<subseteq> insert ?f (set (frames s))"
    using frames_enqueue [of ?f "s\<lparr>max_seq_sent := n\<rparr>"] journal by auto
  then show ?thesis using journal by blast
next
  case take_frame
  then show ?thesis by simp
next
  case write_frame
  then show ?thesis by simp
next
  case drop_frame
  then show ?thesis by (auto simp: frames_def writer_failed_def)
qed simp_all

lemma small_frames_known:
  assumes "small R s s'" "frames_known s"
  shows "frames_known s'"
proof -
  have "known_frame (stream_key s) f" if "f \<in> set (frames s')" for f
  proof -
    from small_new_frame [OF assms(1)] that consider "f \<in> set (frames s)" | "plain_frame R (stream_key s) f"
      | t d n where "t = LIVE \<or> t = REPLAY" "max_seq_sent s < n" "f = frame t (Some d) (Some n) (stream_key s)"
      by blast
    then show ?thesis
    proof cases
      case (3 t d n)
      moreover from 3 assms(2) have "0 < n" by (simp add: frames_known_def)
      ultimately show ?thesis unfolding known_frame_def by blast
    qed (use assms(2) in \<open>auto simp: frames_known_def known_frame_def dest: plain_frame_any\<close>)
  qed
  then show ?thesis
    using small_cursor [OF assms(1)] small_stream_key [OF assms(1)] assms(2) by (simp add: frames_known_def)
qed

lemma reachable_frames_known: "reachable E s \<Longrightarrow> frames_known s"
proof (drule reachable_invariant [where P = frames_known])
  fix s :: sock assume "unopened s"
  then show "frames_known s" using frames_unopened by (simp add: frames_known_def unopened_def)
next
  fix s assume "opened E s"
  then show "frames_known s" using frames_opened [of E s] by (simp add: frames_known_def opened_def)
next
  fix s now ok assume "frames_known s"
  then show "frames_known (stop (disconnect E now ok s))" by (simp add: frames_known_def)
qed (auto intro: small_frames_known)

text \<open>A frame of a type the protocol owns is not a relayed one.\<close>

lemma known_protocol_frame [consumes 3]:
  assumes "known_frame k f" and "dict_get f ''type'' = PStr t" "t \<in> set PROTOCOL_FRAME_TYPES"
  obtains (own) d where "protocol_payload t d" "f = frame t (Some d) None k"
  | (journal) d n where "t = LIVE \<or> t = REPLAY" "0 < n" "f = frame t (Some d) (Some n) k"
proof -
  from assms(1) consider (plain) "plain_frame (\<lambda>_. True) k f"
    | (row) u d n where "u = LIVE \<or> u = REPLAY" "0 < n" "f = frame u (Some d) (Some n) k"
    unfolding known_frame_def by blast
  then show thesis
  proof cases
    case plain
    then show thesis
    proof cases
      case (protocol u d)
      then show thesis using assms(2) by (intro own) auto
    next
      case (relayed d)
      then show thesis using assms(2,3) by (simp add: dict_get_setdefault)
    qed
  next
    case row
    then show thesis using assms(2) by (intro journal) auto
  qed
qed

text \<open>The payload of a protocol frame against its definition; the two sequences come from the module's hook,
  which may return a negative number.\<close>

lemma payload_validates:
  assumes "protocol_payload t d" and "map_of ENVELOPE_DEFS t = Some sc"
    and "\<forall>k\<in>{''server_seq'', ''up_to_seq''}. \<forall>n. dict_get d k = PInt n \<longrightarrow> 0 \<le> n"
  shows "validates sc (PDict d)"
  using assms
  by (auto simp: protocol_payload_def ENVELOPE_DEFS_def wire_defs resync_payload_def py_defs split: if_splits)

text \<open>C9: The envelope of every protocol frame a socket sends satisfies the published schema, in every state a
  socket can reach: the frame is of a type the server may send, it carries the socket's own stream, and it has a
  sequence, a positive one, exactly when it is a row of the journal, so a client that asks whether \<open>seq\<close> is there is
  answered correctly. Its payload satisfies the definition of its type, unless the module's journal hook returned
  a negative sequence.\<close>

theorem wire_conforms:
  assumes "reachable E s" and "f \<in> set (frames s)"
    and "dict_get f ''type'' = PStr t" "t \<in> set PROTOCOL_FRAME_TYPES"
  shows "validates ENVELOPE_SCHEMA (PDict f) \<and> t \<in> set SERVER_FRAME_TYPES \<and>
    dict_get f ''stream'' = stream_value s \<and>
    (if t = LIVE \<or> t = REPLAY then \<exists>n>0. dict_get f ''seq'' = PInt n else dict_get f ''seq'' = PNone) \<and>
    (\<forall>sc d. map_of ENVELOPE_DEFS t = Some sc \<longrightarrow> dict_get f ''payload'' = PDict d \<longrightarrow>
       (\<forall>k\<in>{''server_seq'', ''up_to_seq''}. \<forall>n. dict_get d k = PInt n \<longrightarrow> 0 \<le> n) \<longrightarrow> validates sc (PDict d))"
proof -
  have "known_frame (stream_key s) f"
    using reachable_frames_known [OF assms(1)] assms(2) by (simp add: frames_known_def)
  from this assms(3,4) show ?thesis
  proof (cases rule: known_protocol_frame)
    case (own d)
    then have "t \<in> set SERVER_FRAME_TYPES" "t \<noteq> LIVE \<and> t \<noteq> REPLAY"
      by (auto simp: protocol_payload_def SERVER_FRAME_TYPES_def)
    with own show ?thesis
      using payload_validates [OF own(1)] by (simp add: validates_frame stream_value_def)
  next
    case (journal d n)
    then have "map_of ENVELOPE_DEFS t = None" by (auto simp: ENVELOPE_DEFS_def wire_defs)
    with journal show ?thesis
      by (auto simp: validates_frame stream_value_def SERVER_FRAME_TYPES_def)
  qed
qed

theorem wire_conforms_witness:
  "validates ENVELOPE_SCHEMA (PDict (kick_frame sample_sock ''left'')) \<and> KICK \<in> set SERVER_FRAME_TYPES \<and>
    dict_get (kick_frame sample_sock ''left'') ''stream'' = stream_value revoked_sock"
  using wire_conforms [OF revoked_reachable, of "kick_frame sample_sock ''left''" KICK]
  by (simp add: revoked_sock_def kick_frame_def frames_def PROTOCOL_FRAME_TYPES_def SERVER_FRAME_TYPES_def
      sample_sock_def)

section \<open>What comes in\<close>

text \<open>What the envelope's schema asks and the parser does not: no other keys, a version that is a number, a
  payload that is there, a sequence that is a number and not negative, a stream that is a text when it is there.\<close>

definition strict_envelope :: "pydict \<Rightarrow> bool" where
  "strict_envelope d \<longleftrightarrow>
     fst ` set d \<subseteq> {''v'', ''type'', ''payload'', ''seq'', ''stream''} \<and>
     dict_get d ''v'' \<noteq> PBool True \<and> dict_get d ''payload'' \<noteq> PNone \<and>
     (map_of d ''seq'' = None \<or> (\<exists>n\<ge>0. json_integer (dict_get d ''seq'') = Some n)) \<and>
     (map_of d ''stream'' = None \<or> dict_get d ''stream'' \<noteq> PNone)"

lemma json_integer_iff:
  "json_integer v = Some n \<longleftrightarrow> v = PInt n \<or> v = PFloat (Fin (of_int n))"
  by (cases v rule: json_integer.cases) auto

lemma json_integer_int: "json_integer v = Some n \<Longrightarrow> py_int v = Inr n"
  by (auto simp: json_integer_iff trunc_def)

lemma version_number: "json_integer v = Some 1 \<longleftrightarrow> py_eq_int v WIRE_VERSION \<and> v \<noteq> PBool True"
  by (cases "(v, 1 :: int)" rule: py_eq_int.cases) (auto simp: json_integer_iff wire_defs)

lemma validates_envelope:
  "validates ENVELOPE_SCHEMA (PDict d) \<longleftrightarrow>
     (\<exists>t. dict_get d ''type'' = PStr t) \<and> py_eq_int (dict_get d ''v'') WIRE_VERSION \<and>
     (\<exists>p. dict_get d ''payload'' = PDict p) \<and>
     (dict_get d ''stream'' = PNone \<or> (\<exists>k. dict_get d ''stream'' = PStr k)) \<and> strict_envelope d"
proof -
  have keys: "list_all (\<lambda>(k, x). k = ''v'' \<or> k = ''type'' \<or> k = ''payload'' \<or> k = ''seq'' \<or> k = ''stream'') d \<longleftrightarrow>
      fst ` set d \<subseteq> {''v'', ''type'', ''payload'', ''seq'', ''stream''}"
    by (force simp: list_all_iff)
  show ?thesis
    using version_number [of "dict_get d ''v''"]
    by (auto simp: ENVELOPE_SCHEMA_def strict_envelope_def dict_get_def keys split: option.splits pyval.splits)
qed

text \<open>C33: The parser against the published envelope, exactly: it accepts what the schema accepts, with the one
  exception of the empty type, and in addition the frames that are not strict (with other keys, a missing payload,
  a version \<open>true\<close>, a sequence that is negative or a numeral in a text, a null stream); on frames that are strict
  the two agree.\<close>

theorem parser_against_schema:
  "validates ENVELOPE_SCHEMA (PDict d) \<and> dict_get d ''type'' \<noteq> PStr [] \<longleftrightarrow>
     (\<exists>fr. parse_frame (PDict d) = Inr fr) \<and> strict_envelope d"
proof -
  have "strict_envelope d \<Longrightarrow> dict_get d ''seq'' = PNone \<or> (\<exists>n. py_int (dict_get d ''seq'') = Inr n)"
    by (auto simp: strict_envelope_def dict_get_def dest: json_integer_int)
  moreover have "strict_envelope d \<Longrightarrow> dict_get d ''payload'' \<noteq> PNone" by (simp add: strict_envelope_def)
  ultimately show ?thesis
    using parse_frame_iff [of d] by (auto simp: validates_envelope well_formed_envelope_def)
qed

lemma setdefault_validates:
  "validates ENVELOPE_SCHEMA (PDict (dict_setdefault ''stream'' (PStr k) d)) = validates ENVELOPE_SCHEMA (PDict d)"
proof (cases "map_of d ''stream''")
  case None
  let ?d = "d @ [(''stream'', PStr k)]"
  have set: "dict_setdefault ''stream'' (PStr k) d = ?d" using None by (simp add: dict_setdefault_def)
  have others: "map_of ?d x = map_of d x" if "x \<noteq> ''stream''" for x
    using that by (simp add: map_of_append map_add_def split: option.splits)
  have stream: "map_of ?d ''stream'' = Some (PStr k)"
    using None by (simp add: map_of_append map_add_def split: option.splits)
  show ?thesis
    unfolding set validates_envelope strict_envelope_def dict_get_def stream None by (simp add: others del: map_of_append)
next
  case (Some v)
  then show ?thesis by (simp add: dict_setdefault_def)
qed

text \<open>A relayed signal satisfies the envelope exactly when the emitter's frame did: the transport neither checks
  nor repairs it. In particular a sequence in the emitter's frame travels to the client, who takes a frame with a
  sequence for a row of the journal.\<close>

theorem relay_keeps_contract:
  assumes "deliver build sha recorder k (PDict d) (Some []) = (Inr True, Some sends)" and "d \<noteq> []"
    and "ready s 1" and "stream_key s = Some key"
  shows "\<exists>g msg s' f. sends = [(g, msg)] \<and> moves E s (GroupMessage msg) s' \<and> frames s' = frames s @ [f] \<and>
    (validates ENVELOPE_SCHEMA (PDict f) \<longleftrightarrow> validates ENVELOPE_SCHEMA (PDict d)) \<and>
    dict_get f ''seq'' = dict_get d ''seq'' \<and> dict_get f ''type'' = dict_get d ''type''"
proof -
  let ?msg = "signal_message k d"
  obtain g where g: "sends = [(g, ?msg)]" and t: "py_in_strings (dict_get d ''type'') PROTOCOL_FRAME_TYPES = Inr False"
    using assms(1) unfolding deliver_accept_iff by (auto simp: recorder_def)
  have "phase s = Idle" "accepted s" using assms(3) by (simp_all add: ready_def)
  then have "moves E s (GroupMessage ?msg) (settle (dispatch_group E ?msg s))"
    using moves.hears by_deliver [OF t] by blast
  then show ?thesis
    using signal_step [OF assms(3,2), of E k] g assms(4)
    by (intro exI [of _ g] exI [of _ ?msg] exI [of _ "settle (dispatch_group E ?msg s)"]
        exI [of _ "dict_setdefault ''stream'' (PStr key) d"])
       (auto simp: stream_value_def setdefault_validates dict_get_setdefault)
qed

theorem relay_keeps_contract_witness:
  "\<exists>g msg s' f. [(''chat.ws.1'', signal_message ''chat:ws:1'' sample_signal)] = [(g, msg)] \<and>
    moves sample_env sample_sock (GroupMessage msg) s' \<and> frames s' = frames sample_sock @ [f] \<and>
    (validates ENVELOPE_SCHEMA (PDict f) \<longleftrightarrow> validates ENVELOPE_SCHEMA (PDict sample_signal)) \<and>
    dict_get f ''seq'' = dict_get sample_signal ''seq'' \<and> dict_get f ''type'' = dict_get sample_signal ''type''"
proof (rule relay_keeps_contract [OF _ _ sample_ready])
  have "py_in_strings (dict_get sample_signal ''type'') PROTOCOL_FRAME_TYPES = Inr False" by code_simp
  then show "deliver sample_canon id recorder ''chat:ws:1'' (PDict sample_signal) (Some []) =
      (Inr True, Some [(''chat.ws.1'', signal_message ''chat:ws:1'' sample_signal)])"
    unfolding deliver_accept_iff using sample_group by (auto simp: recorder_def)
qed (simp_all add: sample_signal_def sample_sock_def)

section \<open>The comm Functions\<close>

text \<open>What the schemas of the Functions admit: a user (or at most a hundred) known by a non-empty text, and a
  family that is absent or a non-empty text.\<close>

lemma family_valid:
  assumes "case map_of p ''family'' of None \<Rightarrow> True | Some x \<Rightarrow> validates (SString 1) x"
  shows "payload_family p = map_option (\<lambda>v. case v of PStr f \<Rightarrow> f | _ \<Rightarrow> []) (map_of p ''family'')"
  using assms by (auto simp: payload_family_def dict_get_def split: option.splits pyval.splits)

lemma texts_valid: "list_all (validates (SString 1)) vs \<Longrightarrow> \<exists>us. vs = map PStr us \<and> [] \<notin> set us"
proof (induction vs)
  case (Cons v vs)
  then obtain us where "vs = map PStr us" "[] \<notin> set us" by auto
  moreover have "\<exists>u. v = PStr u \<and> u \<noteq> []" using Cons.prems by (cases v) auto
  then obtain u where "v = PStr u" "u \<noteq> []" by blast
  ultimately have "v # vs = map PStr (u # us)" "[] \<notin> set (u # us)" by auto
  then show ?case by (intro exI conjI)
qed simp

lemma payload_ident_text [simp]: "payload_ident rp (PStr u) = Some (IdStr u)"
  by (simp add: payload_ident_def)

text \<open>C19: A payload the core has validated reaches the registry as it is: \<open>realtime.is_live\<close> asks about the user
  whose text it holds, \<open>realtime.live_batch\<close> about exactly the users it lists, each answered as the single
  Function answers; neither can fail on its arguments (a missing key, the cap of the batch), only when the
  registry's own read of some user raises.\<close>

theorem schemas_protect_functions:
  assumes ops: "batch_agrees ops" "presence_ttl st = Inr ttl"
    and schema: "function_schema name = Some sc" "validates sc (PDict p)"
  shows "(name = ''realtime.is_live'' \<longrightarrow>
      (\<exists>u. u \<noteq> [] \<and> dict_get p ''user_id'' = PStr u \<and>
         function_is_live ops st sha rp now p store =
           is_live ops st sha now (Some (IdStr u)) (payload_family p) store)) \<and>
    (name = ''realtime.live_batch'' \<longrightarrow>
      (\<exists>us. dict_get p ''user_ids'' = PList (map PStr us) \<and> length us \<le> 100 \<and>
         ((\<exists>users. function_live_batch ops st sha rp now p store = Inr [(''users'', users)] \<and>
             set (map fst users) = set us \<and>
             (\<forall>u\<in>set us. \<exists>s. map_of users u = Some s \<and>
                is_live ops st sha now (Some (IdStr u)) (payload_family p) store = Inr s)) \<or>
          (\<exists>u\<in>set us. \<exists>e. is_live ops st sha now (Some (IdStr u)) (payload_family p) store = Inl e))))"
proof (intro conjI impI)
  assume "name = ''realtime.is_live''"
  with schema have "validates (SObject [''user_id''] [(''user_id'', SString 1), (''family'', SString 1)] False) (PDict p)"
    by (simp add: function_schema_def)
  then have "\<exists>u. map_of p ''user_id'' = Some (PStr u) \<and> u \<noteq> []" by (auto split: pyval.splits)
  then obtain u where "map_of p ''user_id'' = Some (PStr u)" "u \<noteq> []" by blast
  then show "\<exists>u. u \<noteq> [] \<and> dict_get p ''user_id'' = PStr u \<and> function_is_live ops st sha rp now p store =
      is_live ops st sha now (Some (IdStr u)) (payload_family p) store"
    by (simp add: function_is_live_def dict_get_def)
next
  assume "name = ''realtime.live_batch''"
  with schema have "validates (SObject [''user_ids'']
      [(''user_ids'', SArray 100 (SString 1)), (''family'', SString 1)] False) (PDict p)"
    by (simp add: function_schema_def)
  then obtain vs where vs: "map_of p ''user_ids'' = Some (PList vs)" "length vs \<le> 100"
      "list_all (validates (SString 1)) vs"
    by (auto split: pyval.splits)
  then obtain us where us: "vs = map PStr us" "[] \<notin> set us" using texts_valid by blast
  have ids: "List.map_filter id (map (payload_ident rp) vs) = map IdStr us"
    by (simp add: us List.map_filter_def comp_def)
  have "py_list (py_or (dict_get p ''user_ids'') (PList [])) = Inr vs"
    using vs by (cases "vs = []") (simp_all add: dict_get_def py_or_def)
  then have run: "function_live_batch ops st sha rp now p store =
      rmap (\<lambda>users. [(''users'', users)])
        (live_batch ops st sha now (map (payload_ident rp) vs) (payload_family p) store)"
    by (simp add: function_live_batch_def)
  show "\<exists>us. dict_get p ''user_ids'' = PList (map PStr us) \<and> length us \<le> 100 \<and>
      ((\<exists>users. function_live_batch ops st sha rp now p store = Inr [(''users'', users)] \<and>
          set (map fst users) = set us \<and>
          (\<forall>u\<in>set us. \<exists>s. map_of users u = Some s \<and>
             is_live ops st sha now (Some (IdStr u)) (payload_family p) store = Inr s)) \<or>
       (\<exists>u\<in>set us. \<exists>e. is_live ops st sha now (Some (IdStr u)) (payload_family p) store = Inl e))"
    using live_batch_single [OF ops, of "map (payload_ident rp) vs" sha now "payload_family p" store] vs us
    unfolding ids run by (intro exI [of _ us]) (auto simp: MAX_BATCH_def dict_get_def image_image)
qed

theorem schemas_protect_functions_witness:
  "\<exists>u. u \<noteq> [] \<and> dict_get [(''user_id'', PStr ''u'')] ''user_id'' = PStr u \<and>
    function_is_live sample_cache defaults id (\<lambda>v. []) 10 [(''user_id'', PStr ''u'')] (Some []) =
      is_live sample_cache defaults id 10 (Some (IdStr u)) (payload_family [(''user_id'', PStr ''u'')]) (Some [])"
  using schemas_protect_functions [OF sample_cache_works(2) presence_ttl_defaults, of "''realtime.is_live''"
      "SObject [''user_id''] [(''user_id'', SString 1), (''family'', SString 1)] False" "[(''user_id'', PStr ''u'')]"
      id "\<lambda>v. []" 10 "Some []"]
  by (simp add: function_schema_def)

end
