(* ===== verification/Heartbeat.thy ===== *)
theory Heartbeat
  imports SocketRights SocketProperties
begin

text \<open>
  The heartbeat task in time: when presence renewals happen, and how a tick ends a socket. Between two
  renewals the task sleeps twice, for the interval and for the time given to the answer, and the view
  \<open>pulse\<close> (where the task stands, when it has renewed) is untouched by every other handler.
\<close>

definition renewals :: "sock \<Rightarrow> rat list" where
  "renewals s = List.map_filter
     (\<lambda>e. case e of Presence (RecordHeartbeat t u sid f) \<Rightarrow> Some t | _ \<Rightarrow> None) (log s)"

definition pulse :: "sock \<Rightarrow> beat \<times> rat list" where
  "pulse s = (beat s, renewals s)"

lemma renewals_emit [simp]:
  "renewals (emit e s) =
     renewals s @ (case e of Presence (RecordHeartbeat t u sid f) \<Rightarrow> [t] | _ \<Rightarrow> [])"
  by (auto simp: renewals_def split: effect.splits presence_call.splits)

lemma renewals_log: "log s' = log s \<Longrightarrow> renewals s' = renewals s"
  by (simp add: renewals_def)

lemma renewals_fields [simp]:
  "renewals (s\<lparr>phase := p\<rparr>) = renewals s" "renewals (s\<lparr>max_seq_sent := n\<rparr>) = renewals s"
  "renewals (s\<lparr>closing := c\<rparr>) = renewals s" "renewals (s\<lparr>pong_pending := q\<rparr>) = renewals s"
  "renewals (s\<lparr>beat := b\<rparr>) = renewals s" "renewals (s\<lparr>outbox := fs\<rparr>) = renewals s"
  "renewals (s\<lparr>inflight := i\<rparr>) = renewals s" "renewals (s\<lparr>writing := w\<rparr>) = renewals s"
  "renewals (s\<lparr>authorized_until := x\<rparr>) = renewals s" "renewals (s\<lparr>strikes := k\<rparr>) = renewals s"
  "renewals (s\<lparr>presence_session := ps\<rparr>) = renewals s" "renewals (s\<lparr>sgroup := g\<rparr>) = renewals s"
  by (auto intro: renewals_log)

lemma renewals_enqueue [simp]: "renewals (enqueue f s) = renewals s"
  by (simp add: enqueue_def)

interpretation pulse: untouched_by_receive pulse
  by unfold_locales
     (auto simp: pulse_def writer_take_def writer_sent_def writer_failed_def split: list.splits option.splits)

text \<open>The task and its renewals: each is at least the interval and the timeout after the one before, and
  so is the next one that the task's place allows.\<close>

definition spaced :: "rat \<Rightarrow> rat \<Rightarrow> beat \<times> rat list \<Rightarrow> bool" where
  "spaced i w p \<longleftrightarrow>
     sorted_wrt (\<lambda>a b. a + w + i \<le> b) (snd p) \<and>
     (case fst p of
        Sleeping due \<Rightarrow> \<exists>q. due = Fin q \<and> (\<forall>t\<in>set (snd p). t + w + i \<le> q)
      | Renewing r \<Rightarrow> \<forall>t\<in>set (snd p). t \<le> r
      | AwaitPong due \<Rightarrow> \<exists>q. due = Fin q \<and> (\<forall>t\<in>set (snd p). t + w \<le> q)
      | _ \<Rightarrow> True)"

lemma beat_ping_pulse:
  "pulse (beat_ping E now s) =
     (case heartbeat_timeout (conf E) of Inr w \<Rightarrow> AwaitPong (pf_add (Fin now) w) | Inl _ \<Rightarrow> BeatDone, renewals s)"
  by (simp add: beat_ping_def send_frame_def queue_frame_def py_or_def pulse_def split: sum.splits)

lemma spaced_wake:
  assumes conf: "heartbeat_timeout (conf E) = Inr (Fin w)" "0 \<le> w" "0 \<le> i"
    and beat: "beat s = Sleeping due" "pf_le due (Fin now)" and sp: "spaced i w (pulse s)"
  shows "spaced i w (pulse (beat_wake E now s))"
proof -
  have ren: "sorted_wrt (\<lambda>a b. a + w + i \<le> b) (renewals s)" and due: "\<forall>t\<in>set (renewals s). t + w + i \<le> now"
    using sp beat by (auto simp: spaced_def pulse_def)
  have early: "\<forall>t\<in>set (renewals s). t + w \<le> now + w" "\<forall>t\<in>set (renewals s). t \<le> now"
    using due conf by force+
  have ping: "spaced i w (pulse (beat_ping E now s))"
    using ren early by (simp add: beat_ping_pulse conf spaced_def)
  have stop: "spaced i w (BeatDone, renewals s)" using ren by (simp add: spaced_def)
  have renew: "spaced i w (Renewing now, renewals s @ [now])"
    using ren due early by (simp add: spaced_def sorted_wrt_append)
  show ?thesis
    using ping stop renew
    by (auto simp: beat_wake_def pulse_def split: sum.splits bool.splits option.splits)
qed

lemma spaced_deadline:
  assumes conf: "heartbeat_interval (conf E) = Inr (Fin i)"
    and beat: "beat s = AwaitPong due" "pf_le due (Fin now)" and sp: "spaced i w (pulse s)"
  shows "spaced i w (pulse (beat_deadline E now s))"
proof -
  have "sorted_wrt (\<lambda>a b. a + w + i \<le> b) (renewals s)" "\<forall>t\<in>set (renewals s). t + w + i \<le> now + i"
    using sp beat by (auto simp: spaced_def pulse_def)
  then show ?thesis by (auto simp: beat_deadline_def pulse_def conf spaced_def)
qed

lemma connect_pulse:
  assumes "heartbeat_interval (conf E) = Inr (Fin i)"
  shows "spaced i w (pulse (settle (connect E tick now ok new_sock)))"
proof -
  let ?s = "settle (connect E tick now ok new_sock)"
  have "renewals ?s = []"
    using connect_outcome [of E tick now ok]
    by (auto simp: renewals_def unopened_def opened_def List.map_filter_def filter_empty_conv)
  moreover have "beat ?s = NoBeat \<or> beat ?s = BeatDone \<or> (\<exists>q. beat ?s = Sleeping (Fin q))"
  proof -
    have *: "beat (fst (after_accept E now s)) = NoBeat \<or> beat (fst (after_accept E now s)) = BeatDone \<or>
        (\<exists>q. beat (fst (after_accept E now s)) = Sleeping (Fin q))" if "beat s = NoBeat" for s
      using that assms by (auto simp: after_accept_def Let_def start_beat_def split: sum.splits)
    have **: "beat (fst (subscribe E tick now ok s)) = NoBeat \<or> beat (fst (subscribe E tick now ok s)) = BeatDone \<or>
        (\<exists>q. beat (fst (subscribe E tick now ok s)) = Sleeping (Fin q))" if "beat s = NoBeat" for s
    proof -
      obtain r s1 where a: "authorize_cached E True tick s = (r, s1)" by fastforce
      then obtain x where "s1 = s\<lparr>authorized_until := x\<rparr>" using authorize_keeps by blast
      with a that show ?thesis
        using * by (auto simp: subscribe_def Let_def split: sum.splits bool.splits)
    qed
    have "beat (settle r) = beat (fst r)" for r by (cases r; cases "snd r") (auto simp: settle_def)
    then show ?thesis
      using ** by (auto simp: connect_def Let_def split: sum.splits option.splits)
  qed
  ultimately show ?thesis by (auto simp: spaced_def pulse_def)
qed

lemma disconnect_pulse:
  "renewals (stop (disconnect E now ok s)) = renewals s"
  "beat (stop (disconnect E now ok s)) = NoBeat \<or> beat (stop (disconnect E now ok s)) = BeatDone"
  by (auto simp: disconnect_def stop_def Let_def split: option.splits)

lemma reachable_spaced:
  assumes "reachable E s" and conf: "heartbeat_interval (conf E) = Inr (Fin i)" "0 \<le> i"
    "heartbeat_timeout (conf E) = Inr (Fin w)" "0 \<le> w"
  shows "spaced i w (pulse s)"
  using assms(1)
proof (induction rule: reachable.induct)
  case start
  then show ?case by (simp add: spaced_def pulse_def renewals_def new_sock_def List.map_filter_def)
next
  case (step s ev s')
  from step.hyps(2) show ?case
  proof cases
    case (connects tick now ok)
    then show ?thesis using reachable_New [OF step.hyps(1)] connect_pulse conf by simp
  next
    case (leaves now ok)
    then show ?thesis using disconnect_pulse [of E now ok s] step.IH by (auto simp: spaced_def pulse_def)
  next
    case (wakes due now)
    then show ?thesis using spaced_wake conf step.IH by simp
  next
    case (deadline due now)
    then show ?thesis using spaced_deadline conf step.IH by simp
  next
    case (renewed t now)
    then have "\<forall>x\<in>set (renewals s). x + w \<le> now + w" using step.IH by (force simp: spaced_def pulse_def)
    with renewed conf step.IH show ?thesis by (simp add: beat_ping_pulse spaced_def) (simp add: pulse_def)
  qed (use step.IH in \<open>simp_all add: pulse.view_dispatch pulse.view_receive\<close>)
qed

section \<open>Properties\<close>

text \<open>A socket renews its presence lease no faster than the interval and the answer timeout together:
  in every reachable state, consecutive heartbeat renewals are at least \<open>HEARTBEAT_S\<close> plus
  \<open>max(1, HEARTBEAT_TIMEOUT_S)\<close> seconds apart, because the task sleeps for both between two ticks. A
  lease shorter than that sum lapses between two beats of a healthy socket, even where it is longer than
  \<open>HEARTBEAT_S\<close>, the only comparison the system check makes.\<close>

theorem renewals_spaced:
  assumes "reachable E s" and "heartbeat_interval (conf E) = Inr (Fin i)" "0 \<le> i"
    and "heartbeat_timeout (conf E) = Inr (Fin w)"
  shows "sorted_wrt (\<lambda>a b. a + w + i \<le> b) (renewals s)"
proof -
  have "0 \<le> w" using heartbeat_timeout_ge [OF assms(4)] by simp
  from reachable_spaced [OF assms this] show ?thesis by (simp add: spaced_def pulse_def)
qed

theorem renewals_spaced_witness: "sorted_wrt (\<lambda>a b. a + 10 + 25 \<le> b) (renewals sample_sock)"
  by (rule renewals_spaced [OF sample_reachable]) (simp_all add: sample_env_def)

text \<open>C29: How a tick ends an open socket: when the token has expired, the wake-up closes 4401, before the
  lease is renewed and without a ping; when a ping was not answered within the timeout, the deadline closes
  4408; in both cases the socket is closing, no frame is added, and the task is over.\<close>

theorem heartbeat_verdicts:
  assumes "\<not> closing s" and "pf_le due (Fin now)"
    and "beat s = Sleeping due \<and> token_expired E now = Inr True \<and> code = 4401 \<and> ev = BeatWakes now \<or>
      beat s = AwaitPong due \<and> pong_pending s \<and> code = 4408 \<and> ev = BeatDeadline now"
  shows "\<exists>s'. moves E s ev s' \<and> log s' = log s @ [CloseSent code] \<and> closing s' \<and> frames s' = frames s \<and>
    beat s' = BeatDone \<and> renewals s' = renewals s"
  using assms(3)
proof
  assume a: "beat s = Sleeping due \<and> token_expired E now = Inr True \<and> code = 4401 \<and> ev = BeatWakes now"
  then have "beat_wake E now s = emit (CloseSent 4401) (s\<lparr>closing := True, beat := BeatDone\<rparr>)"
    using assms(1) by (simp add: beat_wake_def CLOSE_UNAUTHENTICATED_def)
  with moves.wakes [of s due now E] a assms(2) show ?thesis
    by (intro exI [of _ "beat_wake E now s"]) (simp add: frames_def)
next
  assume a: "beat s = AwaitPong due \<and> pong_pending s \<and> code = 4408 \<and> ev = BeatDeadline now"
  then have "beat_deadline E now s = emit (CloseSent 4408) (s\<lparr>closing := True, beat := BeatDone\<rparr>)"
    using assms(1) by (simp add: beat_deadline_def CLOSE_HEARTBEAT_TIMEOUT_def)
  with moves.deadline [of s due now E] a assms(2) show ?thesis
    by (intro exI [of _ "beat_deadline E now s"]) (simp add: frames_def)
qed

definition expiring_env :: env where
  "expiring_env = sample_env\<lparr>scope_of := (scope_of sample_env)\<lparr>scope_claims := Some [(''exp'', PInt 20)]\<rparr>\<rparr>"

theorem heartbeat_verdicts_witness:
  "\<exists>s'. moves expiring_env sample_sock (BeatWakes 25) s' \<and> log s' = log sample_sock @ [CloseSent 4401] \<and>
    closing s' \<and> frames s' = frames sample_sock \<and> beat s' = BeatDone \<and> renewals s' = renewals sample_sock"
proof (rule heartbeat_verdicts [where due = "Fin 25" and now = 25])
  have "token_expired expiring_env 25 = Inr True"
    by (simp add: token_expired_def expiring_env_def Let_def float_limit_def)
  then show "beat sample_sock = Sleeping (Fin 25) \<and> token_expired expiring_env 25 = Inr True \<and>
      (4401::int) = 4401 \<and> BeatWakes 25 = BeatWakes 25 \<or>
    beat sample_sock = AwaitPong (Fin 25) \<and> pong_pending sample_sock \<and> (4401::int) = 4408 \<and>
      BeatWakes 25 = BeatDeadline 25"
    by (simp add: sample_sock_def)
qed (simp_all add: sample_sock_def new_sock_def)

end
