(* ===== verification/Harness.thy ===== *)
theory Harness
  imports Heartbeat
begin

text \<open>
  The test harness for consumers, \<open>testing.py\<close>, over what a socket sends (frames as JSON values, or a
  close), and the consumer of the end-to-end host in \<open>e2e/consumers.py\<close>. The communicator delivers
  the outputs in order; an empty list is the timeout of a read. The handshake of \<open>open_stream\<close> runs the
  modelled \<open>connect\<close>.
\<close>

datatype sent_item = Json pyval | Closed int

definition NOISE :: "string list" where
  "NOISE = [PING, PONG]"

text \<open>\<open>receive_json_from\<close>: a close instead of a frame fails the communicator's assertion.\<close>

definition receive_json_from :: "sent_item list \<Rightarrow> (pyval \<times> sent_item list) res" where
  "receive_json_from outs =
     (case outs of
        [] \<Rightarrow> Inl TimeoutError
      | Json v # rest \<Rightarrow> Inr (v, rest)
      | Closed c # rest \<Rightarrow> Inl AssertionError)"

fun client_receive :: "sent_item list \<Rightarrow> (Frame \<times> sent_item list) res" where
  "client_receive [] = Inl TimeoutError"
| "client_receive (Closed c # rest) = Inl AssertionError"
| "client_receive (Json v # rest) =
     rbind (parse_frame v) (\<lambda>fr. if ftype fr \<in> set NOISE then client_receive rest else Inr (fr, rest))"

definition client_receive_raw :: "sent_item list \<Rightarrow> (Frame \<times> sent_item list) res" where
  "client_receive_raw outs =
     rbind (receive_json_from outs) (\<lambda>(v, rest). rmap (\<lambda>fr. (fr, rest)) (parse_frame v))"

definition client_expect :: "string \<Rightarrow> sent_item list \<Rightarrow> (Frame \<times> sent_item list) res" where
  "client_expect frame_type outs =
     rbind (client_receive outs) (\<lambda>(fr, rest).
       if ftype fr = frame_type then Inr (fr, rest) else Inl AssertionError)"

text \<open>What \<open>send\<close> and \<open>hello\<close> put on the wire, and the welcome that \<open>hello\<close> waits
  for.\<close>

definition client_send :: "string \<Rightarrow> pydict option \<Rightarrow> pyval" where
  "client_send frame_type payload = PDict (frame frame_type payload None None)"

definition client_hello :: "int option \<Rightarrow> (pyval \<Rightarrow> sent_item list) \<Rightarrow> pyval \<times> (Frame \<times> sent_item list) res" where
  "client_hello last_seq outputs =
     (let content = client_send HELLO (Some (case last_seq of None \<Rightarrow> [] | Some n \<Rightarrow> [(''last_seq'', PInt n)]))
      in (content, client_expect WELCOME (outputs content)))"

fun client_drain :: "sent_item list \<Rightarrow> (Frame list) res" where
  "client_drain [] = Inr []"
| "client_drain (Closed c # rest) = Inl AssertionError"
| "client_drain (Json v # rest) =
     rbind (parse_frame v) (\<lambda>fr.
       rmap (\<lambda>frs. if ftype fr \<in> set NOISE then frs else fr # frs) (client_drain rest))"

definition client_receive_nothing :: "sent_item list \<Rightarrow> bool" where
  "client_receive_nothing outs \<longleftrightarrow> outs = []"

definition wait_closed :: "sent_item list \<Rightarrow> int res" where
  "wait_closed outs =
     (case outs of
        [] \<Rightarrow> Inl TimeoutError
      | Closed c # rest \<Rightarrow> Inr c
      | Json v # rest \<Rightarrow> Inl AssertionError)"

text \<open>The client of \<open>open_stream\<close>: whether the handshake was accepted, the close code otherwise.\<close>

record client =
  connected :: bool
  close_code :: "int option"

definition with_scope :: "env \<Rightarrow> user option \<Rightarrow> pydict option \<Rightarrow> (string \<times> ident) list option \<Rightarrow> env" where
  "with_scope E u claims url_kwargs =
     E\<lparr>scope_of := \<lparr>scope_user = u, scope_claims = Some (case claims of None \<Rightarrow> [] | Some c \<Rightarrow> c),
       scope_kwargs = (case url_kwargs of None \<Rightarrow> [] | Some k \<Rightarrow> k)\<rparr>\<rparr>"

definition first_close :: "effect list \<Rightarrow> int option" where
  "first_close es =
     (case List.map_filter (\<lambda>e. case e of CloseSent c \<Rightarrow> Some c | _ \<Rightarrow> None) es of [] \<Rightarrow> None | c # cs \<Rightarrow> Some c)"

definition open_stream :: "env \<Rightarrow> user option \<Rightarrow> pydict option \<Rightarrow> (string \<times> ident) list option \<Rightarrow> bool \<Rightarrow>
    rat \<Rightarrow> rat \<Rightarrow> client res" where
  "open_stream E0 u claims url_kwargs expect_accept tick now =
     (let E = with_scope E0 u claims url_kwargs;
          (s, e) = connect E tick now True new_sock
      in case e of
           Some err \<Rightarrow> Inl err
         | None \<Rightarrow>
             if expect_accept \<and> \<not> accepted s then Inl AssertionError
             else Inr \<lparr>connected = accepted s, close_code = (if accepted s then None else first_close (log s))\<rparr>)"

section \<open>The end-to-end host's consumer\<close>

definition any_signed_in_user :: authorizer where
  "any_signed_in_user sc key =
     Inr (case scope_user sc of None \<Rightarrow> False | Some u \<Rightarrow> is_authenticated u)"

definition E2EConsumer :: consumer_class where
  "E2EConsumer =
     \<lparr>kind = Ephemeral, cls_module = Some ''e2e'', cls_scope_type = Some ''ws'', cls_topic = None,
      stream_key_kwarg = Some ''workspace_id'', cls_authorizer = Some (\<lambda>t. any_signed_in_user)\<rparr>"

section \<open>Properties\<close>

text \<open>A frame of the socket as its parts, as what travels, and as what the client parses.\<close>

type_synonym parts = "string \<times> pydict \<times> int option \<times> string option"

fun travelling :: "parts \<Rightarrow> sent_item" where
  "travelling (t, p, q, k) = Json (PDict (frame t (Some p) q k))"

fun parsed_parts :: "parts \<Rightarrow> Frame" where
  "parsed_parts (t, p, q, k) = \<lparr>ftype = t, fpayload = p, fseq = q, fstream = k\<rparr>"

fun audible :: "parts \<Rightarrow> bool" where
  "audible (t, p, q, k) \<longleftrightarrow> t \<noteq> PING \<and> t \<noteq> PONG"

text \<open>Heartbeat noise never disturbs the harness: a drain of the frames a socket built returns exactly
  the ones that are not pings or pongs, in order, with nothing else lost; a read returns the first of them and
  leaves what followed it, and times out when there is none.\<close>

theorem drain_skips_noise:
  assumes "\<forall>x\<in>set xs. fst x \<noteq> []"
  shows "client_drain (map travelling xs) = Inr (map parsed_parts (filter audible xs)) \<and>
    client_receive (map travelling xs) =
      (case dropWhile (\<lambda>x. \<not> audible x) xs of
         [] \<Rightarrow> Inl TimeoutError
       | x # rest \<Rightarrow> Inr (parsed_parts x, map travelling rest))"
  using assms
proof (induction xs)
  case Nil
  then show ?case by simp
next
  case (Cons x xs)
  obtain t p q k where x: "x = (t, p, q, k)" by (cases x)
  have parsed: "parse_frame (PDict (frame t (Some p) q k)) = Inr \<lparr>ftype = t, fpayload = p, fseq = q, fstream = k\<rparr>"
    using Cons.prems x parse_frame_built [of t "Some p" q k] by simp
  have rest: "client_drain (map travelling xs) = Inr (map parsed_parts (filter audible xs))"
    "client_receive (map travelling xs) =
      (case dropWhile (\<lambda>x. \<not> audible x) xs of
         [] \<Rightarrow> Inl TimeoutError
       | x # rest \<Rightarrow> Inr (parsed_parts x, map travelling rest))"
    using Cons by simp_all
  show ?case
    by (cases "t = PING \<or> t = PONG") (simp_all add: x parsed rest NOISE_def)
qed

theorem drain_skips_noise_witness:
  "client_drain (map travelling [(PING, [], None, None), (WELCOME, [], None, None)]) =
      Inr (map parsed_parts (filter audible [(PING, [], None, None), (WELCOME, [], None, None)])) \<and>
    client_receive (map travelling [(PING, [], None, None), (WELCOME, [], None, None)]) =
      (case dropWhile (\<lambda>x. \<not> audible x) [(PING, [], None, None), (WELCOME, [], None, None)] of
         [] \<Rightarrow> Inl TimeoutError
       | x # rest \<Rightarrow> Inr (parsed_parts x, map travelling rest))"
  by (rule drain_skips_noise) (simp add: wire_defs)

text \<open>The end-to-end consumer is open to every signed-in user and to no one else: opening a stream on it
  reports a connection only for an authenticated user, and reports 4401 for anyone else, whatever the URL and
  the claims.\<close>

theorem e2e_opens_for_signed_in:
  assumes "cls E = E2EConsumer" and cap: "send_queue_maxsize (conf E) = Inr cap"
  shows "(case open_stream E u claims kwargs False tick now of
      Inl e \<Rightarrow> \<exists>v. u = Some v \<and> is_authenticated v
    | Inr c \<Rightarrow> (connected c \<longrightarrow> (\<exists>v. u = Some v \<and> is_authenticated v)) \<and>
        ((\<nexists>v. u = Some v \<and> is_authenticated v) \<longrightarrow> \<not> connected c \<and> close_code c = Some 4401))"
proof (cases "\<exists>v. u = Some v \<and> is_authenticated v")
  case True
  then show ?thesis by (auto split: sum.splits)
next
  case False
  let ?E = "with_scope E u claims kwargs"
  have anon: "\<not> (case scope_user (scope_of ?E) of None \<Rightarrow> False | Some u \<Rightarrow> is_authenticated u)"
    using False by (auto simp: with_scope_def split: option.splits)
  have cap': "send_queue_maxsize (conf ?E) = Inr cap" using cap by (simp add: with_scope_def)
  obtain s where s: "connect ?E tick now True new_sock = (s, None)" "log s = [CloseSent CLOSE_UNAUTHENTICATED]"
    using anon cap' by (simp add: connect_def Let_def)
  then show ?thesis
    using False by (simp add: open_stream_def accepted_def first_close_def CLOSE_UNAUTHENTICATED_def
        List.map_filter_def)
qed

theorem e2e_opens_for_signed_in_witness:
  "(case open_stream (sample_env\<lparr>cls := E2EConsumer\<rparr>) None None None False 0 0 of
      Inl e \<Rightarrow> \<exists>v. (None :: user option) = Some v \<and> is_authenticated v
    | Inr c \<Rightarrow> (connected c \<longrightarrow> (\<exists>v. (None :: user option) = Some v \<and> is_authenticated v)) \<and>
        ((\<nexists>v. (None :: user option) = Some v \<and> is_authenticated v) \<longrightarrow> \<not> connected c \<and> close_code c = Some 4401))"
  by (rule e2e_opens_for_signed_in) (simp_all add: sample_env_def)

end
