(* ===== verification/Host.thy ===== *)
theory Host
  imports Schemas Harness
begin

text \<open>
  The end-to-end host of \<open>e2e/\<close>: its settings, its routes and the two emitting views, which are what a module's
  call site comes to. Django's transactions and models and the core's \<open>signal\<close> are parameters, with what is
  documented of them as hypotheses: a transaction that raises leaves nothing behind, one that returns is committed
  and then its callbacks run in the order they were scheduled; a signal whose key and type the core accepts is
  scheduled for the commit and hands the frame to the transport the settings name, any other raises.
\<close>

section \<open>A request inside a transaction\<close>

text \<open>A callback of a commit works on the channel layer; it may raise.\<close>

type_synonym 'l callback = "'l option \<Rightarrow> exc option \<times> 'l option"

record ('d, 'l) txn =
  database :: 'd
  on_commit :: "'l callback list"

record ('d, 'l) site =
  site_rows :: 'd
  site_layer :: "'l option"

type_synonym ('d, 'l) atomic =
  "(('d, 'l) txn \<Rightarrow> unit res \<times> ('d, 'l) txn) \<Rightarrow> ('d, 'l) site \<Rightarrow> unit res \<times> ('d, 'l) site"

fun run_callbacks :: "'l callback list \<Rightarrow> 'l option \<Rightarrow> exc option \<times> 'l option" where
  "run_callbacks [] l = (None, l)"
| "run_callbacks (c # cs) l =
     (case c l of (Some e, l') \<Rightarrow> (Some e, l') | (None, l') \<Rightarrow> run_callbacks cs l')"

definition commits_in_order :: "('d, 'l) atomic \<Rightarrow> bool" where
  "commits_in_order atomic \<longleftrightarrow>
     (\<forall>body st r t. body \<lparr>database = site_rows st, on_commit = []\<rparr> = (r, t) \<longrightarrow>
        atomic body st =
          (case r of
             Inl e \<Rightarrow> (Inl e, st)
           | Inr u \<Rightarrow>
               (case run_callbacks (on_commit t) (site_layer st) of
                  (None, l) \<Rightarrow> (Inr (), \<lparr>site_rows = database t, site_layer = l\<rparr>)
                | (Some e, l) \<Rightarrow> (Inl e, \<lparr>site_rows = database t, site_layer = l\<rparr>))))"

text \<open>\<open>Beat.objects.create\<close>: the key of the new row and the database, or what it raises. \<open>signal\<close>: the callback
  it schedules, or what it raises.\<close>

type_synonym 'd creator = "string \<Rightarrow> 'd \<Rightarrow> (int \<times> 'd) res"

type_synonym 'l signaller = "pyval \<Rightarrow> pyval \<Rightarrow> pydict \<Rightarrow> 'l callback res"

section \<open>The views\<close>

text \<open>\<open>v[k]\<close> for a text \<open>k\<close>.\<close>

definition py_item :: "pyval \<Rightarrow> string \<Rightarrow> pyval res" where
  "py_item v k =
     (case v of PDict d \<Rightarrow> (case map_of d k of None \<Rightarrow> Inl KeyError | Some x \<Rightarrow> Inr x) | _ \<Rightarrow> Inl TypeError)"

definition body_get :: "pyval \<Rightarrow> string \<Rightarrow> pyval \<Rightarrow> pyval res" where
  "body_get v k fallback =
     (case v of PDict d \<Rightarrow> Inr (case map_of d k of None \<Rightarrow> fallback | Some x \<Rightarrow> x) | _ \<Rightarrow> Inl AttributeError)"

definition request_json :: "(string \<Rightarrow> pyval res) \<Rightarrow> string \<Rightarrow> pyval res" where
  "request_json loads raw = loads (if raw = [] then ''{}'' else raw)"

definition health :: pydict where
  "health = [(''ok'', PBool True)]"

definition beat_label :: "(pyval \<Rightarrow> string) \<Rightarrow> pyval \<Rightarrow> int \<Rightarrow> string" where
  "beat_label rp signal_type index = py_str rp signal_type @ ''-'' @ int_str index"

definition beat_payload :: "int \<Rightarrow> int \<Rightarrow> pydict" where
  "beat_payload pk index = [(''beat_id'', PInt pk), (''index'', PInt index)]"

fun emit_rows :: "'d creator \<Rightarrow> 'l signaller \<Rightarrow> (pyval \<Rightarrow> string) \<Rightarrow> pyval \<Rightarrow> pyval \<Rightarrow> int list \<Rightarrow>
    ('d, 'l) txn \<Rightarrow> unit res \<times> ('d, 'l) txn" where
  "emit_rows create signal rp stream signal_type [] t = (Inr (), t)"
| "emit_rows create signal rp stream signal_type (index # rest) t =
     (case create (beat_label rp signal_type index) (database t) of
        Inl e \<Rightarrow> (Inl e, t)
      | Inr (pk, d) \<Rightarrow>
          (case signal stream signal_type (beat_payload pk index) of
             Inl e \<Rightarrow> (Inl e, t\<lparr>database := d\<rparr>)
           | Inr c \<Rightarrow>
               emit_rows create signal rp stream signal_type rest
                 (t\<lparr>database := d, on_commit := on_commit t @ [c]\<rparr>)))"

text \<open>\<open>emit\<close>; the time it took is the parameter \<open>seconds\<close>.\<close>

definition emit_view :: "(string \<Rightarrow> pyval res) \<Rightarrow> 'd creator \<Rightarrow> 'l signaller \<Rightarrow> ('d, 'l) atomic \<Rightarrow>
    (pyval \<Rightarrow> string) \<Rightarrow> pyfloat \<Rightarrow> string \<Rightarrow> ('d, 'l) site \<Rightarrow> pydict res \<times> ('d, 'l) site" where
  "emit_view loads create signal atomic rp seconds raw st =
     (case rbind (request_json loads raw) (\<lambda>body.
            rbind (py_item body ''stream'') (\<lambda>stream.
            rbind (rbind (body_get body ''count'' (PInt 1)) py_int) (\<lambda>count.
            rmap (\<lambda>signal_type. (stream, count, signal_type)) (body_get body ''type'' (PStr ''beat.tick''))))) of
        Inl e \<Rightarrow> (Inl e, st)
      | Inr (stream, count, signal_type) \<Rightarrow>
          map_prod (rmap (\<lambda>u. [(''emitted'', PInt count), (''seconds'', PFloat seconds)])) id
            (atomic (emit_rows create signal rp stream signal_type [0..count - 1]) st))"

definition rollback_body :: "'d creator \<Rightarrow> 'l signaller \<Rightarrow> pyval \<Rightarrow> ('d, 'l) txn \<Rightarrow> unit res \<times> ('d, 'l) txn" where
  "rollback_body create signal body t =
     (case create ''doomed'' (database t) of
        Inl e \<Rightarrow> (Inl e, t)
      | Inr (pk, d) \<Rightarrow>
          (case rbind (py_item body ''stream'') (\<lambda>stream.
                  signal stream (PStr ''beat.doomed'') [(''doomed'', PBool True)]) of
             Inl e \<Rightarrow> (Inl e, t\<lparr>database := d\<rparr>)
           | Inr c \<Rightarrow> (Inl Rollback, t\<lparr>database := d, on_commit := on_commit t @ [c]\<rparr>)))"

definition emit_rollback :: "(string \<Rightarrow> pyval res) \<Rightarrow> 'd creator \<Rightarrow> 'l signaller \<Rightarrow> ('d, 'l) atomic \<Rightarrow>
    string \<Rightarrow> ('d, 'l) site \<Rightarrow> pydict res \<times> ('d, 'l) site" where
  "emit_rollback loads create signal atomic raw st =
     (case request_json loads raw of
        Inl e \<Rightarrow> (Inl e, st)
      | Inr body \<Rightarrow>
          (let (r, st') = atomic (rollback_body create signal body) st
           in (case r of
                 Inl e \<Rightarrow> if e = Rollback then (Inr [(''rolled_back'', PBool True)], st') else (Inl e, st')
               | Inr u \<Rightarrow> (Inr [(''rolled_back'', PBool True)], st'))))"

section \<open>The settings\<close>

definition LOCMEM :: string where
  "LOCMEM = ''django.core.cache.backends.locmem.LocMemCache''"

definition e2e_django :: "string \<Rightarrow> pydict" where
  "e2e_django redis_url =
     [(''CACHES'', PDict [(''default'', PDict [(''BACKEND'', PStr LOCMEM)])]),
      (''CHANNEL_LAYERS'', PDict [(''default'', PDict
         [(''BACKEND'', PStr ''channels_redis.core.RedisChannelLayer''),
          (''CONFIG'', PDict [(''hosts'', PList [PStr redis_url])])])]),
      (''STAPEL_COMM'', PDict
         [(''SIGNAL_TRANSPORT'', PStr ''channels''), (''OUTBOX_ENABLED'', PBool False),
          (''ACTION_TRANSPORT'', PStr ''inprocess'')]),
      (''STAPEL_REALTIME'', PDict
         [(''HEARTBEAT_S'', PInt 30),
          (''ALLOWED_ORIGINS'', PList [PStr ''http://127.0.0.1:8771'', PStr ''http://127.0.0.1:8772'']),
          (''SEND_QUEUE_SIZE'', PInt 500)])]"

text \<open>What the axes resolve to: the values of the dictionary, the defaults for the others.\<close>

definition e2e_settings :: settings where
  "e2e_settings = defaults\<lparr>HEARTBEAT_S := PInt 30,
     ALLOWED_ORIGINS := PList [PStr ''http://127.0.0.1:8771'', PStr ''http://127.0.0.1:8772''],
     SEND_QUEUE_SIZE := PInt 500\<rparr>"

definition e2e_host :: "string \<Rightarrow> (string \<times> string) list \<Rightarrow> host" where
  "e2e_host redis_url env = \<lparr>django = e2e_django redis_url, environ = env, package = e2e_settings\<rparr>"

definition e2e_websocket_urlpatterns :: "(string \<times> consumer_class) list" where
  "e2e_websocket_urlpatterns = [(''ws/e2e/<str:workspace_id>'', E2EConsumer)]"

definition E2E_APPS :: "string list" where
  "E2E_APPS =
     [''django.contrib.auth'', ''django.contrib.contenttypes'', ''django.contrib.sessions'',
      ''stapel_core.django.users'', ''stapel_realtime'', ''e2e'']"

text \<open>\<open>e2e/asgi.py\<close>: the patterns are discovered among the installed apps.\<close>

definition e2e_application :: "(string \<Rightarrow> bool res) \<Rightarrow> (string \<Rightarrow> (string \<times> consumer_class) list option res) \<Rightarrow> 'h \<Rightarrow>
    (string \<times> consumer_class, 'h) application res" where
  "e2e_application find_spec load http =
     build_websocket_application (collect_websocket_urlpatterns find_spec load E2E_APPS) None (Some http) None True"

definition selected_transport :: "pydict \<Rightarrow> (string \<times> 't) list \<Rightarrow> 't option" where
  "selected_transport dj registry =
     (case dict_get dj ''STAPEL_COMM'' of
        PDict c \<Rightarrow> (case dict_get c ''SIGNAL_TRANSPORT'' of PStr name \<Rightarrow> map_of registry name | _ \<Rightarrow> None)
      | _ \<Rightarrow> None)"

text \<open>The envelope of a signal, as the core documents it.\<close>

definition core_frame :: "string \<Rightarrow> string \<Rightarrow> pydict \<Rightarrow> pydict" where
  "core_frame k t p = [(''v'', PInt 1), (''type'', PStr t), (''stream'', PStr k), (''payload'', PDict p)]"

text \<open>What the core's \<open>signal\<close> documents. Which keys and types are legal is the core's decision, the parameter
  \<open>legal\<close>: it validates the key, so a legal one parses, and it refuses the protocol's own frame types. A legal
  signal is scheduled, any other raises.\<close>

definition core_signals :: "canon \<Rightarrow> (string \<Rightarrow> string \<Rightarrow> bool) \<Rightarrow> 'l signaller \<Rightarrow>
    (string \<Rightarrow> pyval \<Rightarrow> 'l option \<Rightarrow> bool res \<times> 'l option) option \<Rightarrow> bool" where
  "core_signals build legal signal transport \<longleftrightarrow>
     (\<forall>k t. legal k t \<longrightarrow> (\<exists>sk. parse_stream_key build k = Inr sk) \<and> t \<notin> set PROTOCOL_FRAME_TYPES) \<and>
     (\<forall>k t p. if legal k t
        then signal (PStr k) (PStr t) p =
          Inr (\<lambda>l. (None, case transport of None \<Rightarrow> l | Some f \<Rightarrow> snd (f k (PDict (core_frame k t p)) l)))
        else \<exists>e. signal (PStr k) (PStr t) p = Inl e)"

definition started_registry :: "canon \<Rightarrow> (string \<Rightarrow> string) \<Rightarrow> 'l group_sender \<Rightarrow>
    (string \<times> (string \<Rightarrow> pyval \<Rightarrow> 'l option \<Rightarrow> bool res \<times> 'l option)) list" where
  "started_registry build sha gsend = register_transport (\<lambda>name f r. (name, f) # r) build sha gsend []"

lemma e2e_transport: "selected_transport (e2e_django url) (started_registry build sha gsend) = Some (deliver build sha gsend)"
  by (simp add: selected_transport_def e2e_django_def started_registry_def register_transport_def TRANSPORT_NAME_def
      dict_get_def)


section \<open>What a commit sends\<close>

text \<open>The rows of one request: their keys in order and the database, or what the database raised.\<close>

fun beat_rows :: "'d creator \<Rightarrow> string list \<Rightarrow> 'd \<Rightarrow> (int list \<times> 'd) res" where
  "beat_rows create [] d = Inr ([], d)"
| "beat_rows create (label # labels) d =
     rbind (create label d) (\<lambda>(pk, d'). rmap (\<lambda>(pks, d''). (pk # pks, d'')) (beat_rows create labels d'))"

definition scheduled :: "(string \<Rightarrow> pyval \<Rightarrow> 'l option \<Rightarrow> bool res \<times> 'l option) \<Rightarrow> string \<Rightarrow> pydict \<Rightarrow> 'l callback" where
  "scheduled transport k f l = (None, snd (transport k (PDict f) l))"

definition beat_frame :: "string \<Rightarrow> string \<Rightarrow> int \<times> int \<Rightarrow> pydict" where
  "beat_frame k t = (\<lambda>(pk, index). core_frame k t (beat_payload pk index))"

lemma core_signals_schedule:
  "core_signals build legal signal (Some transport) \<Longrightarrow> legal k t \<Longrightarrow>
     signal (PStr k) (PStr t) p = Inr (scheduled transport k (core_frame k t p))"
  by (simp add: core_signals_def scheduled_def fun_eq_iff)

lemma core_signals_legal:
  assumes "core_signals build legal signal transport" "legal k t"
  obtains g where "group_name build sha k = Inr g" "t \<notin> set PROTOCOL_FRAME_TYPES"
proof -
  obtain sk where "parse_stream_key build k = Inr sk" "t \<notin> set PROTOCOL_FRAME_TYPES"
    using assms unfolding core_signals_def by blast
  then show thesis by (intro that [of "fold_name sha (key_module sk) k"]) (simp_all add: group_name_def)
qed

text \<open>The first row of a refused stream raises, so nothing of it is committed.\<close>

lemma emit_rows_refused:
  assumes "core_signals build legal signal transport" "\<not> legal k t" "ixs \<noteq> []"
  shows "\<exists>e. fst (emit_rows create signal rp (PStr k) (PStr t) ixs x) = Inl e"
proof -
  obtain i rest where ixs: "ixs = i # rest" using assms(3) by (cases ixs) auto
  have refused: "\<exists>e. signal (PStr k) (PStr t) p = Inl e" for p
    using assms(1,2) unfolding core_signals_def by metis
  show ?thesis
  proof (cases "create (beat_label rp (PStr t) i) (database x)")
    case (Inr r)
    obtain pk d where r: "r = (pk, d)" by force
    obtain e where "signal (PStr k) (PStr t) (beat_payload pk i) = Inl e" using refused by blast
    then show ?thesis unfolding ixs by (simp add: Inr r)
  qed (simp add: ixs)
qed

lemma raised_transaction:
  assumes "commits_in_order atomic" "fst (body \<lparr>database = site_rows st, on_commit = []\<rparr>) = Inl e"
  shows "atomic body st = (Inl e, st)"
proof -
  obtain t where "body \<lparr>database = site_rows st, on_commit = []\<rparr> = (Inl e, t)"
    using assms(2) by (metis surjective_pairing)
  with assms(1) show ?thesis unfolding commits_in_order_def by fastforce
qed

lemma emit_rows_schedule:
  assumes "core_signals build legal signal (Some transport)" "legal k t"
  shows "case beat_rows create (map (beat_label rp (PStr t)) ixs) (database x) of
      Inl e \<Rightarrow> fst (emit_rows create signal rp (PStr k) (PStr t) ixs x) = Inl e
    | Inr (pks, d) \<Rightarrow> emit_rows create signal rp (PStr k) (PStr t) ixs x =
        (Inr (), \<lparr>database = d,
          on_commit = on_commit x @ map (scheduled transport k \<circ> beat_frame k t) (zip pks ixs)\<rparr>)"
proof (induction ixs arbitrary: x)
  case (Cons i ixs)
  note step = core_signals_schedule [OF assms]
  show ?case
  proof (cases "create (beat_label rp (PStr t) i) (database x)")
    case (Inr r)
    obtain pk d where r: "r = (pk, d)" by force
    let ?y = "x\<lparr>database := d, on_commit := on_commit x @ [scheduled transport k (beat_frame k t (pk, i))]\<rparr>"
    from Cons.IH [of ?y] show ?thesis
      by (cases "beat_rows create (map (beat_label rp (PStr t)) ixs) d") (auto simp: Inr r step beat_frame_def)
  qed simp
qed simp

lemma run_scheduled:
  assumes "group_name build sha k = Inr g" "\<forall>f\<in>set fs. py_in_strings (dict_get f ''type'') PROTOCOL_FRAME_TYPES = Inr False"
  shows "run_callbacks (map (scheduled (deliver build sha recorder) k) fs) (Some sends) =
    (None, Some (sends @ map (\<lambda>f. (g, signal_message k f)) fs))"
  using assms(2)
proof (induction fs arbitrary: sends)
  case (Cons f fs)
  then show ?case
    using assms(1) by (simp add: scheduled_def deliver_def do_group_send_def recorder_def)
qed simp

lemma hear_room:
  assumes "ready s (Suc n)" "d \<noteq> []" "map_of d ''stream'' \<noteq> None"
  shows "\<exists>s'. hear (g, signal_message k d) (E, s) = (E, s') \<and>
    (if in_group g s then ready s' n \<and> in_group g s' \<and> frames s' = frames s @ [d] else s' = s)"
proof -
  have one: "ready s 1" using assms(1) by (simp add: ready_def)
  have set: "dict_setdefault ''stream'' v d = d" for v using assms(3) by (auto simp: dict_setdefault_def)
  show ?thesis
    using signal_step [OF one assms(2), of E k] assms(1) ready_frames [OF one]
    by (auto simp: hear_def set ready_enqueue [OF one] in_group_def ready_def accepted_def)
qed

lemma beat_rows_length: "beat_rows create labels d = Inr (pks, d') \<Longrightarrow> length pks = length labels"
  by (induction labels arbitrary: d pks) (auto simp: rbind_eq_Inr_iff rmap_eq_Inr_iff)

text \<open>The queue of a socket of this host holds 500 frames.\<close>

lemma e2e_room: "reachable E s \<Longrightarrow> conf E = e2e_settings \<Longrightarrow> accepted s \<Longrightarrow> outbox_max s = 500"
  using reachable_bounded [of E s] unopened_not_accepted [of s]
  by (auto simp: bounded_def send_queue_maxsize_def e2e_settings_def)

lemma fan_out_each: "fan_out sends fleet = map (\<lambda>m. foldl (\<lambda>m gm. hear gm m) m sends) fleet"
  unfolding fan_out_def by (induction sends arbitrary: fleet) (simp_all add: comp_def)

lemma hear_burst:
  assumes "ready s (length ds)" "\<forall>d\<in>set ds. map_of d ''stream'' \<noteq> None"
  shows "\<exists>s'. foldl (\<lambda>m gm. hear gm m) (E, s) (map (\<lambda>d. (g, signal_message k d)) ds) = (E, s') \<and>
    (if in_group g s then frames s' = frames s @ ds else s' = s)"
  using assms
proof (induction ds arbitrary: s)
  case (Cons d ds)
  from Cons.prems have d: "d \<noteq> []" "map_of d ''stream'' \<noteq> None" and r: "ready s (Suc (length ds))" by auto
  from hear_room [OF r d, of g k E] obtain s1 where s1: "hear (g, signal_message k d) (E, s) = (E, s1)"
    "if in_group g s then ready s1 (length ds) \<and> in_group g s1 \<and> frames s1 = frames s @ [d] else s1 = s" by blast
  have "ready s (length ds)" using r by (simp add: ready_def)
  with s1(2) have "ready s1 (length ds)" by (auto split: if_splits)
  from Cons.IH [OF this] Cons.prems(2) s1 show ?case by (auto split: if_splits)
qed auto

lemma fan_out_burst:
  assumes "\<forall>(E, s)\<in>set fleet. ready s (length ds)" "\<forall>d\<in>set ds. map_of d ''stream'' \<noteq> None"
  shows "list_all2 (\<lambda>(E, s) (E', s'). E' = E \<and> (if in_group g s then frames s' = frames s @ ds else s' = s))
    fleet (fan_out (map (\<lambda>d. (g, signal_message k d)) ds) fleet)"
  unfolding fan_out_each list_all2_map2 list_all2_same
proof
  fix m assume m: "m \<in> set fleet"
  obtain E s where E: "m = (E, s)" by force
  with m have "ready s (length ds)" using assms(1) by auto
  from hear_burst [OF this assms(2), of E g k] E show "(\<lambda>(E, s) (E', s'). E' = E \<and> (if in_group g s then frames s' = frames s @ ds else s' = s)) m
    (foldl (\<lambda>m gm. hear gm m) m (map (\<lambda>d. (g, signal_message k d)) ds))" by auto
qed

text \<open>The transaction of a request: the rows and a callback for each, or nothing.\<close>

lemma emit_commits:
  assumes django: "commits_in_order atomic" and signals: "core_signals build legal signal (Some (deliver build sha recorder))"
    and legal: "legal k t" and group: "group_name build sha k = Inr g"
  shows "atomic (emit_rows create signal rp (PStr k) (PStr t) ixs) \<lparr>site_rows = db, site_layer = Some []\<rparr> =
    (case beat_rows create (map (beat_label rp (PStr t)) ixs) db of
       Inl e \<Rightarrow> (Inl e, \<lparr>site_rows = db, site_layer = Some []\<rparr>)
     | Inr (pks, db') \<Rightarrow> (Inr (), \<lparr>site_rows = db',
         site_layer = Some (map (\<lambda>f. (g, signal_message k f)) (map (beat_frame k t) (zip pks ixs)))\<rparr>))"
proof -
  let ?x = "\<lparr>database = db, on_commit = []\<rparr>" and ?T = "deliver build sha recorder"
  have t: "t \<notin> set PROTOCOL_FRAME_TYPES" using core_signals_legal [OF signals legal] by blast
  note rows = emit_rows_schedule [OF signals legal, where create = create and rp = rp and ixs = ixs and x = ?x]
  show ?thesis
  proof (cases "beat_rows create (map (beat_label rp (PStr t)) ixs) db")
    case (Inl e)
    with rows have "fst (emit_rows create signal rp (PStr k) (PStr t) ixs ?x) = Inl e" by simp
    then show ?thesis using raised_transaction [OF django] Inl by simp
  next
    case (Inr r)
    obtain pks db' where r: "r = (pks, db')" by force
    define fs where "fs = map (beat_frame k t) (zip pks ixs)"
    have "\<forall>f\<in>set fs. py_in_strings (dict_get f ''type'') PROTOCOL_FRAME_TYPES = Inr False"
      using t by (auto simp: fs_def beat_frame_def core_frame_def dict_get_def)
    note sends = run_scheduled [OF group this, of "[]"]
    have "emit_rows create signal rp (PStr k) (PStr t) ixs ?x = (Inr (), \<lparr>database = db', on_commit = map (scheduled ?T k) fs\<rparr>)"
      using rows by (simp add: Inr r fs_def)
    then show ?thesis
      unfolding Inr r sum.case prod.case fs_def [symmetric]
      using django sends unfolding commits_in_order_def by fastforce
  qed
qed

section \<open>Properties\<close>

text \<open>C8: A bulk write reaches everyone, or nothing happened. A request to \<open>emit\<close> that writes n rows in one
  transaction for a stream and a type the core accepts either raises what the database raised and leaves the rows
  and the layer as they were, or writes all the rows and, after the commit, sends one signal for each; their
  dispatch appends the n frames, in the order of the rows and with their keys, to every socket that is a member of
  the stream's group, and changes no other socket. This holds for any fleet of this host's open sockets with room
  for n frames in the 500 the settings give a queue. When the core refuses the stream or the type (an invalid key, a
  name of the protocol's), a request for any rows raises and leaves the rows and the layer as they were.\<close>

theorem bulk_emit_reaches_everyone:
  assumes django: "commits_in_order atomic"
    and core: "core_signals build legal signal (selected_transport (e2e_django url) (started_registry build sha recorder))"
    and body: "request_json loads raw = Inr (PDict d)" "map_of d ''stream'' = Some (PStr k)"
      "rbind (body_get (PDict d) ''count'' (PInt 1)) py_int = Inr (int n)"
      "body_get (PDict d) ''type'' (PStr ''beat.tick'') = Inr (PStr t)"
    and fleet: "\<forall>(E, s)\<in>set fleet. reachable E s \<and> conf E = e2e_settings \<and> phase s = Idle \<and> accepted s \<and>
      \<not> closing s \<and> length (outbox s) + n \<le> 500"
  shows "if legal k t then \<exists>g. group_name build sha k = Inr g \<and>
     (case beat_rows create (map (beat_label rp (PStr t)) [0..int n - 1]) db of
      Inl e \<Rightarrow> emit_view loads create signal atomic rp seconds raw \<lparr>site_rows = db, site_layer = Some []\<rparr> =
        (Inl e, \<lparr>site_rows = db, site_layer = Some []\<rparr>)
    | Inr (pks, db') \<Rightarrow> \<exists>sends.
        emit_view loads create signal atomic rp seconds raw \<lparr>site_rows = db, site_layer = Some []\<rparr> =
          (Inr [(''emitted'', PInt (int n)), (''seconds'', PFloat seconds)],
            \<lparr>site_rows = db', site_layer = Some sends\<rparr>) \<and>
        list_all2 (\<lambda>(E, s) (E', s'). E' = E \<and>
            (if in_group g s then frames s' = frames s @ map (beat_frame k t) (zip pks [0..int n - 1]) else s' = s))
          fleet (fan_out sends fleet))
    else n = 0 \<or> (\<exists>e. emit_view loads create signal atomic rp seconds raw \<lparr>site_rows = db, site_layer = Some []\<rparr> =
        (Inl e, \<lparr>site_rows = db, site_layer = Some []\<rparr>))"
proof -
  let ?is = "[0..int n - 1]" and ?site = "\<lparr>site_rows = db, site_layer = Some []\<rparr>"
  have signals: "core_signals build legal signal (Some (deliver build sha recorder))" using core by (simp only: e2e_transport)
  have view: "emit_view loads create signal atomic rp seconds raw ?site =
      map_prod (rmap (\<lambda>u. [(''emitted'', PInt (int n)), (''seconds'', PFloat seconds)])) id
        (atomic (emit_rows create signal rp (PStr k) (PStr t) ?is) ?site)"
    using body by (simp add: emit_view_def py_item_def)
  have refused: "\<exists>e. emit_view loads create signal atomic rp seconds raw ?site = (Inl e, ?site)"
    if "\<not> legal k t" "n \<noteq> 0"
  proof -
    have "?is \<noteq> []" using that(2) by simp
    from emit_rows_refused [OF signals that(1) this, of create rp "\<lparr>database = db, on_commit = []\<rparr>"] obtain e where
      "fst (emit_rows create signal rp (PStr k) (PStr t) ?is \<lparr>database = db, on_commit = []\<rparr>) = Inl e" by blast
    with raised_transaction [OF django, of "emit_rows create signal rp (PStr k) (PStr t) ?is" ?site e] view
    show ?thesis by simp
  qed
  have sent: "case beat_rows create (map (beat_label rp (PStr t)) ?is) db of
      Inl e \<Rightarrow> emit_view loads create signal atomic rp seconds raw ?site = (Inl e, ?site)
    | Inr (pks, db') \<Rightarrow> \<exists>sends.
        emit_view loads create signal atomic rp seconds raw ?site =
          (Inr [(''emitted'', PInt (int n)), (''seconds'', PFloat seconds)],
            \<lparr>site_rows = db', site_layer = Some sends\<rparr>) \<and>
        list_all2 (\<lambda>(E, s) (E', s'). E' = E \<and>
            (if in_group g s then frames s' = frames s @ map (beat_frame k t) (zip pks ?is) else s' = s))
          fleet (fan_out sends fleet)" if legal: "legal k t" and group: "group_name build sha k = Inr g" for g
  proof (cases "beat_rows create (map (beat_label rp (PStr t)) ?is) db")
    case (Inl e)
    with emit_commits [OF django signals legal group, of create rp ?is db] view show ?thesis by simp
  next
    case (Inr r)
    obtain pks db' where r: "r = (pks, db')" by force
    define fs where "fs = map (beat_frame k t) (zip pks ?is)"
    have "length pks = length ?is" using beat_rows_length Inr r by fastforce
    then have "\<forall>(E, s)\<in>set fleet. ready s (length fs)"
      using fleet e2e_room by (fastforce simp: ready_def fs_def)
    moreover have "\<forall>f\<in>set fs. map_of f ''stream'' \<noteq> None" by (auto simp: fs_def beat_frame_def core_frame_def)
    ultimately have heard: "list_all2 (\<lambda>(E, s) (E', s'). E' = E \<and>
        (if in_group g s then frames s' = frames s @ fs else s' = s)) fleet
        (fan_out (map (\<lambda>f. (g, signal_message k f)) fs) fleet)" by (rule fan_out_burst)
    have "emit_view loads create signal atomic rp seconds raw ?site =
        (Inr [(''emitted'', PInt (int n)), (''seconds'', PFloat seconds)],
          \<lparr>site_rows = db', site_layer = Some (map (\<lambda>f. (g, signal_message k f)) fs)\<rparr>)"
      unfolding view emit_commits [OF django signals legal group] Inr r fs_def by simp
    with heard show ?thesis
      unfolding Inr r sum.case prod.case fs_def [symmetric] by blast
  qed
  show ?thesis
  proof (cases "legal k t")
    case True
    obtain g where g: "group_name build sha k = Inr g" using core_signals_legal [OF signals True] by blast
    show ?thesis by (subst if_P [OF True]) (intro exI [of _ g] conjI g sent [OF True g])
  next
    case False
    show ?thesis by (subst if_not_P [OF False]) (use refused [OF False] in blast)
  qed
qed

text \<open>A site where the hypotheses hold: rows are labels, a transaction does what Django documents, the signal is
  scheduled for the transport the settings name, and one socket of a signed-in user is open.\<close>

definition sample_atomic :: "('d, 'l) atomic" where
  "sample_atomic body st =
     (case body \<lparr>database = site_rows st, on_commit = []\<rparr> of
        (Inl e, t) \<Rightarrow> (Inl e, st)
      | (Inr u, t) \<Rightarrow>
          (case run_callbacks (on_commit t) (site_layer st) of
             (None, l) \<Rightarrow> (Inr (), \<lparr>site_rows = database t, site_layer = l\<rparr>)
           | (Some e, l) \<Rightarrow> (Inl e, \<lparr>site_rows = database t, site_layer = l\<rparr>)))"

definition sample_creator :: "string list creator" where
  "sample_creator label d = Inr (int (length d), d @ [label])"

definition sample_legal :: "string \<Rightarrow> string \<Rightarrow> bool" where
  "sample_legal k t \<longleftrightarrow>
     (case parse_stream_key sample_canon k of Inl e \<Rightarrow> False | Inr sk \<Rightarrow> t \<notin> set PROTOCOL_FRAME_TYPES)"

definition sample_signaller :: "(string \<times> pydict) list signaller" where
  "sample_signaller stream signal_type p =
     (case (stream, signal_type) of
        (PStr k, PStr t) \<Rightarrow>
          if sample_legal k t then Inr (scheduled (deliver sample_canon id recorder) k (core_frame k t p))
          else Inl InvalidStreamKey
      | _ \<Rightarrow> Inl TypeError)"

definition e2e_env :: env where
  "e2e_env = sample_env\<lparr>cls := E2EConsumer, conf := e2e_settings,
     scope_of := (scope_of sample_env)\<lparr>scope_kwargs := [(''workspace_id'', IdStr ''42'')]\<rparr>\<rparr>"

definition e2e_sock :: sock where
  "e2e_sock =
     new_sock\<lparr>stream_key := Some ''e2e:ws:42'', sgroup := Some ''e2e.ws.42'', presence_session := Some ''c1'',
       outbox_max := 500, authorized_until := Fin 30, writing := True, beat := Sleeping (Fin 30), phase := Idle,
       log := [GroupAdd ''e2e.ws.42'', Accept, Presence (RecordConnect 0 (Some (IdInt 7)) ''c1'' (Some ''e2e''))]\<rparr>"

lemma sample_site:
  "commits_in_order sample_atomic"
  "core_signals sample_canon sample_legal sample_signaller (selected_transport (e2e_django url) (started_registry sample_canon id recorder))"
  unfolding e2e_transport
  by (auto simp: commits_in_order_def sample_atomic_def core_signals_def sample_signaller_def sample_legal_def scheduled_def
      fun_eq_iff split: sum.splits)

lemma e2e_canon: "sample_canon ''e2e'' ''ws'' ''42'' None = Inr ''e2e:ws:42''"
  "group_name sample_canon id ''e2e:ws:42'' = Inr ''e2e.ws.42''"
  by code_simp+

lemma e2e_settings_read [simp]:
  "send_queue_maxsize e2e_settings = Inr 500" "heartbeat_interval e2e_settings = Inr (Fin 30)"
  "authorize_ttl e2e_settings = Inr (Fin 30)" "heartbeat_timeout e2e_settings = Inr (Fin 10)"
  by (simp_all add: conf_defs e2e_settings_def defaults_def py_or_def float_limit_def pf_max_def)

lemma e2e_reachable: "reachable e2e_env e2e_sock"
proof -
  have key: "get_stream_key e2e_env = Inr ''e2e:ws:42''"
    using e2e_canon by (simp add: get_stream_key_def e2e_env_def E2EConsumer_def sample_env_def)
  have family: "parse_stream_key sample_canon ''e2e:ws:42'' =
      Inr \<lparr>key_module = ''e2e'', key_scope_type = ''ws'', key_scope_id = ''42'', key_topic = None\<rparr>"
    by code_simp
  have "settle (connect e2e_env 0 0 True new_sock) = e2e_sock"
    using key e2e_canon(2) family
    by (simp add: connect_def Let_def subscribe_def authorize_cached_def authorize_def after_accept_def
        presence_family_def settle_def e2e_env_def E2EConsumer_def any_signed_in_user_def sample_env_def e2e_sock_def
        socket_user_id_def opt_or_def start_beat_def emit_def new_sock_def)
  then show ?thesis
    using reachable.step [OF reachable.start moves.connects [of new_sock e2e_env 0 0 True]] by simp
qed

lemma e2e_legal: "sample_legal ''e2e:ws:42'' ''beat.tick''" "sample_legal ''e2e:ws:42'' ''beat.doomed''"
  by code_simp+

theorem bulk_emit_reaches_everyone_witness:
  "\<exists>g. group_name sample_canon id ''e2e:ws:42'' = Inr g \<and>
   (case beat_rows sample_creator (map (beat_label (\<lambda>v. []) (PStr ''beat.tick'')) [0..int 2 - 1]) [] of
      Inl e \<Rightarrow> emit_view (\<lambda>r. Inr (PDict [(''stream'', PStr ''e2e:ws:42''), (''count'', PInt 2)])) sample_creator
          sample_signaller sample_atomic (\<lambda>v. []) (Fin 0) ''x'' \<lparr>site_rows = [], site_layer = Some []\<rparr> =
        (Inl e, \<lparr>site_rows = [], site_layer = Some []\<rparr>)
    | Inr (pks, db') \<Rightarrow> \<exists>sends.
        emit_view (\<lambda>r. Inr (PDict [(''stream'', PStr ''e2e:ws:42''), (''count'', PInt 2)])) sample_creator
          sample_signaller sample_atomic (\<lambda>v. []) (Fin 0) ''x'' \<lparr>site_rows = [], site_layer = Some []\<rparr> =
          (Inr [(''emitted'', PInt (int 2)), (''seconds'', PFloat (Fin 0))],
            \<lparr>site_rows = db', site_layer = Some sends\<rparr>) \<and>
        list_all2 (\<lambda>(E, s) (E', s'). E' = E \<and>
            (if in_group g s
             then frames s' = frames s @ map (beat_frame ''e2e:ws:42'' ''beat.tick'') (zip pks [0..int 2 - 1])
             else s' = s))
          [(e2e_env, e2e_sock)] (fan_out sends [(e2e_env, e2e_sock)]))"
proof -
  let ?body = "[(''stream'', PStr ''e2e:ws:42''), (''count'', PInt 2)]"
  have fleet: "\<forall>(E, s)\<in>set [(e2e_env, e2e_sock)]. reachable E s \<and> conf E = e2e_settings \<and> phase s = Idle \<and>
      accepted s \<and> \<not> closing s \<and> length (outbox s) + 2 \<le> 500"
    using e2e_reachable by (simp add: e2e_env_def e2e_sock_def new_sock_def accepted_def)
  have body: "rbind (body_get (PDict ?body) ''count'' (PInt 1)) py_int = Inr (int 2)"
    "body_get (PDict ?body) ''type'' (PStr ''beat.tick'') = Inr (PStr ''beat.tick'')"
    "map_of ?body ''stream'' = Some (PStr ''e2e:ws:42'')"
    by (simp_all add: body_get_def)
  have loads: "request_json (\<lambda>r. Inr (PDict ?body)) ''x'' = Inr (PDict ?body)" by (simp add: request_json_def)
  from bulk_emit_reaches_everyone [OF sample_site loads body(3,1,2) fleet, where create = sample_creator
      and rp = "\<lambda>v. []" and seconds = "Fin 0" and db = "[]"]
  show ?thesis by (simp only: e2e_legal(1) if_True)
qed

text \<open>C20: A rolled-back transaction sends nothing: whatever the request, \<open>emit_rollback\<close> leaves the rows and the
  layer as they were; the signal it scheduled is never sent, and the answer says that the transaction was rolled
  back, unless the request has no stream or the database or the core refuse first.\<close>

theorem rollback_sends_nothing:
  assumes "commits_in_order atomic"
  shows "snd (emit_rollback loads create signal atomic raw st) = st \<and>
    (request_json loads raw = Inr body \<and> create ''doomed'' (site_rows st) = Inr (pk, db') \<and>
      rbind (py_item body ''stream'') (\<lambda>k. signal k (PStr ''beat.doomed'') [(''doomed'', PBool True)]) = Inr c \<longrightarrow>
      fst (emit_rollback loads create signal atomic raw st) = Inr [(''rolled_back'', PBool True)])"
proof -
  let ?x = "\<lparr>database = site_rows st, on_commit = []\<rparr>"
  have raises: "\<exists>e y. rollback_body create signal b ?x = (Inl e, y)" for b
    by (auto simp: rollback_body_def split: sum.splits)
  have undone: "rollback_body create signal b ?x = (Inl e, y) \<Longrightarrow>
      atomic (rollback_body create signal b) st = (Inl e, st)" for b e y
    using assms unfolding commits_in_order_def by fastforce
  have "snd (emit_rollback loads create signal atomic raw st) = st"
  proof (cases "request_json loads raw")
    case (Inr b)
    with raises [of b] undone show ?thesis by (fastforce simp: emit_rollback_def)
  qed (simp add: emit_rollback_def)
  moreover have "fst (emit_rollback loads create signal atomic raw st) = Inr [(''rolled_back'', PBool True)]"
    if "request_json loads raw = Inr body" "create ''doomed'' (site_rows st) = Inr (pk, db')"
      "rbind (py_item body ''stream'') (\<lambda>k. signal k (PStr ''beat.doomed'') [(''doomed'', PBool True)]) = Inr c"
  proof -
    have "rollback_body create signal body ?x =
        (Inl Rollback, \<lparr>database = db', on_commit = [c]\<rparr>)"
      using that by (simp add: rollback_body_def)
    with undone that show ?thesis by (simp add: emit_rollback_def)
  qed
  ultimately show ?thesis by blast
qed

theorem rollback_sends_nothing_witness:
  "snd (emit_rollback (\<lambda>r. Inr (PDict [(''stream'', PStr ''e2e:ws:42'')])) sample_creator sample_signaller sample_atomic
      ''x'' \<lparr>site_rows = [], site_layer = Some []\<rparr>) = \<lparr>site_rows = [], site_layer = Some []\<rparr> \<and>
    fst (emit_rollback (\<lambda>r. Inr (PDict [(''stream'', PStr ''e2e:ws:42'')])) sample_creator sample_signaller sample_atomic
      ''x'' \<lparr>site_rows = [], site_layer = Some []\<rparr>) = Inr [(''rolled_back'', PBool True)]"
  using rollback_sends_nothing [OF sample_site(1), of "\<lambda>r. Inr (PDict [(''stream'', PStr ''e2e:ws:42'')])" sample_creator
      sample_signaller "''x''" "\<lparr>site_rows = [], site_layer = Some []\<rparr>" "PDict [(''stream'', PStr ''e2e:ws:42'')]" 0
      "[''doomed'']" "scheduled (deliver sample_canon id recorder) ''e2e:ws:42''
         (core_frame ''e2e:ws:42'' ''beat.doomed'' [(''doomed'', PBool True)])"]
  by (simp add: request_json_def sample_creator_def py_item_def sample_signaller_def e2e_legal(2))

text \<open>Running the checks: the messages of all of them, or the first exception.\<close>

definition run_checks :: "(host \<Rightarrow> message list res) list \<Rightarrow> host \<Rightarrow> message list res" where
  "run_checks checks h = rmap concat (rmapM (\<lambda>c. c h) checks)"

lemma e2e_default_layer: "default_layer (e2e_host url env) = Inr (PDict
   [(''BACKEND'', PStr ''channels_redis.core.RedisChannelLayer''),
    (''CONFIG'', PDict [(''hosts'', PList [PStr url])])])"
  by (simp add: default_layer_def e2e_host_def e2e_django_def or_dict_def py_get_def py_or_def dict_get_def)

lemma e2e_host_fields [simp]: "package (e2e_host url env) = e2e_settings" "django (e2e_host url env) = e2e_django url"
  by (simp_all add: e2e_host_def)

lemma e2e_check_layer: "check_channel_layer (e2e_host url env) = Inr []"
  by (simp add: check_channel_layer_def e2e_default_layer py_get_def dict_get_def IN_MEMORY_def)

text \<open>No timeout is stated, so the value of redis-py decides, against the floor of 60 + 10 seconds.\<close>

lemma e2e_check_timeout: "check_layer_socket_timeout lib (e2e_host url env) =
   rmap (\<lambda>inherited. case inherited of None \<Rightarrow> []
      | Some f \<Rightarrow> if pf_lt f (Fin 70) then [check_error ''realtime.E002''] else [])
     (redis_library_default_timeout lib)"
proof -
  have "sublist ''channels_redis'' ''channels_redis.core.RedisChannelLayer''" by code_simp
  moreover have "layer_floor (e2e_host url env) (PDict [(''hosts'', PList [PStr url])]) = Inr (Fin 70)"
    by (simp add: layer_floor_def e2e_settings_def defaults_def float_limit_def)
  moreover have "layer_sources (PDict [(''hosts'', PList [PStr url])]) =
      Inr [PDict [(''hosts'', PList [PStr url])], PDict []]"
    by (simp add: layer_sources_def py_get_def or_dict_def py_or_def dict_get_def is_dict_def)
  ultimately show ?thesis
    by (simp add: check_layer_socket_timeout_def e2e_default_layer py_get_def dict_get_def py_or_def or_dict_def)
qed

lemma e2e_ports:
  "nat_str 8771 = ''8771''" "nat_str 8772 = ''8772''"
  "url_port \<lparr>url_scheme = ''http'', url_netloc = ''127.0.0.1:8771''\<rparr> = Inr (Some 8771)"
  "url_port \<lparr>url_scheme = ''http'', url_netloc = ''127.0.0.1:8772''\<rparr> = Inr (Some 8772)"
  by (simp add: nat_str.simps, code_simp)+ (simp_all add: port_defs)

lemma e2e_urls:
  "urlsplit (str_strip ''http://127.0.0.1:8771'') = Inr \<lparr>url_scheme = ''http'', url_netloc = ''127.0.0.1:8771''\<rparr>"
  "urlsplit (str_strip ''http://127.0.0.1:8772'') = Inr \<lparr>url_scheme = ''http'', url_netloc = ''127.0.0.1:8772''\<rparr>"
  "lower (url_hostname \<lparr>url_scheme = ''http'', url_netloc = ''127.0.0.1:8771''\<rparr>) = ''127.0.0.1''"
  "lower (url_hostname \<lparr>url_scheme = ''http'', url_netloc = ''127.0.0.1:8772''\<rparr>) = ''127.0.0.1''"
  by code_simp+

text \<open>What the guard of this host does with the origins of the two workers and with any other.\<close>

lemma e2e_origins:
  "normalize_text ''http://127.0.0.1:8771'' = Inr ''http://127.0.0.1:8771''"
  "normalize_text ''http://127.0.0.1:8772'' = Inr ''http://127.0.0.1:8772''"
  using normalize_known(1) [OF e2e_urls(1) e2e_ports(3) sample_hosts(1) e2e_urls(3)]
    normalize_known(1) [OF e2e_urls(2) e2e_ports(4) sample_hosts(1) e2e_urls(4)]
  by (simp_all add: render_origin_def DEFAULT_PORTS_def e2e_ports)

lemma e2e_guard:
  assumes "site_registry_origins reg = Inr []" "conn_type conn = ''websocket''" "origin_header conn = Some origin"
  shows "guard_call e2e_settings reg None conn =
    Inr (if normalize_text origin \<in> {Inr ''http://127.0.0.1:8771'', Inr ''http://127.0.0.1:8772''} then PassOn
         else Refuse CLOSE_FORBIDDEN)"
proof -
  have "configured e2e_settings reg None =
      Inr [PStr ''http://127.0.0.1:8771'', PStr ''http://127.0.0.1:8772'']"
    using assms(1) by (simp add: configured_def e2e_settings_def py_or_def)
  moreover from this have "allowed e2e_settings reg None = Inr [''http://127.0.0.1:8771'', ''http://127.0.0.1:8772'']"
    by (simp add: allowed_def normalize_origin_def e2e_origins)
  ultimately show ?thesis
    using assms(2,3) normalize_text_errors [of origin]
    by (cases "normalize_text origin") (simp_all add: guard_call_def)
qed

lemma e2e_check_rest:
  "site_registry_origins reg = Inr os \<Longrightarrow> check_allowed_origins reg (e2e_host url env) = Inr []"
  "check_heartbeat (e2e_host url env) = Inr []"
  "check_route_prefix rp (Inr (map fst e2e_websocket_urlpatterns)) (e2e_host url env) = Inr []"
  "check_bare_url_prefix (e2e_host url env) = Inr []"
  "check_presence_cache rp (e2e_host url env) = Inr [check_warning ''realtime.W005'']"
  "check_presence_ttl (e2e_host url env) = Inr []"
proof -
  show "site_registry_origins reg = Inr os \<Longrightarrow> check_allowed_origins reg (e2e_host url env) = Inr []"
    by (simp add: check_allowed_origins_def e2e_settings_def py_or_def normalize_origin_def e2e_origins)
  show "check_heartbeat (e2e_host url env) = Inr []" by (simp add: check_heartbeat_def)
  have "url_prefix rp (e2e_django url) = ''ws''"
    by (simp add: url_prefix_def overrides_def e2e_django_def dict_get_def namespace_def URL_PREFIX_DEFAULT_def)
  then show "check_route_prefix rp (Inr (map fst e2e_websocket_urlpatterns)) (e2e_host url env) = Inr []"
    by (simp add: check_route_prefix_def e2e_websocket_urlpatterns_def outside_prefix_def slash_def strip_with_def)
  show "check_bare_url_prefix (e2e_host url env) = Inr []"
    by (simp add: check_bare_url_prefix_def e2e_django_def)
  have ttl: "strict_ttl (e2e_host url env) = Inr 60"
    by (simp add: strict_ttl_def e2e_settings_def defaults_def py_or_def)
  have "presence_cache_backend rp (e2e_host url env) = Inr LOCMEM"
    by (simp add: presence_cache_backend_def e2e_django_def dict_get_def or_dict_def py_or_def py_get_def LOCMEM_def)
  moreover have "sublist ''locmem'' LOCMEM" by code_simp
  ultimately show "check_presence_cache rp (e2e_host url env) = Inr [check_warning ''realtime.W005'']"
    by (simp add: check_presence_cache_def ttl)
  show "check_presence_ttl (e2e_host url env) = Inr []" by (simp add: check_presence_ttl_def ttl)
qed

text \<open>C39: The host against its own checks, whose settings leave the layer's timeout unset: with a redis-py that
  blocks forever by default, or whose default timeout is at least the floor of 70 seconds, the only message is the
  warning about the process-local cache; with one whose default is below the floor, the five seconds of redis-py 8
  for instance, the check of the layer's timeout is an error as well.\<close>

theorem e2e_host_checks:
  assumes "site_registry_origins reg = Inr os" and "v \<noteq> PNone" "py_float v = Inr f"
  shows "run_checks (ALL_CHECKS None reg rp (Inr (map fst e2e_websocket_urlpatterns))) (e2e_host url env) =
      Inr [check_warning ''realtime.W005''] \<and>
    run_checks (ALL_CHECKS (Some v) reg rp (Inr (map fst e2e_websocket_urlpatterns))) (e2e_host url env) =
      Inr ((if pf_lt f (Fin 70) then [check_error ''realtime.E002''] else []) @ [check_warning ''realtime.W005''])"
  using assms
  by (simp add: run_checks_def ALL_CHECKS_def e2e_check_layer e2e_check_timeout e2e_check_rest
      redis_library_default_timeout_def del: list.map)

theorem e2e_host_checks_witness:
  "run_checks (ALL_CHECKS None NoRegistry (\<lambda>v. []) (Inr (map fst e2e_websocket_urlpatterns))) (e2e_host ''r'' []) =
      Inr [check_warning ''realtime.W005''] \<and>
    run_checks (ALL_CHECKS (Some (PInt 5)) NoRegistry (\<lambda>v. []) (Inr (map fst e2e_websocket_urlpatterns))) (e2e_host ''r'' []) =
      Inr [check_error ''realtime.E002'', check_warning ''realtime.W005'']"
  using e2e_host_checks [of NoRegistry "[]" "PInt 5" "Fin 5" "\<lambda>v. []" "''r''" "[]"]
  by (simp add: site_registry_origins_def float_limit_def)

end
