(* ===== verification/Package.thy ===== *)
theory Package
  imports Surface
begin

text \<open>
  The package as a set of modules: what each imports when it is loaded, what it exports, and what an import does
  in a process where some of the third-party packages are installed. The package promises that only the
  consumers and the test harness need Channels. Imports of the standard library, which never fail, and those that
  are made inside a function when it is called are left out; the latter are parameters where the call is modelled.
\<close>

section \<open>Imports\<close>

text \<open>An import of a package that must be there (whether its \<open>ImportError\<close> is raised again with a better message
  or not), one whose absence is caught, and one of a module of this package with the names that are taken from it
  (none when the module itself is).\<close>

datatype import_stmt = Needs string | Tries string | Own string "string list"

definition authorize_imports :: "import_stmt list" where
  "authorize_imports = [Own ''streams'' [''WORKSPACE_SCOPE'', ''InvalidStreamKey'', ''parse_stream_key'']]"

definition asgi_imports :: "import_stmt list" where
  "asgi_imports = [Own ''close_codes'' [''CLOSE_FORBIDDEN''], Own ''conf'' [''realtime_settings'']]"

definition checks_imports :: "import_stmt list" where
  "checks_imports =
     [Needs ''django.core.checks'', Own ''asgi'' [''normalize_origin'', ''site_registry_origins''],
      Own ''conf'' [''URL_PREFIX_DEFAULT'', ''realtime_settings'', ''url_prefix'']]"

definition close_codes_imports :: "import_stmt list" where
  "close_codes_imports = [Tries ''stapel_core.django.jwt.channels'']"

definition conf_imports :: "import_stmt list" where
  "conf_imports = [Needs ''stapel_core.conf'']"

definition consumers_imports :: "import_stmt list" where
  "consumers_imports =
     [Needs ''channels.generic.websocket'', Needs ''asgiref.sync'',
      Own ''envelope'' [], Own ''presence'' [], Own ''authorize'' [''deny''],
      Own ''close_codes'' [''CLOSE_FORBIDDEN'', ''CLOSE_HEARTBEAT_TIMEOUT'', ''CLOSE_OVERFLOW'', ''CLOSE_PROTOCOL_ERROR'',
        ''CLOSE_REVOKED'', ''CLOSE_STREAM_UNKNOWN'', ''CLOSE_UNAUTHENTICATED''],
      Own ''conf'' [''realtime_settings''],
      Own ''delivery'' [''GROUP_TYPE_FRAME'', ''GROUP_TYPE_REVOKE'', ''GROUP_TYPE_SIGNAL''],
      Own ''streams'' [''InvalidStreamKey'', ''build_stream_key'', ''group_name'', ''parse_stream_key'']]"

definition delivery_imports :: "import_stmt list" where
  "delivery_imports = [Own ''envelope'' [], Own ''streams'' [''group_name'']]"

definition envelope_imports :: "import_stmt list" where
  "envelope_imports = []"

definition functions_imports :: "import_stmt list" where
  "functions_imports = [Needs ''stapel_core.comm'', Own ''presence'' []]"

definition presence_imports :: "import_stmt list" where
  "presence_imports = [Own ''conf'' [''realtime_settings'']]"

definition streams_imports :: "import_stmt list" where
  "streams_imports = [Needs ''stapel_core.comm.exceptions'', Needs ''stapel_core.comm.signals'']"

definition testing_imports :: "import_stmt list" where
  "testing_imports = [Needs ''channels.testing.websocket'', Own ''envelope'' []]"

definition ready_imports :: "import_stmt list" where
  "ready_imports =
     [Own ''functions'' [], Own ''checks'' [''register_checks''], Own ''delivery'' [''register_transport'']]"

section \<open>Exports\<close>

definition asgi_all :: "string list" where
  "asgi_all =
     [''OriginGuard'', ''build_websocket_application'', ''collect_websocket_urlpatterns'', ''normalize_origin'',
      ''site_registry_origins'']"

definition authorize_all :: "string list" where
  "authorize_all = [''WorkspaceCapability'', ''deny'', ''user_id_from_scope'']"

definition checks_all :: "string list" where
  "checks_all =
     [''ALL_CHECKS'', ''check_allowed_origins'', ''check_bare_url_prefix'', ''check_channel_layer'', ''check_heartbeat'',
      ''check_layer_socket_timeout'', ''check_presence_cache'', ''check_presence_ttl'', ''check_route_prefix'',
      ''register_checks'']"

definition close_codes_all :: "string list" where
  "close_codes_all =
     [''CLOSE_PROTOCOL_ERROR'', ''CLOSE_UNAUTHENTICATED'', ''CLOSE_FORBIDDEN'', ''CLOSE_STREAM_UNKNOWN'',
      ''CLOSE_HEARTBEAT_TIMEOUT'', ''CLOSE_REVOKED'', ''CLOSE_OVERFLOW'', ''CLOSE_DATA_HOME_UNAVAILABLE'',
      ''CLOSE_CODE_NAMES'', ''TERMINAL_CLOSE_CODES'', ''close_code_name'']"

definition conf_all :: "string list" where
  "conf_all = [''NON_APPSETTINGS_AXES'', ''URL_PREFIX_DEFAULT'', ''realtime_settings'', ''url_prefix'']"

definition consumers_all :: "string list" where
  "consumers_all =
     [''BaseStreamConsumer'', ''EphemeralStreamConsumer'', ''ResumableStreamConsumer'', ''JournalRow'',
      ''GROUP_TYPE_FRAME'', ''GROUP_TYPE_REVOKE'', ''GROUP_TYPE_SIGNAL'']"

definition delivery_all :: "string list" where
  "delivery_all =
     [''TRANSPORT_NAME'', ''GROUP_TYPE_SIGNAL'', ''GROUP_TYPE_FRAME'', ''GROUP_TYPE_REVOKE'', ''deliver'',
      ''deliver_frame'', ''register_transport'', ''revoke'']"

definition envelope_all :: "string list" where
  "envelope_all =
     [''WIRE_VERSION'', ''HELLO'', ''PING'', ''PONG'', ''WELCOME'', ''REPLAY'', ''REPLAY_DONE'', ''LIVE'', ''EPHEMERAL'',
      ''RESYNC'', ''KICK'', ''ERROR'', ''CLIENT_FRAME_TYPES'', ''SERVER_FRAME_TYPES'', ''PROTOCOL_FRAME_TYPES'',
      ''ERROR_BAD_ENVELOPE'', ''ERROR_BAD_TYPE'', ''ERROR_UNAUTHORIZED'', ''Frame'', ''InvalidEnvelope'', ''frame'',
      ''error_frame'', ''parse_frame'']"

definition functions_all :: "string list" where
  "functions_all = [''is_live'', ''live_batch'']"

definition presence_all :: "string list" where
  "presence_all =
     [''MAX_BATCH'', ''PRESENCE_KEY'', ''PRESENCE_NAMESPACE'', ''is_live'', ''live_batch'', ''record_connect'',
      ''record_disconnect'', ''record_heartbeat'']"

definition streams_all :: "string list" where
  "streams_all =
     [''WORKSPACE_SCOPE'', ''InvalidStreamKey'', ''StreamKey'', ''build_stream_key'', ''parse_stream_key'', ''group_name'',
      ''workspace_stream'']"

definition testing_all :: "string list" where
  "testing_all = [''StreamClient'', ''open_stream'']"

text \<open>The modules of the package: a name, what it imports, what it exports.\<close>

definition MODULES :: "(string \<times> import_stmt list \<times> string list) list" where
  "MODULES =
     [(''asgi'', asgi_imports, asgi_all), (''authorize'', authorize_imports, authorize_all),
      (''checks'', checks_imports, checks_all), (''close_codes'', close_codes_imports, close_codes_all),
      (''conf'', conf_imports, conf_all), (''consumers'', consumers_imports, consumers_all),
      (''delivery'', delivery_imports, delivery_all), (''envelope'', envelope_imports, envelope_all),
      (''functions'', functions_imports, functions_all), (''presence'', presence_imports, presence_all),
      (''streams'', streams_imports, streams_all), (''testing'', testing_imports, testing_all)]"

definition module_imports :: "string \<Rightarrow> import_stmt list" where
  "module_imports m = (case map_of MODULES m of None \<Rightarrow> [] | Some (ims, names) \<Rightarrow> ims)"

definition module_all :: "string \<Rightarrow> string list" where
  "module_all m = (case map_of MODULES m of None \<Rightarrow> [] | Some (ims, names) \<Rightarrow> names)"

lemmas module_defs = MODULES_def authorize_imports_def asgi_imports_def checks_imports_def close_codes_imports_def
  conf_imports_def consumers_imports_def delivery_imports_def envelope_imports_def functions_imports_def
  presence_imports_def streams_imports_def testing_imports_def authorize_all_def asgi_all_def checks_all_def
  close_codes_all_def conf_all_def consumers_all_def delivery_all_def envelope_all_def functions_all_def
  presence_all_def streams_all_def testing_all_def

section \<open>Loading a module\<close>

text \<open>The modules of this package form no cycle: each imports only modules of a lower level. Loading one
  therefore ends.\<close>

definition level :: "string \<Rightarrow> nat" where
  "level m =
     (if m \<in> set [''checks'', ''functions'', ''consumers''] then 3
      else if m \<in> set [''authorize'', ''delivery'', ''presence'', ''asgi'', ''testing''] then 2 else 1)"

fun weight :: "import_stmt \<Rightarrow> nat" where
  "weight (Own m names) = 10 ^ level m"
| "weight _ = 1"

lemma module_imports_cases:
  "module_imports m = [] \<or> (\<exists>ims names. (m, ims, names) \<in> set MODULES \<and> module_imports m = ims)"
  unfolding module_imports_def by (cases "map_of MODULES m") (auto dest!: map_of_SomeD)

lemma weight_pos: "0 < weight i"
  by (cases i) simp_all

lemma modules_lighter: "list_all (\<lambda>(m, ims, names). sum_list (map weight ims) < 10 ^ level m) MODULES"
  by code_simp

lemma imports_lighter: "sum_list (map weight (module_imports m)) < 10 ^ level m"
  using module_imports_cases [of m] modules_lighter by (auto simp: list_all_iff)

text \<open>What a process has loaded of this package, and which other modules it was asked to import, in order.\<close>

type_synonym loading = "string list \<times> string list"

function run_imports :: "(string \<Rightarrow> bool) \<Rightarrow> import_stmt list \<Rightarrow> loading \<Rightarrow> unit res \<times> loading" where
  "run_imports avail [] c = (Inr (), c)"
| "run_imports avail (Needs p # rest) c =
     (if avail p then run_imports avail rest (fst c, snd c @ [p]) else (Inl ImportError, fst c, snd c @ [p]))"
| "run_imports avail (Tries p # rest) c = run_imports avail rest (fst c, snd c @ [p])"
| "run_imports avail (Own m names # rest) c =
     (if m \<in> set (fst c) then run_imports avail rest c
      else case run_imports avail (module_imports m) c of
             (Inl e, c') \<Rightarrow> (Inl e, c')
           | (Inr u, c') \<Rightarrow> run_imports avail rest (m # fst c', snd c'))"
  by pat_completeness auto
termination
proof (relation "measure (\<lambda>(avail, ims, c). sum_list (map weight ims))")
  show "((avail, module_imports m, c), (avail, Own m names # rest, c)) \<in> measure (\<lambda>(avail, ims, c). sum_list (map weight ims))"
    for avail m c names rest
    using imports_lighter [of m] by simp
qed (simp_all add: weight_pos)


definition import_module :: "(string \<Rightarrow> bool) \<Rightarrow> string \<Rightarrow> unit res \<times> loading" where
  "import_module avail m = run_imports avail [Own m []] ([], [])"

text \<open>The import machinery behind the lazy exports: the module, then the attribute.\<close>

definition load_attribute :: "(string \<Rightarrow> bool) \<Rightarrow> (string \<Rightarrow> string \<Rightarrow> 'v) \<Rightarrow> string \<Rightarrow> string \<Rightarrow> 'v res" where
  "load_attribute avail attribute submodule name =
     rmap (\<lambda>u. attribute submodule name) (fst (import_module avail (drop 1 submodule)))"

text \<open>\<open>_sync_to_async\<close>: which wrapper runs a blocking function in a thread.\<close>

datatype thread_wrapper = DatabaseSyncToAsync | ThreadSensitive

definition sync_to_async :: "(string \<Rightarrow> bool) \<Rightarrow> thread_wrapper res" where
  "sync_to_async avail =
     (if avail ''channels.db'' then Inr DatabaseSyncToAsync
      else if avail ''asgiref.sync'' then Inr ThreadSensitive else Inl ImportError)"

section \<open>Properties\<close>

text \<open>What every installation has: Django with its asgiref, and the core.\<close>

definition BASE_PACKAGES :: "string list" where
  "BASE_PACKAGES =
     [''django.core.checks'', ''asgiref.sync'', ''stapel_core.conf'', ''stapel_core.comm'', ''stapel_core.comm.exceptions'',
      ''stapel_core.comm.signals'']"

lemma module_imports_known [simp]:
  "module_imports ''asgi'' = asgi_imports"
  "module_imports ''authorize'' = authorize_imports"
  "module_imports ''checks'' = checks_imports"
  "module_imports ''close_codes'' = close_codes_imports"
  "module_imports ''conf'' = conf_imports"
  "module_imports ''consumers'' = consumers_imports"
  "module_imports ''delivery'' = delivery_imports"
  "module_imports ''envelope'' = envelope_imports"
  "module_imports ''functions'' = functions_imports"
  "module_imports ''presence'' = presence_imports"
  "module_imports ''streams'' = streams_imports"
  "module_imports ''testing'' = testing_imports"
  by (simp_all add: module_imports_def MODULES_def)

lemmas imports_known = authorize_imports_def asgi_imports_def checks_imports_def close_codes_imports_def
  conf_imports_def consumers_imports_def delivery_imports_def envelope_imports_def functions_imports_def
  presence_imports_def streams_imports_def testing_imports_def

lemma import_results:
  assumes "\<forall>p\<in>set BASE_PACKAGES. avail p" and "m \<in> set (map fst MODULES)"
  shows "fst (import_module avail m) =
      (if m = ''consumers'' \<and> \<not> avail ''channels.generic.websocket'' \<or>
          m = ''testing'' \<and> \<not> avail ''channels.testing.websocket''
       then Inl ImportError else Inr ())"
proof -
  have base: "avail ''django.core.checks''" "avail ''asgiref.sync''" "avail ''stapel_core.conf''" "avail ''stapel_core.comm''"
    "avail ''stapel_core.comm.exceptions''" "avail ''stapel_core.comm.signals''"
    using assms(1) by (simp_all add: BASE_PACKAGES_def)
  have "m = ''asgi'' \<or> m = ''authorize'' \<or> m = ''checks'' \<or> m = ''close_codes'' \<or> m = ''conf'' \<or> m = ''consumers'' \<or>
      m = ''delivery'' \<or> m = ''envelope'' \<or> m = ''functions'' \<or> m = ''presence'' \<or> m = ''streams'' \<or> m = ''testing''"
    using assms(2) by (simp add: MODULES_def)
  then show ?thesis
    by (elim disjE) (simp_all add: import_module_def imports_known base)
qed

text \<open>What the modules export is what they rely on: no module lists a name twice; every name a module takes from
  another, and every name the package exports lazily, is among the names the module that defines it exports.\<close>

fun takes_exported :: "import_stmt \<Rightarrow> bool" where
  "takes_exported (Own m names) = list_all (\<lambda>n. n \<in> set (module_all m)) names"
| "takes_exported _ = True"

lemma exports_agree:
  "list_all (\<lambda>(name, submodule). hd submodule = CHR ''.'' \<and> name \<in> set (module_all (tl submodule))) LAZY_EXPORTS \<and>
   list_all (\<lambda>(m, ims, names). distinct names \<and> list_all takes_exported ims) MODULES \<and>
   list_all takes_exported ready_imports"
proof (intro conjI)
  show "list_all (\<lambda>(name, submodule). hd submodule = CHR ''.'' \<and> name \<in> set (module_all (tl submodule))) LAZY_EXPORTS"
    by code_simp
  show "list_all (\<lambda>(m, ims, names). distinct names \<and> list_all takes_exported ims) MODULES"
    by code_simp
  show "list_all takes_exported ready_imports"
    by code_simp
qed

text \<open>What \<open>ready\<close> loads. On a host without Channels as on one with it, \<open>ready\<close> loads the Functions, the checks
  and the delivery, never the consumers or the harness, and asks for no module of Channels itself; but by way of
  the checks, the host assembly and the close codes it asks for the core's Channels adapter. The envelope asks for
  nothing at all.\<close>

lemma ready_loads:
  assumes "\<forall>p\<in>set BASE_PACKAGES. avail p"
  shows "run_imports avail ready_imports ([], []) = (Inr (),
      [''delivery'', ''streams'', ''envelope'', ''checks'', ''asgi'', ''close_codes'', ''functions'', ''presence'', ''conf''],
      [''stapel_core.comm'', ''stapel_core.conf'', ''django.core.checks'', ''stapel_core.django.jwt.channels'',
       ''stapel_core.comm.exceptions'', ''stapel_core.comm.signals'']) \<and>
    import_module avail ''envelope'' = (Inr (), [''envelope''], [])"
proof -
  have base: "avail ''django.core.checks''" "avail ''stapel_core.conf''" "avail ''stapel_core.comm''"
    "avail ''stapel_core.comm.exceptions''" "avail ''stapel_core.comm.signals''"
    using assms by (simp_all add: BASE_PACKAGES_def)
  show ?thesis by (simp add: ready_imports_def import_module_def imports_known base)
qed

text \<open>C40: Only the consumers and the test harness need Channels. In a process with Django and the core, whatever else
  is installed, every module of the package loads, except that the consumers need Channels and the test harness its
  test support; so every public name resolves without Channels but the four of the consumers, which raise
  \<open>ImportError\<close>, and the authorizer finds a way to run its blocking call. \<open>ready\<close> loads neither of the two and asks
  for no module of Channels, but by way of the checks and the close codes it asks for the core's Channels
  adapter.\<close>

theorem optional_extras:
  assumes "\<forall>p\<in>set BASE_PACKAGES. avail p"
  shows "(\<forall>m\<in>set (map fst MODULES). fst (import_module avail m) =
      (if m = ''consumers'' \<and> \<not> avail ''channels.generic.websocket'' \<or>
          m = ''testing'' \<and> \<not> avail ''channels.testing.websocket''
       then Inl ImportError else Inr ())) \<and>
    (\<forall>name\<in>set ALL_EXPORTS. fst (module_attribute (load_attribute avail attribute) name []) =
      (if name \<in> {''BaseStreamConsumer'', ''EphemeralStreamConsumer'', ''ResumableStreamConsumer'', ''JournalRow''} \<and>
          \<not> avail ''channels.generic.websocket''
       then Inl ImportError else Inr (attribute (the (map_of LAZY_EXPORTS name)) name))) \<and>
    (\<exists>w. sync_to_async avail = Inr w) \<and>
    (\<exists>loaded asked. run_imports avail ready_imports ([], []) = (Inr (), loaded, asked) \<and>
       set loaded \<inter> {''consumers'', ''testing''} = {} \<and> (\<forall>p\<in>set asked. \<not> prefix ''channels'' p) \<and>
       ''stapel_core.django.jwt.channels'' \<in> set asked)"
proof (intro conjI ballI)
  show loads: "fst (import_module avail m) =
      (if m = ''consumers'' \<and> \<not> avail ''channels.generic.websocket'' \<or>
          m = ''testing'' \<and> \<not> avail ''channels.testing.websocket''
       then Inl ImportError else Inr ())" if "m \<in> set (map fst MODULES)" for m
    using import_results [OF assms that] .
  have consumers: "list_all (\<lambda>(name, submodule). tl submodule \<in> set (map fst MODULES) \<and> tl submodule \<noteq> ''testing'' \<and>
      (tl submodule = ''consumers'' \<longleftrightarrow>
         name \<in> {''BaseStreamConsumer'', ''EphemeralStreamConsumer'', ''ResumableStreamConsumer'', ''JournalRow''})) LAZY_EXPORTS"
    by code_simp
  fix name assume name: "name \<in> set ALL_EXPORTS"
  have "map fst LAZY_EXPORTS = ALL_EXPORTS" by (simp add: LAZY_EXPORTS_def ALL_EXPORTS_def)
  with name have "name \<in> fst ` set LAZY_EXPORTS" by (simp only: list.set_map [symmetric])
  then obtain submodule where sub: "map_of LAZY_EXPORTS name = Some submodule"
    by (cases "map_of LAZY_EXPORTS name") (simp_all add: map_of_eq_None_iff)
  note m = bspec [OF consumers [unfolded list_all_iff] map_of_SomeD [OF sub], unfolded prod.case]
  have "fst (module_attribute (load_attribute avail attribute) name []) =
      rmap (\<lambda>u. attribute submodule name) (fst (import_module avail (tl submodule)))"
    unfolding module_attribute_def module_getattr_def sub load_attribute_def
    by (cases "fst (import_module avail (tl submodule))") (simp_all add: drop_Suc)
  with loads [OF conjunct1 [OF m]] conjunct2 [OF m] sub show "fst (module_attribute (load_attribute avail attribute) name []) =
      (if name \<in> {''BaseStreamConsumer'', ''EphemeralStreamConsumer'', ''ResumableStreamConsumer'', ''JournalRow''} \<and>
          \<not> avail ''channels.generic.websocket''
       then Inl ImportError else Inr (attribute (the (map_of LAZY_EXPORTS name)) name))"
    by simp
next
  show "\<exists>w. sync_to_async avail = Inr w" using assms by (simp add: sync_to_async_def BASE_PACKAGES_def)
  show "\<exists>loaded asked. run_imports avail ready_imports ([], []) = (Inr (), loaded, asked) \<and>
      set loaded \<inter> {''consumers'', ''testing''} = {} \<and> (\<forall>p\<in>set asked. \<not> prefix ''channels'' p) \<and>
      ''stapel_core.django.jwt.channels'' \<in> set asked"
    using ready_loads [OF assms] by simp
qed

theorem optional_extras_witness:
  "fst (module_attribute (load_attribute (\<lambda>p. p \<in> set BASE_PACKAGES) Pair) ''is_live'' []) = Inr (''.presence'', ''is_live'') \<and>
    fst (module_attribute (load_attribute (\<lambda>p. p \<in> set BASE_PACKAGES) Pair) ''JournalRow'' []) = Inl ImportError"
proof -
  note public = bspec [OF conjunct1 [OF conjunct2 [OF optional_extras [of "\<lambda>p. p \<in> set BASE_PACKAGES" Pair]]]]
  have "''is_live'' \<in> set ALL_EXPORTS" "''JournalRow'' \<in> set ALL_EXPORTS"
    "the (map_of LAZY_EXPORTS ''is_live'') = ''.presence''" "\<not> ''channels.generic.websocket'' \<in> set BASE_PACKAGES"
    by code_simp+
  then show ?thesis using public [of "''is_live''"] public [of "''JournalRow''"] by simp
qed

end
