(* ===== verification/Strikes.thy ===== *)
theory Strikes
  imports Writer
begin

text \<open>
  The strikes of a socket over its life. A frame of the client that the parser rejects is a strike, and the
  counter the consumer keeps is the number of them since the socket was connected: no valid frame, group message,
  hook, writer step or heartbeat in between takes one back.
\<close>

section \<open>The counter and the history\<close>

definition rejected :: "event \<Rightarrow> bool" where
  "rejected ev =
     (case ev of
        Receive tick content \<Rightarrow> (case parse_frame content of Inl (InvalidEnvelope fault) \<Rightarrow> True | _ \<Rightarrow> False)
      | _ \<Rightarrow> False)"

lemma strikes_rights: "rights s' = rights s \<Longrightarrow> strikes s' = strikes s"
  by (simp add: rights_def)

lemma strikes_settle [simp]: "strikes (settle r) = strikes (fst r)"
  by (cases r; cases "snd r"; simp add: settle_def)

lemma strikes_error [simp]:
  "strikes (protocol_error E fault s) = strikes s + 1"
  "strikes (send_error c m s) = strikes s" "strikes (drain_then_close code s) = strikes s"
  by (simp_all add: protocol_error_def Let_def send_error_def drain_then_close_def)

lemma strikes_receive:
  "strikes (fst (receive_json E tick content s)) =
     strikes s + (if rejected (Receive tick content) then 1 else 0)"
proof (cases "parse_frame content")
  case (Inl e)
  then show ?thesis by (cases e) (simp_all add: receive_json_def rejected_def)
next
  case (Inr fr)
  obtain r s1 where a: "authorize_cached E False tick s = (r, s1)" by fastforce
  obtain x where s1: "s1 = s\<lparr>authorized_until := x\<rparr>" using authorize_keeps [OF a] by blast
  have "strikes (fst (handler fr t)) = strikes t" if "map_of (frame_handlers E) (ftype fr) = Some handler" for handler t
    using rights.view_handler [OF that] by (rule strikes_rights)
  with Inr a s1 show ?thesis
    by (cases r) (auto simp: receive_json_def rejected_def split: option.splits)
qed

lemma strikes_connect: "strikes (fst (connect E tick now ok new_sock)) = 0"
proof -
  have accept: "strikes (fst (after_accept E now s)) = strikes s" for s
    by (auto simp: after_accept_def Let_def split: sum.splits)
  have sub: "strikes (fst (subscribe E tick now ok s)) = strikes s" for s
  proof -
    obtain r s1 where a: "authorize_cached E True tick s = (r, s1)" by fastforce
    obtain x where x: "s1 = s\<lparr>authorized_until := x\<rparr>" using authorize_keeps [OF a] by blast
    show ?thesis using a x accept by (auto simp: subscribe_def Let_def split: sum.splits bool.splits)
  qed
  define P where "P t \<longleftrightarrow> strikes t = 0" for t :: sock
  have base: "P t" if "strikes t = 0" for t :: sock using that by (simp add: P_def)
  have next_step: "P (fst (subscribe E tick now ok t))" if "P t" for t :: sock using sub that by (simp add: P_def)
  have "P (fst (connect E tick now ok new_sock))"
    by (auto simp: connect_def Let_def new_sock_def intro!: base next_step split: sum.splits option.splits)
  then show ?thesis by (simp add: P_def)
qed

lemma strikes_move:
  assumes "reachable E s" "moves E s ev s'"
  shows "strikes s' = strikes s + (if rejected ev then 1 else 0)"
proof -
  have quiet: ?thesis if "rights s' = rights s" "\<not> rejected ev"
    using strikes_rights [OF that(1)] that(2) by simp
  from assms(2) show ?thesis
  proof cases
    case (connects tick now ok)
    have "s = new_sock" by (rule reachable_New [OF assms(1) connects(3)])
    moreover have "strikes new_sock = 0" by (simp add: new_sock_def)
    ultimately show ?thesis using strikes_connect by (simp add: connects rejected_def)
  next
    case (receives tick content)
    then show ?thesis by (simp add: strikes_receive)
  next
    case (leaves now ok)
    then show ?thesis by (simp add: rejected_def)
  qed (rule quiet; simp add: rejected_def rights.view_dispatch rights.view_beat_steps rights.view_beat_ping)+
qed

lemma strikes_runs:
  assumes "runs E s evs s'" "reachable E s"
  shows "strikes s' = strikes s + length (filter rejected evs)"
  using assms
proof (induction rule: runs.induct)
  case (then_move s ev s1 evs s')
  then show ?case using strikes_move [OF then_move.prems then_move.hyps(1)] reachable.step by simp
qed simp

lemma malformed_step:
  assumes s: "ready s 1" and bad: "parse_frame content = Inl (InvalidEnvelope fault)"
  shows "\<exists>s'. moves E s (Receive t content) s' \<and> strikes s' = strikes s + 1 \<and>
    frames s' = frames s @ [error_frame ERROR_BAD_ENVELOPE (fault_text (repr_of E) fault) (stream_key s)] \<and>
    (if strikes s < 2 then \<not> closing s' \<and> phase s' = Idle else closing s' \<and> phase s' = Draining 4400)"
proof -
  let ?f = "error_frame ERROR_BAD_ENVELOPE (fault_text (repr_of E) fault) (stream_key s)"
  have "enqueue ?f (s\<lparr>strikes := strikes s + 1\<rparr>) = s\<lparr>strikes := strikes s + 1, outbox := outbox s @ [?f]\<rparr>"
    using s by (simp add: ready_def enqueue_def)
  then have "settle (receive_json E t content s) = (if PROTOCOL_STRIKES \<le> strikes s + 1
      then drain_then_close CLOSE_PROTOCOL_ERROR (s\<lparr>strikes := strikes s + 1, outbox := outbox s @ [?f]\<rparr>)
      else s\<lparr>strikes := strikes s + 1, outbox := outbox s @ [?f]\<rparr>)"
    using bad by (simp add: receive_json_def protocol_error_def send_error_def settle_def Let_def)
  moreover have "moves E s (Receive t content) (settle (receive_json E t content s))"
    using s by (intro moves.receives) (auto simp: ready_def)
  ultimately show ?thesis
    using s by (intro exI [of _ "settle (receive_json E t content s)"])
      (auto simp: drain_then_close_def frames_def PROTOCOL_STRIKES_def CLOSE_PROTOCOL_ERROR_def ready_def)
qed

section \<open>Properties\<close>

text \<open>C28: Strikes are counted over a socket's life. Take any run of a new socket to a state in which it is open, with
  room for one frame, and let the client send a malformed frame, one for which the parser raises
  \<open>InvalidEnvelope\<close>. It is answered with a \<open>bad_envelope\<close> error that names the fault; if fewer than
  two frames of the whole run were malformed the socket stays open, and otherwise, whatever valid frames came
  between them, it is closed to everything else and sends 4400 when it has drained.\<close>

theorem malformed_frames:
  assumes run: "runs E new_sock evs s" and s: "ready s 1"
    and bad: "parse_frame content = Inl (InvalidEnvelope fault)"
  shows "\<exists>s'. moves E s (Receive t content) s' \<and>
    frames s' = frames s @ [error_frame ERROR_BAD_ENVELOPE (fault_text (repr_of E) fault) (stream_key s)] \<and>
    (if length (filter rejected evs) < 2 then \<not> closing s' \<and> phase s' = Idle
     else closing s' \<and> phase s' = Draining 4400 \<and> length (filter rejected evs) = 2 \<and>
       moves E s' DrainOver (drained 4400 s') \<and> last (log (drained 4400 s')) = CloseSent 4400)"
proof -
  have reach: "reachable E s" using runs_reachable [OF run reachable.start] .
  have n: "strikes s = length (filter rejected evs)"
    using strikes_runs [OF run reachable.start] by (simp add: new_sock_def)
  have "strikes s < 3"
    using reachable_rights [OF reach] s by (auto simp: tolerated_def PROTOCOL_STRIKES_def ready_def)
  moreover have "moves E s' DrainOver (drained 4400 s')" if "phase s' = Draining 4400" for s'
    by (rule moves.drains [OF that])
  ultimately show ?thesis
    using malformed_step [OF s bad, of E t] unfolding n by (auto simp: drained_def split: if_splits)
qed

text \<open>A malformed frame, a pong, another malformed frame, and the third.\<close>

definition pong_content :: pyval where
  "pong_content = PDict (frame PONG None None None)"

definition struck_sock :: "nat \<Rightarrow> sock" where
  "struck_sock n = sample_sock\<lparr>strikes := n, outbox := replicate n
     (error_frame ERROR_BAD_ENVELOPE (fault_text (repr_of sample_env) NotAnObject) (stream_key sample_sock))\<rparr>"

definition struck_events :: "event list" where
  "struck_events = [Connect 0 0 True, Receive 1 PNone, Receive 1 pong_content, Receive 1 PNone]"

lemma struck_runs: "runs sample_env new_sock struck_events (struck_sock 2)"
proof -
  have struck: "phase (struck_sock n) = Idle" "accepted (struck_sock n)" for n
    by (simp_all add: struck_sock_def sample_sock_def accepted_def)
  have 1: "moves sample_env new_sock (Connect 0 0 True) (struck_sock 0)"
    using moves.connects [of new_sock sample_env 0 0 True] sample_connect
    by (simp add: struck_sock_def) (simp add: sample_sock_def new_sock_def)
  have strike: "settle (receive_json sample_env 1 PNone (struck_sock n)) = struck_sock (Suc n)" if "n < 2" for n
    using that by (simp add: receive_json_def parse_frame_def protocol_error_def Let_def send_error_def
        PROTOCOL_STRIKES_def settle_def struck_sock_def enqueue_def sample_sock_def new_sock_def replicate_append_same)
  have pong: "settle (receive_json sample_env 1 pong_content (struck_sock 1)) = struck_sock 1"
  proof -
    have parsed: "parse_frame pong_content = Inr \<lparr>ftype = PONG, fpayload = [], fseq = None, fstream = None\<rparr>"
      by (simp add: pong_content_def parse_frame_def parse_payload_def parse_seq_def parse_stream_def wire_defs)
    show ?thesis
      by (simp add: receive_json_def parsed frame_handlers_def on_pong_def wire_defs settle_def)
         (simp add: authorize_cached_def struck_sock_def sample_sock_def new_sock_def)
  qed
  have hears: "moves sample_env (struck_sock n) (Receive 1 c) (settle (receive_json sample_env 1 c (struck_sock n)))" for n c
    by (rule moves.receives [OF struck])
  show ?thesis
    unfolding struck_events_def
    by (rule runs.then_move [OF 1 runs.then_move [OF _ runs.then_move [OF _ runs_single]]])
       (use hears [of 0 PNone] hears [of 1 PNone] hears [of 1 pong_content] strike [of 0] strike [of 1] pong
         in \<open>simp_all add: numeral_2_eq_2\<close>)
qed

theorem malformed_frames_witness:
  "\<exists>s'. moves sample_env (struck_sock 2) (Receive 1 PNone) s' \<and>
    frames s' = frames (struck_sock 2) @
      [error_frame ERROR_BAD_ENVELOPE (fault_text (repr_of sample_env) NotAnObject) (stream_key (struck_sock 2))] \<and>
    (if length (filter rejected struck_events) < 2 then \<not> closing s' \<and> phase s' = Idle
     else closing s' \<and> phase s' = Draining 4400 \<and> length (filter rejected struck_events) = 2 \<and>
       moves sample_env s' DrainOver (drained 4400 s') \<and> last (log (drained 4400 s')) = CloseSent 4400)"
  by (rule malformed_frames [OF struck_runs])
     (simp_all add: parse_frame_def ready_def struck_sock_def sample_sock_def accepted_def)

end
