(* ===== verification/Outbox.thy ===== *)
theory Outbox
  imports Writer
begin

text \<open>
  What the outbound half of a socket promises, as an abstract channel: frames that were delivered, frames
  that are pending, a bound, whether the channel takes frames and whether it still delivers. The socket's
  queue, the frame in flight, the log and the flags of the consumer are one implementation of it: every move
  of a socket is a sequence of channel steps on the abstraction of its state.
\<close>

section \<open>The specification\<close>

record channel =
  delivered :: "pydict list"
  waiting :: "pydict list"
  bound :: int
  shut :: bool
  alive :: bool
  begun :: bool

text \<open>A frame is accepted only by an open channel that holds at most its bound; an overflow can shut the
  channel only when it is that full; only the oldest frame is delivered, and only while the channel is alive;
  the crash of an alive channel may lose the oldest frame, and nothing is delivered or lost after it.\<close>

inductive channel_step :: "channel \<Rightarrow> channel \<Rightarrow> bool" where
  accept: "\<not> shut c \<Longrightarrow> int (length (waiting c)) \<le> bound c \<Longrightarrow>
    channel_step c (c\<lparr>waiting := waiting c @ [f]\<rparr>)"
| close: "channel_step c (c\<lparr>shut := True\<rparr>)"
| deliver: "waiting c = f # fs \<Longrightarrow> alive c \<Longrightarrow>
    channel_step c (c\<lparr>delivered := delivered c @ [f], waiting := fs\<rparr>)"
| crash: "channel_step c (c\<lparr>alive := False\<rparr>)"
| lose: "waiting c = f # fs \<Longrightarrow> alive c \<Longrightarrow> channel_step c (c\<lparr>waiting := fs, alive := False\<rparr>)"
| start: "\<not> begun c \<Longrightarrow> 1 \<le> n \<Longrightarrow> channel_step c (c\<lparr>bound := n, alive := b, begun := True\<rparr>)"

definition channel_of_sock :: "sock \<Rightarrow> channel" where
  "channel_of_sock s =
     \<lparr>delivered = wire_frames (log s), waiting = pending s, bound = outbox_max s, shut = closing s, alive = writing s,
      begun = (phase s \<noteq> New)\<rparr>"

text \<open>While a channel stays alive nothing is lost or reordered: what it has delivered and holds grows at
  its end only. What a shut channel still delivers is an initial segment of what it holds.\<close>

lemma channel_history:
  assumes "channel_step\<^sup>*\<^sup>* c c'" "begun c"
  shows "begun c' \<and> (alive c' \<longrightarrow> alive c \<and> (\<exists>fs. delivered c' @ waiting c' = delivered c @ waiting c @ fs)) \<and>
    (\<exists>ds. delivered c' = delivered c @ ds)"
  using assms
proof (induction rule: rtranclp_induct)
  case base
  then show ?case by simp
next
  case (step c1 c2)
  from step.hyps(2) step.IH [OF step.prems] show ?case
  proof cases
    case (accept f)
    then show ?thesis using step.IH [OF step.prems] by auto (metis append.assoc)
  qed auto
qed

text \<open>Over any sequence of steps at most one frame is lost, and only by the death of the channel.\<close>

lemma channel_loss:
  assumes "channel_step\<^sup>*\<^sup>* c c'" "begun c"
  shows "(\<exists>fs. delivered c' @ waiting c' = delivered c @ waiting c @ fs) \<or>
    alive c \<and> \<not> alive c' \<and>
      (\<exists>xs f ys fs. delivered c @ waiting c @ fs = xs @ f # ys \<and> delivered c' @ waiting c' = xs @ ys)"
  using assms
proof (induction rule: rtranclp_induct)
  case base
  then show ?case by simp
next
  case (step c1 c2)
  have begun: "begun c1" using channel_history [OF step.hyps(1) step.prems] by simp
  have alive: "alive c1 \<longrightarrow> alive c" using channel_history [OF step.hyps(1) step.prems] by simp
  from step.hyps(2) show ?case
  proof cases
    case (accept g)
    from step.IH [OF step.prems] show ?thesis
    proof (elim disjE exE conjE)
      fix fs assume "delivered c1 @ waiting c1 = delivered c @ waiting c @ fs"
      then show ?thesis using accept by (intro disjI1 exI [of _ "fs @ [g]"]) simp
    next
      fix xs f ys fs assume l: "alive c" "\<not> alive c1" "delivered c @ waiting c @ fs = xs @ f # ys"
        "delivered c1 @ waiting c1 = xs @ ys"
      then have "delivered c @ waiting c @ fs @ [g] = xs @ f # ys @ [g]" by (metis append.assoc append_Cons)
      with l accept show ?thesis
        by (intro disjI2 conjI exI [of _ xs] exI [of _ f] exI [of _ "ys @ [g]"] exI [of _ "fs @ [g]"]) simp_all
    qed
  next
    case (lose f fs)
    then obtain gs where "delivered c1 @ waiting c1 = delivered c @ waiting c @ gs"
      using step.IH [OF step.prems] by blast
    with lose alive show ?thesis
      by (intro disjI2 conjI exI [of _ "delivered c1"] exI [of _ f] exI [of _ fs] exI [of _ gs]) simp_all
  qed (use step.IH [OF step.prems] begun in auto)
qed

lemma channel_shut:
  assumes "channel_step\<^sup>*\<^sup>* c c'" "begun c" "shut c"
  shows "shut c' \<and> begun c' \<and> (\<exists>k. delivered c' = delivered c @ take k (waiting c) \<and>
    (alive c' \<longrightarrow> alive c \<and> waiting c' = drop k (waiting c)) \<and> (k \<noteq> 0 \<longrightarrow> alive c))"
  using assms
proof (induction rule: rtranclp_induct)
  case base
  then show ?case by (auto intro: exI [of _ 0])
next
  case (step c1 c2)
  then obtain k where k: "shut c1" "begun c1" "delivered c1 = delivered c @ take k (waiting c)"
    "alive c1 \<longrightarrow> alive c \<and> waiting c1 = drop k (waiting c)" "k \<noteq> 0 \<longrightarrow> alive c"
    by blast
  from step.hyps(2) show ?case
  proof cases
    case (deliver f fs)
    then have d: "drop k (waiting c) = f # fs" using k by simp
    then have "k < length (waiting c)" by (metis drop_eq_Nil2 leI list.distinct(1))
    from take_hd_drop [OF this] d have "take (Suc k) (waiting c) = take k (waiting c) @ [f]" by simp
    moreover have "drop (Suc k) (waiting c) = fs" using d by (simp add: drop_Suc drop_tl)
    ultimately show ?thesis using deliver k by (intro conjI exI [of _ "Suc k"]) auto
  qed (use k in auto)
qed

section \<open>Every move is a sequence of channel steps\<close>

lemma channel_enqueue:
  assumes "int (length (outbox s)) \<le> outbox_max s"
  shows "channel_step\<^sup>=\<^sup>= (channel_of_sock s) (channel_of_sock (enqueue f s))"
proof -
  consider "closing s" | "\<not> closing s" "int (length (outbox s)) < outbox_max s"
    | "\<not> closing s" "\<not> int (length (outbox s)) < outbox_max s" by blast
  then show ?thesis
  proof cases
    case 1
    then show ?thesis by (simp add: enqueue_def)
  next
    case 2
    then have "channel_of_sock (enqueue f s) = (channel_of_sock s)\<lparr>waiting := waiting (channel_of_sock s) @ [f]\<rparr>"
      by (simp add: enqueue_def channel_of_sock_def pending_def)
    moreover have "int (length (pending s)) \<le> outbox_max s"
      using 2 by (auto simp: pending_def split: option.splits)
    ultimately show ?thesis
      using channel_step.accept [of "channel_of_sock s" f] 2 by (simp add: channel_of_sock_def)
  next
    case 3
    then have "channel_of_sock (enqueue f s) = (channel_of_sock s)\<lparr>shut := True\<rparr>"
      by (simp add: enqueue_def channel_of_sock_def pending_def)
    then show ?thesis using channel_step.close by simp
  qed
qed

lemma channel_same:
  "wire_frames (log s') = wire_frames (log s) \<Longrightarrow> (phase s' = New) = (phase s = New) \<Longrightarrow> pending s' = pending s \<Longrightarrow> outbox_max s' = outbox_max s \<Longrightarrow>
   writing s' = writing s \<Longrightarrow> closing s \<longrightarrow> closing s' \<Longrightarrow>
   channel_step\<^sup>=\<^sup>= (channel_of_sock s) (channel_of_sock s')"
  using channel_step.close [of "channel_of_sock s"]
  by (cases "closing s'") (auto simp: channel_of_sock_def)

lemma channel_failed:
  assumes "inflight s \<noteq> None" "writing s"
  shows "channel_step (channel_of_sock s) (channel_of_sock (writer_failed s))"
proof -
  obtain f where "inflight s = Some f" using assms(1) by auto
  then show ?thesis
    using channel_step.lose [of "channel_of_sock s" f "outbox s"] assms(2)
    by (simp add: channel_of_sock_def pending_def writer_failed_def)
qed

lemma channel_sent: "channel_step\<^sup>=\<^sup>= (channel_of_sock s) (channel_of_sock (writer_sent s))"
proof (cases "inflight s")
  case None
  then show ?thesis by (simp add: writer_sent_def)
next
  case (Some f)
  then show ?thesis
    using channel_step.deliver [of "channel_of_sock s" f "outbox s"]
    by (simp add: channel_of_sock_def pending_def writer_sent_def)
qed

lemma channel_small:
  assumes "small R s s'" "int (length (outbox s)) \<le> outbox_max s" "phase s \<noteq> New"
  shows "channel_step\<^sup>=\<^sup>= (channel_of_sock s) (channel_of_sock s')"
proof -
  have p: "phase s' \<noteq> New" using small_phase_New [of R s s'] assms by blast
  from assms(1) show ?thesis
  proof cases
  case tune
  then show ?thesis using p assms(3) by (intro channel_same) (simp_all add: pending_def)
next
  case (note_effect e)
  then show ?thesis by (intro channel_same) (simp_all add: pending_def)
next
  case (raise_cursor n)
  then show ?thesis by (intro channel_same) (simp_all add: pending_def)
next
  case (plain f)
  then show ?thesis using channel_enqueue assms(2) by simp
next
  case (journal n t d)
  let ?s = "s\<lparr>max_seq_sent := n\<rparr>"
  have "channel_of_sock ?s = channel_of_sock s" by (simp add: channel_of_sock_def pending_def)
  then show ?thesis using channel_enqueue [of ?s] assms(2) journal by simp
next
  case take_frame
  then show ?thesis
    by (intro channel_same) (auto simp: pending_def writer_take_def split: list.splits option.splits)
next
  case write_frame
  then show ?thesis using channel_sent by simp
next
  case drop_frame
  then show ?thesis using channel_failed [of s] by simp
  qed
qed

lemma channel_smalls:
  assumes "smalls R s s'" "int (length (outbox s)) \<le> outbox_max s" "phase s \<noteq> New"
  shows "channel_step\<^sup>*\<^sup>* (channel_of_sock s) (channel_of_sock s') \<and> int (length (outbox s')) \<le> outbox_max s' \<and>
    phase s' \<noteq> New"
  using assms
proof (induction rule: rtranclp_induct)
  case base
  then show ?case by simp
next
  case (step s1 s2)
  then show ?case
    using channel_small [of R s1 s2] small_bounded [of R s1 s2] small_phase_New [of R s1 s2]
    by (auto intro: rtranclp.rtrancl_into_rtrancl)
qed

lemma new_sock_moves: "moves E new_sock ev s' \<Longrightarrow> s' = new_sock \<or> (\<exists>tick now ok. s' = settle (connect E tick now ok new_sock))"
  by (erule moves.cases) (auto simp: writer_take_def writer_sent_def new_sock_def)

lemma channel_connect:
  "channel_step\<^sup>*\<^sup>* (channel_of_sock new_sock) (channel_of_sock (settle (connect E tick now ok new_sock)))"
proof -
  let ?s = "settle (connect E tick now ok new_sock)"
  have "wire_frames (log ?s) = []" "pending ?s = []" "1 \<le> outbox_max ?s"
    using connect_outcome [of E tick now ok] frames_unopened [of ?s] frames_opened [of E ?s] send_queue_maxsize_pos
    by (auto simp: frames_def pending_def unopened_def opened_def)
  note quiet = this
  show ?thesis
  proof (cases "phase ?s = New")
    case True
    then have "?s = new_sock"
      using connect_outcome [of E tick now ok] by (auto simp: unopened_def opened_def)
    then show ?thesis by simp
  next
    case False
    with quiet have "channel_of_sock ?s = (if closing ?s
      then (channel_of_sock new_sock)\<lparr>bound := outbox_max ?s, alive := writing ?s, begun := True, shut := True\<rparr>
      else (channel_of_sock new_sock)\<lparr>bound := outbox_max ?s, alive := writing ?s, begun := True\<rparr>)"
    by (simp add: channel_of_sock_def pending_def)
  moreover have "channel_step (channel_of_sock new_sock)
      ((channel_of_sock new_sock)\<lparr>bound := outbox_max ?s, alive := writing ?s, begun := True\<rparr>)"
    using quiet by (intro channel_step.start) (simp_all add: channel_of_sock_def)
  ultimately show ?thesis
    using channel_step.close [of "(channel_of_sock new_sock)\<lparr>bound := outbox_max ?s, alive := writing ?s, begun := True\<rparr>"]
    by auto
  qed
qed

lemma channel_disconnect:
  assumes "phase s \<noteq> New"
  shows "channel_step\<^sup>*\<^sup>* (channel_of_sock s) (channel_of_sock (stop (disconnect E now ok s)))"
proof -
  let ?s = "stop (disconnect E now ok s)"
  have "phase ?s \<noteq> New" using disconnect_phase [of E now ok s] by auto
  moreover have "wire_frames (log ?s) = wire_frames (log s)" "writing ?s = False" "pending ?s = pending s"
    by (auto simp: disconnect_def stop_def Let_def pending_def split: option.splits)
  ultimately have "channel_of_sock ?s = (channel_of_sock s)\<lparr>alive := False, shut := True\<rparr>"
    using assms by (simp add: channel_of_sock_def)
  then show ?thesis
    using channel_step.crash [of "channel_of_sock s"]
      channel_step.close [of "(channel_of_sock s)\<lparr>alive := False\<rparr>"]
    by (simp add: converse_rtranclp_into_rtranclp)
qed

lemma channel_moves:
  assumes r: "reachable E s" and m: "moves E s ev s'"
  shows "channel_step\<^sup>*\<^sup>* (channel_of_sock s) (channel_of_sock s')"
proof (cases "phase s = New")
  case True
  then have "s = new_sock" by (rule reachable_New [OF r])
  with m new_sock_moves show ?thesis using channel_connect by (metis rtranclp.rtrancl_refl)
next
  case False
  from moves_smalls [OF m, of "\<lambda>_. True", OF TrueI] False show ?thesis
    using channel_smalls [of _ s s'] channel_disconnect reachable_bounded [OF r] by (auto simp: bounded_def)
qed

lemma channel_runs: "runs E s evs s' \<Longrightarrow> reachable E s \<Longrightarrow> channel_step\<^sup>*\<^sup>* (channel_of_sock s) (channel_of_sock s')"
  by (induction rule: runs.induct) (auto intro: reachable.step rtranclp_trans [OF channel_moves])

lemma reachable_waiting:
  "reachable E s \<Longrightarrow> int (length (waiting (channel_of_sock s))) \<le> bound (channel_of_sock s) + 1"
  using reachable_bounded [of E s] by (auto simp: bounded_def channel_of_sock_def pending_def split: option.splits)

lemma frames_channel: "frames t = delivered (channel_of_sock t) @ waiting (channel_of_sock t)"
  by (simp add: frames_def channel_of_sock_def pending_def)

lemma moves_loss:
  assumes "reachable E s" and "moves E s ev s'"
  shows "(\<exists>fs. frames s' = frames s @ fs) \<or>
    writing s \<and> \<not> writing s' \<and> (\<exists>xs f ys fs. frames s @ fs = xs @ f # ys \<and> frames s' = xs @ ys)"
proof (cases "phase s = New")
  case True
  then have "unopened s" using reachable_New [OF assms(1)] by (simp add: unopened_def new_sock_def)
  then show ?thesis using frames_unopened by auto
next
  case False
  have "writing t = alive (channel_of_sock t)" for t by (simp add: channel_of_sock_def)
  moreover have "begun (channel_of_sock s)" using False by (simp add: channel_of_sock_def)
  ultimately show ?thesis
    using channel_loss [OF channel_moves [OF assms]] unfolding frames_channel by simp
qed

section \<open>Properties\<close>

text \<open>C6: The outbound half of a socket refines the abstract channel: every move of a reachable socket (a
  handler, the writer, the heartbeat, connecting, leaving) is a sequence of steps of the channel its state
  abstracts to, which accepts only while open and at its bound at most, delivers only its oldest frame, and
  loses a frame only with the death of its writer, the oldest, and nothing after it. So a move keeps every
  frame in its place and adds to the end, or it is the writer's failure and exactly one frame is gone; and
  what waits never exceeds the bound by more than the frame in flight.\<close>

theorem socket_refines_channel:
  assumes "reachable E s" and "moves E s ev s'"
  shows "channel_step\<^sup>*\<^sup>* (channel_of_sock s) (channel_of_sock s') \<and>
    int (length (waiting (channel_of_sock s'))) \<le> bound (channel_of_sock s') + 1 \<and>
    ((\<exists>fs. frames s' = frames s @ fs) \<or>
     writing s \<and> \<not> writing s' \<and> (\<exists>xs f ys fs. frames s @ fs = xs @ f # ys \<and> frames s' = xs @ ys))"
  by (intro conjI channel_moves [OF assms] reachable_waiting [OF reachable.step [OF assms]] moves_loss [OF assms])

text \<open>No loss and no reordering while the writer lives: over any run of a socket after \<open>connect\<close>, what
  reached the wire is only added to; if the writer is alive at the end, every frame that was written or
  pending is still there in its place, with new frames after it; and once the socket is closing, what it
  still writes is an initial segment of what was pending, nothing at all when the writer is gone.\<close>

theorem wire_history:
  assumes "reachable E s" and "phase s \<noteq> New" and "runs E s evs s'"
  shows "prefix (wire_frames (log s)) (wire_frames (log s')) \<and>
    (writing s' \<longrightarrow> writing s \<and> (\<exists>fs. frames s' = frames s @ fs)) \<and>
    (closing s \<longrightarrow> closing s' \<and>
       (\<exists>k. wire_frames (log s') = wire_frames (log s) @ take k (pending s) \<and> (k = 0 \<or> writing s)))"
proof -
  note steps = channel_runs [OF assms(3,1)]
  show ?thesis
    using channel_history [OF steps] channel_shut [OF steps] assms(2) unfolding frames_channel
    by (auto simp: channel_of_sock_def)
qed

theorem socket_refines_channel_witness:
  "\<exists>s'. channel_step\<^sup>*\<^sup>* (channel_of_sock revoked_sock) (channel_of_sock s') \<and>
    int (length (waiting (channel_of_sock s'))) \<le> bound (channel_of_sock s') + 1 \<and> CloseSent 4410 \<in> set (log s')"
proof -
  have "moves sample_env revoked_sock DrainOver (drained 4410 revoked_sock)"
    by (rule moves.drains) (simp add: revoked_sock_def)
  from socket_refines_channel [OF revoked_reachable this] show ?thesis
    by (intro exI [of _ "drained 4410 revoked_sock"]) (simp add: drained_def)
qed

theorem wire_history_witness:
  "\<exists>s' k. runs sample_env revoked_sock [DrainOver] s' \<and> prefix (wire_frames (log revoked_sock)) (wire_frames (log s')) \<and>
    closing s' \<and> wire_frames (log s') = wire_frames (log revoked_sock) @ take k (pending revoked_sock)"
proof -
  have m: "runs sample_env revoked_sock [DrainOver] (drained 4410 revoked_sock)"
    by (intro runs_single moves.drains) (simp add: revoked_sock_def)
  have p: "phase revoked_sock \<noteq> New" "closing revoked_sock" by (simp_all add: revoked_sock_def)
  from wire_history [OF revoked_reachable p(1) m] p m show ?thesis by blast
qed

end
