(* ===== verification/Sessions.thy ===== *)
theory Sessions
  imports Outbox
begin

text \<open>
  What a client of a resumable stream receives over the connections of its life. A session is everything that
  happens to one socket after its \<open>hello\<close>: the replay, the live rows, and, interleaved with them in any order,
  signals, pings, the heartbeat and the writer, until the connection breaks at any point. The client counts what
  reached the wire and says so in its next \<open>hello\<close>.
\<close>

section \<open>Which rows a run sends\<close>

text \<open>The rows an event hands to the socket.\<close>

fun row_messages :: "event \<Rightarrow> (bool \<times> JournalRow) list" where
  "row_messages (Rows (Inr rows)) = map (Pair False) rows"
| "row_messages (GroupMessage msg) =
     (if dict_get msg ''type'' = PStr GROUP_TYPE_FRAME
      then (case dict_get msg ''seq'' of
              PInt n \<Rightarrow>
                (case dict_get msg ''payload'' of
                   PDict d \<Rightarrow> [(True, \<lparr>row_seq = n, row_payload = d\<rparr>)]
                 | _ \<Rightarrow> [])
            | _ \<Rightarrow> [])
      else [])"
| "row_messages ev = []"

definition is_server_seq :: "event \<Rightarrow> bool" where
  "is_server_seq ev = (case ev of ServerSeq hook \<Rightarrow> True | _ \<Rightarrow> False)"

definition wire_rows :: "sock \<Rightarrow> JournalRow list" where
  "wire_rows s = List.map_filter row_of (wire_frames (log s))"

lemma plain_no_row: "plain_frame R k f \<Longrightarrow> row_of f = None"
  by (auto simp: row_of_def dest!: plain_not_journal)

text \<open>The cursor and the writer's life: what queueing, a received frame and the heartbeat leave alone.\<close>

definition pace :: "sock \<Rightarrow> int \<times> bool" where
  "pace s = (max_seq_sent s, writing s)"

interpretation pace: unqueued_by_receive pace
  by unfold_locales (auto simp: pace_def)

interpretation pace_beat: unqueued_by_beat pace
  by unfold_locales (auto simp: pace_def)

text \<open>A small step that does not raise the cursor sends no row, unless the writer fails.\<close>

lemma small_writing: "small R s s' \<Longrightarrow> writing s' \<Longrightarrow> writing s"
  by (erule small.cases)
     (auto simp: enqueue_def writer_take_def writer_sent_def writer_failed_def split: list.splits option.splits if_splits)

lemma journal_rows_enqueue: "row_of f = None \<Longrightarrow> journal_rows (enqueue f s) = journal_rows s"
  using frames_enqueue [of f s] by (auto simp: journal_rows_def)

lemma small_no_rows:
  assumes "small R s s'" "max_seq_sent s' = max_seq_sent s" "writing s'"
  shows "journal_rows s' = journal_rows s"
  using assms(1)
proof cases
  case (plain f)
  then show ?thesis by (simp add: journal_rows_enqueue plain_no_row)
next
  case (journal n t d)
  then show ?thesis using assms(2) by simp
next
  case drop_frame
  then show ?thesis using assms(3) by (simp add: writer_failed_def)
next
  case tune
  then show ?thesis by (simp add: journal_rows_def frames_def)
qed (simp_all add: journal_rows_def)

lemma smalls_no_rows:
  assumes "smalls R s s'" "max_seq_sent s' = max_seq_sent s" "writing s'"
  shows "journal_rows s' = journal_rows s"
  using assms
proof (induction rule: converse_rtranclp_induct)
  case (step s s1)
  have "max_seq_sent s1 \<le> max_seq_sent s'" using step.hyps(2) small_cursor by (induction) force+
  then have "max_seq_sent s1 = max_seq_sent s" using small_cursor [OF step.hyps(1)] step.prems(1) by simp
  moreover have "writing s1" using step.hyps(2) step.prems(2) small_writing by (induction) blast+
  ultimately show ?case using small_no_rows [OF step.hyps(1)] step by simp
qed simp

text \<open>What a run has sent, against the messages it was handed: everything above the cursor while the socket is open
  and its writer alive, and on the wire always an initial segment of that.\<close>

definition relays :: "JournalRow list \<Rightarrow> int \<Rightarrow> (bool \<times> JournalRow) list \<Rightarrow> sock \<Rightarrow> bool" where
  "relays old c ms s \<longleftrightarrow>
     max_seq_sent s = Max (insert c (set (map message_seq ms))) \<and>
     (let total = old @ map snd (above message_seq c ms)
      in if writing s then (if closing s then prefix (journal_rows s) total else journal_rows s = total)
         else prefix (wire_rows s) total)"

lemma wire_rows_prefix: "prefix (wire_rows s) (journal_rows s)"
  by (simp add: wire_rows_def journal_rows_def frames_def)

lemma relays_wire: "relays old c ms s \<Longrightarrow> prefix (wire_rows s) (old @ map snd (above message_seq c ms))"
  using wire_rows_prefix [of s] prefix_order.trans by (auto simp: relays_def Let_def split: if_splits)

text \<open>A move that hands over no row: the cursor stays.\<close>

lemma above_messages_append:
  "above f c (ms @ ns) = above f c ms @ above f (Max (insert c (set (map f ms)))) ns"
proof (induction ms arbitrary: c)
  case (Cons m ms)
  have "Max (insert c (insert (f m) (set (map f ms)))) = Max (insert (max c (f m)) (set (map f ms)))"
    by (cases "ms = []") (simp_all add: max.assoc)
  then show ?case using Cons [of c] Cons [of "f m"] by (auto simp: max_def)
qed simp

lemma above_single: "above f c [m] = (if f m \<le> c then [] else [m])"
  by simp

lemma push_pace: "writing (push_row s m) = writing s" "wire_rows (push_row s m) = wire_rows s"
  by (auto simp: push_row_simp enqueue_def wire_rows_def)

lemma relays_push:
  assumes "relays old c ms s"
  shows "relays old c (ms @ [m]) (push_row s m)"
proof -
  let ?n = "message_seq m"
  define total where "total = old @ map snd (above message_seq c ms)"
  define fresh where "fresh = (if ?n \<le> max_seq_sent s then [] else [snd m])"
  have c: "max_seq_sent s = Max (insert c (set (map message_seq ms)))" using assms by (simp add: relays_def)
  have total: "old @ map snd (above message_seq c (ms @ [m])) = total @ fresh"
    using above_messages_append [of message_seq c ms "[m]"] by (simp add: c total_def fresh_def)
  have "max_seq_sent (push_row s m) = max (max_seq_sent s) ?n" by (simp add: push_row_simp)
  then have cursor: "max_seq_sent (push_row s m) = Max (insert c (set (map message_seq (ms @ [m]))))"
  proof -
    have "insert c (set (map message_seq (ms @ [m]))) = insert ?n (insert c (set (map message_seq ms)))" by auto
    then show ?thesis using \<open>max_seq_sent (push_row s m) = max (max_seq_sent s) ?n\<close> c
      by (simp add: max.commute)
  qed
  have rows: "journal_rows (push_row s m) = journal_rows s @ (if closing (push_row s m) then [] else fresh)"
    if "\<not> closing s"
    using that by (auto simp: fresh_def push_row_simp journal_rows_def closing_enqueue frames_enqueue_open)
      (simp add: enqueue_def frames_def)
  have closed: "closing s \<Longrightarrow> closing (push_row s m) \<and> journal_rows (push_row s m) = journal_rows s"
    by (simp add: push_row_simp enqueue_def journal_rows_def)
  show ?thesis
    using assms cursor rows closed unfolding relays_def total push_pace total_def [symmetric]
    by (cases "closing s"; cases "closing (push_row s m)") (auto simp: Let_def intro: prefix_prefix)
qed

lemma relays_pushes: "relays old c ms s \<Longrightarrow> relays old c (ms @ ns) (foldl push_row s ns)"
proof (induction ns arbitrary: ms s)
  case (Cons n ns)
  from Cons.IH [OF relays_push [OF Cons.prems]] show ?case by simp
qed simp

lemma small_silent:
  assumes "small R s s'" "\<not> writing s"
  shows "\<not> writing s' \<and> wire_frames (log s') = wire_frames (log s)"
  using assms
  by cases (auto simp: enqueue_def writer_take_def writer_sent_def writer_failed_def split: list.splits option.splits)

lemma smalls_silent: "smalls R s s' \<Longrightarrow> \<not> writing s \<Longrightarrow> \<not> writing s' \<and> wire_frames (log s') = wire_frames (log s)"
  by (induction rule: rtranclp_induct) (auto dest: small_silent)

lemma relays_quiet:
  assumes "relays old c ms s" "smalls R s s'" "pace s' = pace s"
  shows "relays old c ms s'"
proof (cases "writing s")
  case True
  then have "journal_rows s' = journal_rows s" using smalls_no_rows [OF assms(2)] assms(3) by (simp add: pace_def)
  moreover have "closing s \<longrightarrow> closing s'" using smalls_closing [OF assms(2)] by auto
  ultimately show ?thesis using assms(1,3) True
    by (cases "closing s"; cases "closing s'") (simp_all add: relays_def Let_def pace_def)
next
  case False
  then have "wire_rows s' = wire_rows s" using smalls_silent [OF assms(2)] by (simp add: wire_rows_def)
  then show ?thesis using assms(1,3) False by (auto simp: relays_def Let_def pace_def)
qed

text \<open>One move of a socket that has been connected.\<close>

lemma relays_stopped:
  assumes "relays old c ms s" "wire_frames (log s') = wire_frames (log s)" "max_seq_sent s' = max_seq_sent s"
    "\<not> writing s'"
  shows "relays old c ms s'"
  using relays_wire [OF assms(1)] assms by (simp add: relays_def Let_def wire_rows_def)

lemma settle_quiet:
  "relays old c ms s \<Longrightarrow> smalls R s (fst r) \<Longrightarrow> pace (fst r) = pace s \<Longrightarrow> relays old c ms (settle r)"
  by (rule relays_quiet [OF _ smalls_settle]) (simp_all add: pace.view_settle)

lemma relays_rows:
  assumes "relays old c ms s"
  shows "relays old c (ms @ row_messages (Rows hook)) (settle (hello_rows server hook s))"
proof (cases hook)
  case (Inl e)
  then have "settle (hello_rows server hook s) = s\<lparr>phase := Dead (Some e)\<rparr>" by (simp add: hello_rows_def settle_def)
  with Inl show ?thesis
    by (simp add: relays_quiet [OF assms smalls_set_phase] pace.view_phase)
next
  case (Inr rows)
  let ?idle = "s\<lparr>phase := Idle\<rparr>" and ?ms = "map (Pair False) rows"
  have "relays old c ms ?idle" by (simp add: relays_quiet [OF assms smalls_set_phase] pace.view_phase)
  from relays_pushes [OF this, of ?ms]
  have "relays old c (ms @ ?ms) (foldl push_row ?idle ?ms)" .
  then show ?thesis
    using settle_quiet [OF _ smalls_sends(5) pace.view_plain] Inr by (simp add: hello_rows_def replay_rows_push)
qed

lemma relays_group:
  assumes "relays old c ms s" "sent_by_delivery msg"
  shows "relays old c (ms @ row_messages (GroupMessage msg)) (settle (dispatch_group E msg s))"
  using assms(2)
proof cases
  case (by_deliver_frame k n d)
  have "row_messages (GroupMessage msg) = [(True, \<lparr>row_seq = n, row_payload = d\<rparr>)]"
    by (simp add: by_deliver_frame frame_message_def GROUP_TYPE_FRAME_def)
  moreover have "settle (dispatch_group E msg s) = push_row s (True, \<lparr>row_seq = n, row_payload = d\<rparr>)"
    by (simp add: by_deliver_frame dispatch_group_def realtime_frame_push settle_def)
  ultimately show ?thesis using relays_push [OF assms(1)] by simp
next
  case (by_deliver d k)
  then have "pace (fst (dispatch_group E msg s)) = pace s" by (simp add: dispatch_group_def pace.view_signal)
  moreover have "row_messages (GroupMessage msg) = []"
    using by_deliver by (simp add: GROUP_TYPE_SIGNAL_def GROUP_TYPE_FRAME_def)
  ultimately show ?thesis using settle_quiet [OF assms(1) smalls_group [OF assms(2), of "\<lambda>_. True", OF TrueI]] by simp
next
  case (by_revoke k uid reason)
  then have "pace (fst (dispatch_group E msg s)) = pace s" by (simp add: dispatch_group_def pace.view_revoke)
  moreover have "row_messages (GroupMessage msg) = []"
    using by_revoke by (simp add: GROUP_TYPE_REVOKE_def GROUP_TYPE_FRAME_def)
  ultimately show ?thesis using settle_quiet [OF assms(1) smalls_group [OF assms(2), of "\<lambda>_. True", OF TrueI]] by simp
qed

lemma relays_move:
  assumes "relays old c ms s" "moves E s ev s'" "phase s \<noteq> New" "\<not> is_server_seq ev"
  shows "relays old c (ms @ row_messages ev) s'"
  using assms(2)
proof cases
  case (receives tick content)
  then show ?thesis using settle_quiet [OF assms(1) smalls_receive pace.view_receive] by simp
next
  case (hears msg)
  then show ?thesis using relays_group [OF assms(1)] by simp
next
  case (leaves now ok)
  have "wire_frames (log s') = wire_frames (log s)" "max_seq_sent s' = max_seq_sent s" "\<not> writing s'"
    by (auto simp: leaves disconnect_def stop_def Let_def split: option.splits)
  then show ?thesis using relays_stopped [OF assms(1)] leaves by simp
next
  case (gets_rows lq server hook)
  then show ?thesis using relays_rows [OF assms(1)] by simp
next
  case (drains code)
  then show ?thesis using relays_quiet [OF assms(1) smalls_drained] by (simp add: pace.view_drained)
next
  case takes
  then show ?thesis using relays_quiet [OF assms(1) smalls_writer(1)]
    by (auto simp: pace_def writer_take_def split: list.splits)
next
  case writes
  then show ?thesis using relays_quiet [OF assms(1) smalls_writer(2)]
    by (auto simp: pace_def writer_sent_def split: option.splits)
next
  case fails
  then show ?thesis using relays_stopped [OF assms(1)] by (simp add: writer_failed_def)
next
  case (wakes due now)
  then show ?thesis using relays_quiet [OF assms(1) smalls_beat_wake] by (simp add: pace_beat.view_beat_steps)
next
  case (renewed t now)
  then show ?thesis using relays_quiet [OF assms(1) smalls_beat_ping] by (simp add: pace_beat.view_beat_ping)
next
  case (deadline due now)
  then show ?thesis using relays_quiet [OF assms(1) smalls_beat_deadline] by (simp add: pace_beat.view_beat_steps)
qed (use assms(3,4) in \<open>simp_all add: is_server_seq_def\<close>)

lemma moves_started: "moves E s ev s' \<Longrightarrow> phase s \<noteq> New \<Longrightarrow> phase s' \<noteq> New"
  using moves_smalls [of E s ev s' "\<lambda>_. True", OF _ TrueI] small_phase_New disconnect_phase by (metis phase.distinct(9))

lemma relays_runs:
  assumes "runs E s evs s'" "relays old c ms s" "phase s \<noteq> New" "\<forall>ev\<in>set evs. \<not> is_server_seq ev"
  shows "relays old c (ms @ concat (map row_messages evs)) s'"
  using assms
proof (induction arbitrary: ms rule: runs.induct)
  case (then_move s ev s1 evs s')
  have "relays old c (ms @ row_messages ev) s1"
    using relays_move [OF then_move.prems(1) then_move.hyps(1)] then_move.prems by simp
  moreover have "phase s1 \<noteq> New" using moves_started then_move by blast
  ultimately show ?case using then_move.IH then_move.prems(3) by fastforce
qed simp

section \<open>One session\<close>

text \<open>From the return of the first hook: the cursor is raised to what the client holds, no row has been sent.\<close>

lemma relays_hello:
  assumes "journal_rows s = []" "max_seq_sent s \<le> lq"
  shows "relays [] lq [] (settle (hello_server_seq E lq (Inr (PInt m)) s))"
proof -
  let ?w = "frame WELCOME (Some [(''server_seq'', PInt m)]) None (stream_key s)"
  define t where "t = (enqueue ?w (s\<lparr>phase := Idle\<rparr>))\<lparr>max_seq_sent := lq\<rparr>"
  have "row_of ?w = None" by (simp add: row_of_def)
  then have "journal_rows t = []"
    using journal_rows_enqueue [of ?w "s\<lparr>phase := Idle\<rparr>"] assms(1) by (simp add: t_def journal_rows_def frames_def)
  moreover from this have "wire_rows t = []" using wire_rows_prefix [of t] by simp
  ultimately have t: "relays [] lq [] t" by (simp add: relays_def t_def)
  have "hello_server_seq E lq (Inr (PInt m)) s =
      (case max_replay (conf E) of
         Inl e \<Rightarrow> (t, Some e)
       | Inr limit \<Rightarrow>
           if limit < m - lq then send_frame RESYNC (resync_payload (m - lq) limit m) PNone t
           else (t\<lparr>phase := AwaitRows lq m\<rparr>, None))"
    using assms(2)
    by (cases "max_replay (conf E)")
       (simp_all add: hello_server_seq_def send_plain Let_def max_absorb2 t_def del: enqueue_commute)
  moreover have "relays [] lq [] (settle (send_frame RESYNC (resync_payload (m - lq) limit m) PNone t))" for limit
    by (rule settle_quiet [OF t smalls_sends(6) pace.view_plain])
  moreover have "relays [] lq [] (settle (t\<lparr>phase := AwaitRows lq m\<rparr>, None))"
    by (rule settle_quiet [OF t]) (simp_all add: smalls_set_phase pace.view_phase)
  moreover have "relays [] lq [] (settle (t, Some e))" for e
    by (rule settle_quiet [OF t]) simp_all
  ultimately show ?thesis by (simp split: sum.splits)
qed

text \<open>Live rows after a replay: what is at most the cursor is dropped, the others are new.\<close>

lemma above_live:
  assumes "c \<le> m" "\<forall>n\<in>set ns. message_seq n \<le> c \<or> fst n \<and> m < message_seq n"
  shows "map snd (above message_seq c ns) = above row_seq m (map snd (filter fst ns))"
  using assms
proof (induction ns arbitrary: c m)
  case (Cons n ns)
  show ?case
  proof (cases "message_seq n \<le> c")
    case True
    with Cons show ?thesis by (auto simp: message_seq_def)
  next
    case False
    then have n: "fst n" "m < message_seq n" using Cons.prems(2) by auto
    then have "map snd (above message_seq (message_seq n) ns) = above row_seq (message_seq n) (map snd (filter fst ns))"
      using Cons.prems by (intro Cons.IH) force+
    moreover have "row_seq (snd n) = message_seq n" by (simp add: message_seq_def)
    ultimately show ?thesis using n False by simp
  qed
qed simp

text \<open>While the rows are being fetched no group message is dispatched, so the replay comes before every live row.\<close>

lemma beat_phase:
  "phase (beat_ping E now s) = phase s" "phase (beat_wake E now s) = phase s" "phase (beat_deadline E now s) = phase s"
  by (auto simp: beat_ping_def ping_sends beat_wake_def beat_deadline_def
      split: sum.splits bool.splits option.splits)

lemma fetching_moves:
  assumes "phase s = AwaitRows a b" "moves E s ev s'"
  shows "(\<exists>hook. ev = Rows hook) \<or> row_messages ev = [] \<and> phase s' = AwaitRows a b"
  using assms(2)
  by cases (use assms(1) in \<open>auto simp: beat_phase writer_take_def writer_sent_def writer_failed_def
      split: list.splits option.splits\<close>)

definition fetched :: "JournalRow list \<Rightarrow> event \<Rightarrow> bool" where
  "fetched rows ev \<longleftrightarrow> \<not> is_server_seq ev \<and> (\<forall>hook. ev = Rows hook \<longrightarrow> hook = Inr rows)"

lemma replay_first:
  assumes "runs E s evs s'" "phase s = AwaitRows a b" "\<forall>ev\<in>set evs. fetched rows ev"
  shows "concat (map row_messages evs) = [] \<or>
    (\<exists>evs'. set evs' \<subseteq> set evs \<and> concat (map row_messages evs) = map (Pair False) rows @ concat (map row_messages evs'))"
  using assms
proof (induction rule: runs.induct)
  case (then_move s ev s1 evs s')
  from fetching_moves [OF then_move.prems(1) then_move.hyps(1)] show ?case
  proof (elim disjE exE)
    fix hook assume "ev = Rows hook"
    then show ?thesis using then_move.prems(2) by (intro disjI2 exI [of _ evs]) (auto simp: fetched_def)
  next
    assume "row_messages ev = [] \<and> phase s1 = AwaitRows a b"
    then have same: "concat (map row_messages (ev # evs)) = concat (map row_messages evs)" and "phase s1 = AwaitRows a b"
      by simp_all
    with then_move.IH then_move.prems(2) have "concat (map row_messages evs) = [] \<or>
        (\<exists>evs'. set evs' \<subseteq> set evs \<and> concat (map row_messages evs) = map (Pair False) rows @ concat (map row_messages evs'))"
      by simp
    then show ?thesis unfolding same by (meson set_subset_Cons subset_trans)
  qed
qed simp

definition live_rows :: "event list \<Rightarrow> JournalRow list" where
  "live_rows evs = map snd (filter fst (concat (map row_messages evs)))"

lemma group_messages_live: "n \<in> set (row_messages (GroupMessage msg)) \<Longrightarrow> fst n"
proof -
  have "list_all fst (row_messages (GroupMessage msg))" by (simp split: pyval.split)
  then show "n \<in> set (row_messages (GroupMessage msg)) \<Longrightarrow> fst n" by (simp only: list_all_iff)
qed

lemma message_kinds:
  assumes "\<forall>ev\<in>set evs. fetched rows ev" "n \<in> set (concat (map row_messages evs))"
  shows "fst n \<or> snd n \<in> set rows"
proof -
  obtain ev where ev: "ev \<in> set evs" "n \<in> set (row_messages ev)" using assms(2) by auto
  show ?thesis
  proof (cases "\<exists>hook. ev = Rows hook")
    case True
    then have "ev = Rows (Inr rows)" using ev(1) assms(1) by (auto simp: fetched_def)
    with ev(2) show ?thesis by auto
  next
    case False
    then show ?thesis
    proof (cases ev)
      case (GroupMessage msg)
      then show ?thesis using ev(2) group_messages_live by blast
    qed (use ev(2) in simp_all)
  qed
qed

section \<open>Which live rows come in time\<close>

text \<open>A row of the stream of announcements \<open>live\<close> is on time when it is announced, and for the first time, before any
  later row of the journal is.\<close>

definition on_time :: "JournalRow list \<Rightarrow> JournalRow \<Rightarrow> bool" where
  "on_time live r \<longleftrightarrow> r \<in> set live \<and> (\<forall>x\<in>set (takeWhile (\<lambda>x. x \<noteq> r) live). row_seq x < row_seq r)"

text \<open>The announcements bring the rows above \<open>c\<close> in order, none left out: before a row is announced every earlier one
  of the journal has been.\<close>

definition in_order :: "JournalRow list \<Rightarrow> int \<Rightarrow> JournalRow list \<Rightarrow> bool" where
  "in_order journal c live \<longleftrightarrow>
     (\<forall>x\<in>set live. \<forall>r\<in>set journal.
        c < row_seq r \<and> row_seq r < row_seq x \<longrightarrow> r \<in> set (takeWhile (\<lambda>y. y \<noteq> x) live))"

lemma on_time_Cons: "on_time (x # xs) r \<longleftrightarrow> r = x \<or> row_seq x < row_seq r \<and> on_time xs r"
  by (cases "r = x") (auto simp: on_time_def)

lemma above_on_time: "r \<in> set (above row_seq c live) \<longleftrightarrow> c < row_seq r \<and> on_time live r"
proof (induction live arbitrary: c)
  case Nil
  then show ?case by (simp add: on_time_def)
next
  case (Cons x xs)
  show ?case
  proof (cases "row_seq x \<le> c")
    case True
    then have "c < row_seq r \<Longrightarrow> r \<noteq> x \<and> row_seq x < row_seq r" by auto
    with True show ?thesis unfolding on_time_Cons by (auto simp: Cons.IH)
  next
    case False
    then show ?thesis
      by (simp only: on_time_Cons above.simps if_False set_simps insert_iff Cons.IH) (use False in force)
  qed
qed

lemma ascending_unique:
  assumes "sorted_wrt (<) (map row_seq xs)" "sorted_wrt (<) (map row_seq ys)" "set xs = set ys"
  shows "xs = ys"
  using assms
proof (induction xs arbitrary: ys)
  case (Cons x xs)
  obtain y ys' where ys: "ys = y # ys'" using Cons.prems(3) by (cases ys) auto
  have less: "\<forall>z\<in>set xs. row_seq x < row_seq z" "\<forall>z\<in>set ys'. row_seq y < row_seq z"
    using Cons.prems(1,2) ys by auto
  have eq: "insert x (set xs) = insert y (set ys')" using Cons.prems(3) ys by simp
  have "x = y"
  proof (rule ccontr)
    assume "x \<noteq> y"
    then have "x \<in> set ys'" "y \<in> set xs" using eq by auto
    then show False using less by force
  qed
  moreover have "x \<notin> set xs" "y \<notin> set ys'" using less by auto
  ultimately have "set xs = set ys'" using eq by (metis insert_ident)
  then show ?case using Cons ys \<open>x = y\<close> by simp
qed simp

lemma ascending_filter: "sorted_wrt (<) (map row_seq xs) \<Longrightarrow> sorted_wrt (<) (map row_seq (filter P xs))"
  by (induction xs) auto

lemma ascending_inj:
  "sorted_wrt (<) (map row_seq xs) \<Longrightarrow> x \<in> set xs \<Longrightarrow> y \<in> set xs \<Longrightarrow> row_seq x = row_seq y \<Longrightarrow> x = y"
  by (induction xs) auto

lemma above_journal:
  assumes "sorted_wrt (<) (map row_seq journal)" "set live \<subseteq> set journal"
  shows "above row_seq c live = filter (\<lambda>r. c < row_seq r \<and> on_time live r) journal"
proof (rule ascending_unique)
  show "sorted_wrt (<) (map row_seq (above row_seq c live))" using above_strict by blast
  show "sorted_wrt (<) (map row_seq (filter (\<lambda>r. c < row_seq r \<and> on_time live r) journal))"
    using ascending_filter [OF assms(1)] .
  show "set (above row_seq c live) = set (filter (\<lambda>r. c < row_seq r \<and> on_time live r) journal)"
    using assms(2) by (auto simp: above_on_time) (auto simp: on_time_def)
qed

lemma takeWhile_antisym: "x \<in> set (takeWhile (\<lambda>z. z \<noteq> y) zs) \<Longrightarrow> y \<notin> set (takeWhile (\<lambda>z. z \<noteq> x) zs)"
proof (induction zs)
  case (Cons z zs)
  have head: "v \<noteq> z \<and> (u = z \<or> u \<in> set (takeWhile (\<lambda>z. z \<noteq> v) zs))" if "u \<in> set (takeWhile (\<lambda>z. z \<noteq> v) (z # zs))" for u v
    using that by (cases "z = v") simp_all
  show ?case
  proof
    assume "y \<in> set (takeWhile (\<lambda>z. z \<noteq> x) (z # zs))"
    from head [OF this] head [OF Cons.prems] Cons.IH show False by blast
  qed
qed simp

text \<open>In such a stream every row is on time that is not later than an announced one.\<close>

lemma in_order_on_time:
  assumes order: "in_order journal c live" and sub: "set live \<subseteq> set journal"
    and sorted: "sorted_wrt (<) (map row_seq journal)"
    and r: "r \<in> set journal" "c < row_seq r" and x: "x \<in> set live" "row_seq r \<le> row_seq x"
  shows "on_time live r"
proof -
  have announced: "r \<in> set live"
  proof (cases "row_seq r = row_seq x")
    case True
    then show ?thesis using ascending_inj [OF sorted r(1)] x sub by blast
  next
    case False
    then have "r \<in> set (takeWhile (\<lambda>y. y \<noteq> x) live)" using order r x by (auto simp: in_order_def)
    then show ?thesis by (rule set_takeWhileD [THEN conjunct1])
  qed
  moreover have "row_seq y < row_seq r" if y: "y \<in> set (takeWhile (\<lambda>z. z \<noteq> r) live)" for y
  proof (rule ccontr)
    assume "\<not> row_seq y < row_seq r"
    have live: "y \<in> set live" "y \<noteq> r" using set_takeWhileD [OF y] by simp_all
    then have "row_seq y \<noteq> row_seq r" using ascending_inj [OF sorted _ r(1)] sub by blast
    then have "r \<in> set (takeWhile (\<lambda>z. z \<noteq> y) live)"
      using \<open>\<not> row_seq y < row_seq r\<close> order r live by (auto simp: in_order_def)
    then show False using takeWhile_antisym [OF y] by simp
  qed
  ultimately show ?thesis by (simp add: on_time_def)
qed


lemma sorted_prefix_split:
  assumes "sorted_wrt (<) (map f xs)" "prefix rs (filter (\<lambda>x. (c :: int) < f x) xs)"
  shows "filter (\<lambda>x. f x \<le> last (c # map f rs)) xs = filter (\<lambda>x. f x \<le> c) xs @ rs"
proof -
  have split: "xs = filter (\<lambda>x. f x \<le> c) xs @ filter (\<lambda>x. c < f x) xs"
    using assms(1)
  proof (induction xs)
    case (Cons x xs)
    show ?case
    proof (cases "f x \<le> c")
      case False
      with Cons.prems have "\<forall>y\<in>set xs. c < f y" by fastforce
      then have "filter (\<lambda>x. f x \<le> c) xs = []" "filter (\<lambda>x. c < f x) xs = xs" by (auto simp: filter_empty_conv filter_id_conv)
      with False show ?thesis by simp
    qed (use Cons in simp)
  qed simp
  obtain zs where zs: "filter (\<lambda>x. c < f x) xs = rs @ zs" using assms(2) by (auto simp: prefix_def)
  show ?thesis
  proof (cases "rs = []")
    case False
    let ?l = "f (last rs)"
    have l: "last (c # map f rs) = ?l" using False by (simp add: last_map)
    obtain ys where ys: "rs = ys @ [last rs]" using False by (metis append_butlast_last_id)
    have above: "\<forall>x\<in>set rs. c < f x" using arg_cong [OF zs, of set] by auto
    have sorted: "sorted_wrt (<) (map f (filter (\<lambda>x. c < f x) xs))"
      using assms(1) by (induction xs) auto
    have "\<forall>x\<in>set rs. f x \<le> ?l" "\<forall>x\<in>set zs. ?l < f x"
      using sorted unfolding zs by (subst (asm) ys, auto simp: sorted_wrt_append)+
    moreover have "c < ?l" using above False by simp
    moreover from this have "filter (\<lambda>x. f x \<le> c \<and> f x \<le> ?l) xs = filter (\<lambda>x. f x \<le> c) xs"
      by (intro filter_cong) auto
    ultimately show ?thesis
      unfolding l by (subst split, unfold zs) (auto simp: filter_id_conv filter_empty_conv not_le)
  qed simp
qed

text \<open>The rows a session hands over when it has fetched \<open>R\<close>: those, and what comes on time after them.\<close>

definition session_rows :: "JournalRow list \<Rightarrow> int \<Rightarrow> JournalRow list \<Rightarrow> JournalRow list \<Rightarrow> JournalRow list" where
  "session_rows journal lq R live =
     filter (\<lambda>r. r \<in> set R \<or> last (lq # map row_seq R) < row_seq r \<and> on_time live r) journal"

lemma rows_after_prefix:
  assumes "prefix J journal"
  shows "prefix (rows_after J lq limit) (filter (\<lambda>r. lq < row_seq r) journal)"
proof -
  obtain K where "journal = J @ K" using assms by (auto simp: prefix_def)
  then show ?thesis using take_is_prefix [of "nat limit" "filter (\<lambda>r. lq < row_seq r) J"]
    by (auto simp: rows_after_def intro: prefix_prefix)
qed

lemma fetched_last:
  assumes "sorted_wrt (<) (map row_seq journal)" "prefix R (filter (\<lambda>r. lq < row_seq r) journal)"
  shows "Max (insert lq (row_seq ` set R)) = last (lq # map row_seq R) \<and>
    (\<forall>r\<in>set journal. r \<in> set R \<longleftrightarrow> lq < row_seq r \<and> row_seq r \<le> last (lq # map row_seq R)) \<and>
    lq \<le> last (lq # map row_seq R) \<and> set R \<subseteq> set journal \<and> sorted_wrt (<) (map row_seq R)"
proof -
  let ?c = "last (lq # map row_seq R)"
  have R: "set R \<subseteq> {r \<in> set journal. lq < row_seq r}" using set_mono_prefix [OF assms(2)] by auto
  have "sorted_wrt (<) (map row_seq (filter (\<lambda>r. lq < row_seq r) journal))" using ascending_filter [OF assms(1)] .
  then have sorted: "sorted_wrt (<) (map row_seq R)" using assms(2) by (auto simp: prefix_def sorted_wrt_append)
  have split: "filter (\<lambda>x. row_seq x \<le> ?c) journal = filter (\<lambda>x. row_seq x \<le> lq) journal @ R"
    using sorted_prefix_split [OF assms] .
  have c: "lq \<le> ?c \<and> (\<forall>r\<in>set R. row_seq r \<le> ?c) \<and> ?c \<in> insert lq (row_seq ` set R)"
  proof (cases "R = []")
    case False
    then obtain xs x where xs: "R = xs @ [x]" by (metis append_butlast_last_id)
    then show ?thesis using sorted R by (auto simp: sorted_wrt_append)
  qed simp
  have "Max (insert lq (row_seq ` set R)) = ?c" by (rule Max_eqI) (use c in auto)
  moreover have "r \<in> set R \<longleftrightarrow> lq < row_seq r \<and> row_seq r \<le> ?c" if "r \<in> set journal" for r
  proof -
    have "r \<in> set (filter (\<lambda>x. row_seq x \<le> ?c) journal) \<longleftrightarrow> r \<in> set (filter (\<lambda>x. row_seq x \<le> lq) journal @ R)"
      unfolding split ..
    then have "row_seq r \<le> ?c \<longleftrightarrow> row_seq r \<le> lq \<or> r \<in> set R" using that by simp
    moreover have "r \<in> set R \<Longrightarrow> lq < row_seq r \<and> row_seq r \<le> ?c" using R c by blast
    ultimately show ?thesis by linarith
  qed
  ultimately show ?thesis using c R sorted by blast
qed

text \<open>The messages of a session, deduplicated by the cursor.\<close>

lemma session_messages:
  assumes journal: "sorted_wrt (<) (map row_seq journal)" "prefix R (filter (\<lambda>r. lq < row_seq r) journal)"
    and ns: "\<forall>n\<in>set ns. fst n \<or> snd n \<in> set R" and live: "map snd (filter fst ns) = live" "set live \<subseteq> set journal"
  shows "map snd (above message_seq lq (map (Pair False) R @ ns)) = session_rows journal lq R live"
proof -
  let ?c = "last (lq # map row_seq R)"
  note R = fetched_last [OF journal]
  have seqs: "set (map message_seq (map (Pair False) R)) = row_seq ` set R" by (auto simp: message_seq_def image_image)
  have "set R \<subseteq> {r. lq < row_seq r}" using set_mono_prefix [OF journal(2)] by auto
  then have replay: "above message_seq lq (map (Pair False) R) = map (Pair False) R"
    using R by (auto simp: above_ascending filter_id_conv message_seq_def comp_def)
  have stale: "row_seq r \<le> ?c" if "r \<in> set R" for r using that R by auto
  have "map snd (above message_seq ?c ns) = above row_seq ?c live"
    unfolding live(1) [symmetric]
    by (rule above_live [OF order.refl]) (use ns stale in \<open>force simp: message_seq_def\<close>)
  moreover have "R @ above row_seq ?c live = session_rows journal lq R live"
  proof (rule ascending_unique)
    show "sorted_wrt (<) (map row_seq (R @ above row_seq ?c live))"
      using R above_strict [of row_seq ?c live] stale by (auto simp: sorted_wrt_append) force
    show "sorted_wrt (<) (map row_seq (session_rows journal lq R live))"
      unfolding session_rows_def by (rule ascending_filter [OF journal(1)])
    show "set (R @ above row_seq ?c live) = set (session_rows journal lq R live)"
      using R live(2) by (auto simp: session_rows_def above_on_time) (auto simp: on_time_def)
  qed
  ultimately show ?thesis
    unfolding above_messages_append replay seqs using R by (simp add: comp_def)
qed

section \<open>A session in full\<close>

text \<open>A session of a client that declared \<open>lq\<close>, on a stream whose journal becomes \<open>journal\<close>: a connected socket
  that has sent no row yet and whose cursor is at most \<open>lq\<close>; a gap within the window; hooks that keep their
  contract, \<open>J\<close> being the rows committed when the rows are asked for and \<open>R\<close> the answer; then anything. The
  live rows are rows of the journal, announced by the layer in any order, late, again or never: \<open>live\<close>.\<close>

inductive session :: "env \<Rightarrow> JournalRow list \<Rightarrow> int \<Rightarrow> JournalRow list \<Rightarrow> JournalRow list \<Rightarrow> sock \<Rightarrow> bool" where
  session: "\<lbrakk>reachable E s; phase s = AwaitSeq lq; journal_rows s = []; max_seq_sent s \<le> lq;
    max_replay (conf E) = Inr limit; m - lq \<le> limit; prefix J journal; R = rows_after J lq limit;
    runs E s (ServerSeq (Inr (PInt m)) # evs) s'; \<forall>ev\<in>set evs. fetched R ev;
    live_rows evs = live; set live \<subseteq> set journal\<rbrakk> \<Longrightarrow> session E journal lq R live s'"

text \<open>What a session hands over in total: nothing as long as the rows have not been fetched, then the rows of the
  session, as far as they have been announced.\<close>

lemma session_sent:
  assumes s: "phase s = AwaitSeq lq" "journal_rows s = []" "max_seq_sent s \<le> lq"
    and limit: "max_replay (conf E) = Inr limit" "m - lq \<le> limit"
    and journal: "sorted_wrt (<) (map row_seq journal)" "prefix R (filter (\<lambda>r. lq < row_seq r) journal)"
    and run: "runs E s (ServerSeq (Inr (PInt m)) # evs) s'" "\<forall>ev\<in>set evs. fetched R ev"
    and live: "live_rows evs = live" "set live \<subseteq> set journal"
  shows "\<exists>got. (got = [] \<or> got = session_rows journal lq R live) \<and> prefix (wire_rows s') got \<and>
    (writing s' \<and> \<not> closing s' \<longrightarrow> journal_rows s' = got) \<and>
    (Rows (Inr R) \<in> set evs \<longrightarrow> got = session_rows journal lq R live)"
proof -
  let ?ms = "concat (map row_messages evs)"
  let ?s1 = "settle (hello_server_seq E lq (Inr (PInt m)) s)"
  obtain s1 where s1: "moves E s (ServerSeq (Inr (PInt m))) s1" "runs E s1 evs s'"
    using run(1) by (auto elim: runs.cases)
  then have "s1 = ?s1" using s(1) by (auto elim: moves.cases)
  moreover have "phase ?s1 = AwaitRows lq m" using hello_seq_step [OF limit, of s] by (simp add: settle_def)
  moreover have "relays [] lq [] ?s1" by (rule relays_hello [OF s(2,3)])
  ultimately have p: "phase s1 = AwaitRows lq m" and r: "relays [] lq [] s1" by simp_all
  have "relays [] lq ?ms s'" using relays_runs [OF s1(2) r] run(2) p by (simp add: fetched_def)
  then have result: "prefix (wire_rows s') (map snd (above message_seq lq ?ms))"
    "writing s' \<and> \<not> closing s' \<longrightarrow> journal_rows s' = map snd (above message_seq lq ?ms)"
    using relays_wire by (force, simp add: relays_def Let_def)
  show ?thesis
  proof (cases "?ms = []")
    case False
    then obtain evs' where evs': "set evs' \<subseteq> set evs" "?ms = map (Pair False) R @ concat (map row_messages evs')"
      using replay_first [OF s1(2) p run(2)] by blast
    have "map snd (filter fst (concat (map row_messages evs'))) = live"
      unfolding live(1) [symmetric] live_rows_def evs'(2) by (simp add: filter_map comp_def)
    moreover have "\<forall>n\<in>set (concat (map row_messages evs')). fst n \<or> snd n \<in> set R"
      using message_kinds [of evs' R] evs'(1) run(2) by fastforce
    ultimately have "map snd (above message_seq lq ?ms) = session_rows journal lq R live"
      unfolding evs'(2) using session_messages [OF journal _ _ live(2)] by blast
    with result show ?thesis by blast
  next
    case True
    then have none: "above message_seq lq ?ms = []" "live = []"
      unfolding live(1) [symmetric] live_rows_def by (simp_all only: above.simps filter.simps list.map)
    have "session_rows journal lq R live = []" if "Rows (Inr R) \<in> set evs"
    proof -
      have "R = []" using True that by force
      then show ?thesis by (simp add: session_rows_def none(2) on_time_def)
    qed
    with result none(1) show ?thesis by (intro exI [of _ "[]"]) simp
  qed
qed

lemma session_total:
  assumes "session E journal lq R live s'" and sorted: "sorted_wrt (<) (map row_seq journal)"
  shows "prefix R (filter (\<lambda>r. lq < row_seq r) journal) \<and> set live \<subseteq> set journal \<and>
    prefix (wire_rows s') (session_rows journal lq R live)"
  using assms(1)
proof cases
  case (session s limit m J evs)
  have R: "prefix R (filter (\<lambda>r. lq < row_seq r) journal)" using rows_after_prefix session(7,8) by simp
  obtain got where "got = [] \<or> got = session_rows journal lq R live" "prefix (wire_rows s') got"
    using session_sent [OF session(2-6) sorted R session(9-12)] by blast
  then show ?thesis using R session(12) by auto
qed

section \<open>The client's life\<close>

text \<open>A client that starts with nothing, and after each connection has as much of what was written to it as reached it,
  an initial segment; what it declares is the last sequence it has received. With it the rows that were overtaken: those above what a session
  fetched and at most what the client declares after it, which the layer did not announce in that session before
  a later row; and whether every session's announcements came in order.\<close>

definition overtaken :: "JournalRow list \<Rightarrow> int \<Rightarrow> JournalRow list \<Rightarrow> int \<Rightarrow> JournalRow set" where
  "overtaken journal c live lq = {r \<in> set journal. c < row_seq r \<and> row_seq r \<le> lq \<and> \<not> on_time live r}"

inductive client_holds :: "JournalRow list \<Rightarrow> JournalRow list \<Rightarrow> int \<Rightarrow> JournalRow set \<Rightarrow> bool \<Rightarrow> bool" for journal where
  fresh: "client_holds journal [] 0 {} True"
| reconnects: "\<lbrakk>client_holds journal got lq lost ordered; session E journal lq R live s'; prefix rs (wire_rows s');
    c = last (lq # map row_seq R); lq' = last (lq # map row_seq rs)\<rbrakk> \<Longrightarrow>
    client_holds journal (got @ rs) lq' (lost \<union> overtaken journal c live lq') (ordered \<and> in_order journal c live)"

lemma session_grows:
  assumes sorted: "sorted_wrt (<) (map row_seq journal)" and R: "prefix R (filter (\<lambda>r. lq < row_seq r) journal)"
    and got: "got = filter (\<lambda>r. row_seq r \<le> lq \<and> r \<notin> lost) journal" "\<forall>r\<in>lost. row_seq r \<le> lq"
    and wire: "prefix rs (session_rows journal lq R live)"
    and c: "c = last (lq # map row_seq R)" and lq': "lq' = last (lq # map row_seq rs)"
  shows "got @ rs = filter (\<lambda>r. row_seq r \<le> lq' \<and> r \<notin> lost \<union> overtaken journal c live lq') journal \<and> lq \<le> lq'"
proof -
  note bounds = fetched_last [OF sorted R, folded c]
  define kept where "kept r \<longleftrightarrow> (if row_seq r \<le> lq then r \<notin> lost else r \<in> set R \<or> c < row_seq r \<and> on_time live r)" for r
  have j: "sorted_wrt (<) (map row_seq (filter kept journal))" by (rule ascending_filter [OF sorted])
  have late: "\<not> row_seq r \<le> lq" if "r \<in> set journal" "r \<in> set R \<or> c < row_seq r" for r
  proof -
    have "r \<in> set R \<Longrightarrow> lq < row_seq r" "lq \<le> c" using bounds that(1) by blast+
    with that(2) show ?thesis by linarith
  qed
  have "filter (\<lambda>r. lq < row_seq r) (filter kept journal) = session_rows journal lq R live"
    unfolding session_rows_def c [symmetric] filter_filter
  proof (rule filter_cong [OF refl])
    fix r assume "r \<in> set journal"
    from late [OF this] show "(kept r \<and> lq < row_seq r) = (r \<in> set R \<or> c < row_seq r \<and> on_time live r)"
      unfolding kept_def by auto
  qed
  with wire have pre: "prefix rs (filter (\<lambda>r. lq < row_seq r) (filter kept journal))" by simp
  have "lq \<le> lq'"
    using fetched_last [OF j pre] unfolding lq' by blast
  have "filter (\<lambda>r. row_seq r \<le> lq') (filter kept journal) = filter (\<lambda>r. row_seq r \<le> lq) (filter kept journal) @ rs"
    using sorted_prefix_split [OF j pre] unfolding lq' .
  moreover have "filter (\<lambda>r. row_seq r \<le> lq) (filter kept journal) = got"
    unfolding got(1) filter_filter by (rule filter_cong [OF refl]) (auto simp: kept_def)
  moreover have "filter (\<lambda>r. row_seq r \<le> lq') (filter kept journal) =
      filter (\<lambda>r. row_seq r \<le> lq' \<and> r \<notin> lost \<union> overtaken journal c live lq') journal"
    unfolding filter_filter
  proof (rule filter_cong [OF refl])
    fix r assume r: "r \<in> set journal"
    then have R_iff: "r \<in> set R \<longleftrightarrow> lq < row_seq r \<and> row_seq r \<le> c" using bounds by blast
    have "lq \<le> c" using bounds by blast
    then show "(kept r \<and> row_seq r \<le> lq') = (row_seq r \<le> lq' \<and> r \<notin> lost \<union> overtaken journal c live lq')"
      using r got(2) \<open>lq \<le> lq'\<close> by (auto simp: kept_def overtaken_def R_iff not_le)
  qed
  ultimately show ?thesis using \<open>lq \<le> lq'\<close> by simp
qed

lemma client_holds_kept:
  assumes "client_holds journal got lq lost ordered"
    and sorted: "sorted_wrt (<) (map row_seq journal)" and pos: "\<forall>r\<in>set journal. 0 < row_seq r"
  shows "got = filter (\<lambda>r. row_seq r \<le> lq \<and> r \<notin> lost) journal \<and> (ordered \<longrightarrow> lost = {}) \<and>
    (\<forall>r\<in>lost. r \<in> set journal \<and> row_seq r \<le> lq \<and> (\<exists>x\<in>set got. row_seq r < row_seq x))"
  using assms(1)
proof (induction rule: client_holds.induct)
  case fresh
  have "filter (\<lambda>r. row_seq r \<le> 0) journal = []" using pos by (auto simp: filter_empty_conv)
  then show ?case by simp
next
  case (reconnects got lq lost ordered E R live s' rs c lq')
  note total = session_total [OF reconnects.hyps(2) sorted]
  let ?lost = "overtaken journal c live lq'"
  have R: "prefix R (filter (\<lambda>r. lq < row_seq r) journal)" and live: "set live \<subseteq> set journal"
    and wire: "prefix rs (session_rows journal lq R live)"
    using total reconnects.hyps(3) prefix_order.trans by blast+
  have grows: "got @ rs = filter (\<lambda>r. row_seq r \<le> lq' \<and> r \<notin> lost \<union> ?lost) journal" "lq \<le> lq'"
    using session_grows [OF sorted R _ _ wire reconnects.hyps(4,5)] reconnects.IH by blast+
  have last: "\<exists>x\<in>set rs. x \<in> set live \<and> row_seq x = lq' \<and> on_time live x" if "r \<in> ?lost" for r
  proof -
    have c: "c < lq'" "lq \<le> c" using that fetched_last [OF sorted R] reconnects.hyps(4) by (auto simp: overtaken_def)
    then have "rs \<noteq> []" using reconnects.hyps(5) by auto
    then have x: "last rs \<in> set rs" "row_seq (last rs) = lq'"
      using reconnects.hyps(5) by (simp_all add: last_map)
    have "last rs \<in> set (session_rows journal lq R live)" using x(1) set_mono_prefix [OF wire] by blast
    moreover have "y \<in> set journal \<Longrightarrow> y \<in> set R \<Longrightarrow> row_seq y \<le> c" for y
      using fetched_last [OF sorted R, folded reconnects.hyps(4)] by blast
    ultimately have "on_time live (last rs)"
      using x(2) c(1) unfolding session_rows_def reconnects.hyps(4) [symmetric] by fastforce
    then show ?thesis using x by (auto simp: on_time_def)
  qed
  have none: "?lost = {}" if "in_order journal c live"
    using last in_order_on_time [OF that live sorted] by (fastforce simp: overtaken_def)
  have new: "row_seq r \<le> lq' \<and> (\<exists>x\<in>set rs. row_seq r < row_seq x)" if r: "r \<in> ?lost" for r
  proof -
    obtain x where x: "x \<in> set rs" "row_seq x = lq'" "on_time live x" "x \<in> set live" using last [OF r] by blast
    have "r \<noteq> x" using r x(3) by (auto simp: overtaken_def)
    moreover have "r \<in> set journal" "x \<in> set journal" using r x(4) live by (auto simp: overtaken_def)
    ultimately have "row_seq r \<noteq> row_seq x" using ascending_inj [OF sorted] by blast
    then show ?thesis using r x(1,2) by (intro conjI bexI [of _ x]) (simp_all add: overtaken_def)
  qed
  have old: "r \<in> set journal \<and> row_seq r \<le> lq' \<and> (\<exists>x\<in>set (got @ rs). row_seq r < row_seq x)"
    if "r \<in> lost" for r
  proof -
    have "r \<in> set journal" "row_seq r \<le> lq" "\<exists>x\<in>set got. row_seq r < row_seq x" using that reconnects.IH by blast+
    then show ?thesis using grows(2) by auto
  qed
  have sub: "r \<in> set journal" if "r \<in> ?lost" for r using that by (simp add: overtaken_def)
  have rest: "\<forall>r\<in>lost \<union> ?lost. r \<in> set journal \<and> row_seq r \<le> lq' \<and>
      (\<exists>x\<in>set (got @ rs). row_seq r < row_seq x)"
  proof (intro ballI; elim UnE)
    fix r assume r: "r \<in> ?lost"
    with new [OF r] sub [OF r] show "r \<in> set journal \<and> row_seq r \<le> lq' \<and> (\<exists>x\<in>set (got @ rs). row_seq r < row_seq x)"
      by auto
  qed (rule old)
  show ?case using grows(1) rest none reconnects.IH by blast
qed

section \<open>Properties\<close>

text \<open>C4: Reconnecting loses a row only when a later one overtook it, and repeats nothing. A client goes through
  any number of connections to a stream with an ever growing journal, each with replay, live rows, signals,
  heartbeats and the writer interleaved in any way, and each broken off at any point, with the last frames on their way; the layer brings the live
  rows in any order, repeats them or loses them; the client declares the last sequence that reached it. Then what
  it has received, in the order it was received, is exactly the journal up to that sequence without the overtaken
  rows: those which, in a session that had not fetched them, were not announced before a later row that the client
  received in that session. They are gone for good, since the next replay starts above them, and each stands
  below a row the client holds; where the announcements came in order there are none. (Sessions in which a live row came
  before the \<open>hello\<close>, or whose gap is beyond the replay window, are not among these.)\<close>

theorem reconnects_lose_only_overtaken:
  assumes "sorted_wrt (<) (map row_seq journal)" "\<forall>r\<in>set journal. 0 < row_seq r"
    and "client_holds journal got lq lost ordered"
  shows "got = filter (\<lambda>r. row_seq r \<le> lq \<and> r \<notin> lost) journal \<and> (ordered \<longrightarrow> lost = {}) \<and>
    (\<forall>r\<in>lost. r \<in> set journal \<and> row_seq r \<le> lq \<and> (\<exists>x\<in>set got. row_seq r < row_seq x))"
  using client_holds_kept [OF assms(3,1,2)] .

text \<open>C11: A session that is not cut off is complete: once the rows have been fetched, a socket that is still open and
  whose writer is alive has sent, is sending or has queued exactly the fetched rows and, of the rows after those,
  every one that was announced before any later row was, in the order of the journal and once each, whatever was
  interleaved, repeated or late. When the announcements come in order that is every announced row above
  \<open>last_seq\<close>.\<close>

theorem session_complete:
  assumes s: "phase s = AwaitSeq lq" "journal_rows s = []" "max_seq_sent s \<le> lq"
    and limit: "max_replay (conf E) = Inr limit" "m - lq \<le> limit"
    and journal: "sorted_wrt (<) (map row_seq journal)" "prefix J journal" and R: "R = rows_after J lq limit"
    and run: "runs E s (ServerSeq (Inr (PInt m)) # evs) s'" "\<forall>ev\<in>set evs. fetched R ev"
    and live: "set (live_rows evs) \<subseteq> set journal"
    and rows: "Rows (Inr R) \<in> set evs" and alive: "writing s'" "\<not> closing s'"
  shows "journal_rows s' = filter (\<lambda>r. r \<in> set R \<or>
      last (lq # map row_seq R) < row_seq r \<and> on_time (live_rows evs) r) journal \<and>
    (in_order journal (last (lq # map row_seq R)) (live_rows evs) \<longrightarrow>
      journal_rows s' = filter (\<lambda>r. lq < row_seq r \<and> (r \<in> set R \<or> r \<in> set (live_rows evs))) journal)"
proof -
  let ?c = "last (lq # map row_seq R)" and ?live = "live_rows evs"
  have pre: "prefix R (filter (\<lambda>r. lq < row_seq r) journal)" using rows_after_prefix [OF journal(2)] R by simp
  have sent: "journal_rows s' = session_rows journal lq R ?live"
    using session_sent [OF s limit journal(1) pre run refl live] rows alive by auto
  moreover have "session_rows journal lq R ?live = filter (\<lambda>r. lq < row_seq r \<and> (r \<in> set R \<or> r \<in> set ?live)) journal"
    if order: "in_order journal ?c ?live"
    unfolding session_rows_def
  proof (rule filter_cong [OF refl])
    fix r assume r: "r \<in> set journal"
    then have "r \<in> set R \<longleftrightarrow> lq < row_seq r \<and> row_seq r \<le> ?c" "lq \<le> ?c" using fetched_last [OF journal(1) pre] by blast+
    moreover have "on_time ?live r" if "r \<in> set ?live" "?c < row_seq r"
      using in_order_on_time [OF order live journal(1) r that(2,1)] by simp
    moreover have "on_time ?live r \<Longrightarrow> r \<in> set ?live" by (simp add: on_time_def)
    ultimately show "(r \<in> set R \<or> ?c < row_seq r \<and> on_time ?live r) = (lq < row_seq r \<and> (r \<in> set R \<or> r \<in> set ?live))"
      by (meson le_less_trans not_le)
  qed
  ultimately show ?thesis unfolding session_rows_def by simp
qed

text \<open>A session on the sample socket: one row is in the journal when the rows are fetched, and two are committed
  after that; the third is announced, then the second, late, then the third again.\<close>

definition greeted_sock :: sock where
  "greeted_sock = sample_sock\<lparr>phase := AwaitSeq 0\<rparr>"

definition row_number :: "int \<Rightarrow> JournalRow" where
  "row_number n = \<lparr>row_seq = n, row_payload = []\<rparr>"

definition session_journal :: "JournalRow list" where
  "session_journal = [row_number 1, row_number 2, row_number 3]"

definition session_events :: "event list" where
  "session_events =
     [Rows (Inr [row_number 1]), GroupMessage (frame_message ''chat:ws:1'' 3 []),
      GroupMessage (frame_message ''chat:ws:1'' 2 []), GroupMessage (frame_message ''chat:ws:1'' 3 [])]"

definition served_sock :: sock where
  "served_sock = sample_sock\<lparr>max_seq_sent := 3, outbox :=
     [welcome_frame sample_sock 1, row_frame (Some ''chat:ws:1'') (False, row_number 1), done_frame sample_sock 1,
      row_frame (Some ''chat:ws:1'') (True, row_number 3)]\<rparr>"

lemma greeted_reachable: "reachable sample_env greeted_sock"
proof -
  have "receive_json sample_env 1 hello_content sample_sock = (greeted_sock, None)"
    by (simp add: receive_json_def hello_content_parsed frame_handlers_def on_hello_def sample_env_def
        authorize_cached_def sample_sock_def resumable_on_hello_def greeted_sock_def py_or_def dict_get_def)
  then show ?thesis
    using reachable.step [OF sample_reachable moves.receives, of 1 hello_content]
    by (simp add: settle_def) (simp add: sample_sock_def accepted_def)
qed

lemma greeted_fresh: "journal_rows greeted_sock = []" "phase greeted_sock = AwaitSeq 0" "max_seq_sent greeted_sock \<le> 0"
  by (simp_all add: journal_rows_def greeted_sock_def sample_sock_def frames_def wire_frames_def List.map_filter_def)

lemma sample_rows_after: "rows_after [row_number 1] 0 500 = [row_number 1]"
  by (simp add: rows_after_def row_number_def)

lemma greeted_runs: "runs sample_env greeted_sock (ServerSeq (Inr (PInt 1)) # session_events) served_sock"
proof -
  let ?w = "welcome_frame sample_sock 1" and ?d = "done_frame sample_sock 1"
  let ?r1 = "row_frame (Some ''chat:ws:1'') (False, row_number 1)"
  let ?s1 = "sample_sock\<lparr>phase := AwaitRows 0 1, outbox := [?w]\<rparr>"
  let ?s2 = "sample_sock\<lparr>max_seq_sent := 1, outbox := [?w, ?r1, ?d]\<rparr>"
  have 1: "moves sample_env greeted_sock (ServerSeq (Inr (PInt 1))) ?s1"
    using moves.gets_seq [of greeted_sock 0 sample_env "Inr (PInt 1)"] hello_seq_step [OF sample_max_replay, of 1 0 greeted_sock]
    by (simp add: greeted_sock_def settle_def) (simp add: sample_sock_def new_sock_def enqueue_def welcome_frame_def)
  have "hello_rows 1 (Inr [row_number 1]) ?s1 = (?s2, None)"
    by (simp add: hello_rows_def replay_rows_push push_row_simp message_seq_def row_number_def send_plain done_frame_def
          row_frame_def) (simp add: sample_sock_def new_sock_def enqueue_def)
  then have 2: "moves sample_env ?s1 (Rows (Inr [row_number 1])) ?s2"
    using moves.gets_rows [of ?s1 0 1 sample_env "Inr [row_number 1]"] by (simp add: settle_def)
  have hear: "moves sample_env s (GroupMessage (frame_message ''chat:ws:1'' n [])) (push_row s (True, row_number n))"
    if "phase s = Idle" "accepted s" for s n
    using moves.hears [OF that by_deliver_frame, of sample_env "''chat:ws:1''" n "[]"]
    by (simp add: dispatch_group_def realtime_frame_push settle_def row_number_def)
  have idle: "phase ?s2 = Idle" "accepted ?s2" "phase served_sock = Idle" "accepted served_sock"
    by (simp_all add: served_sock_def sample_sock_def accepted_def)
  have "push_row ?s2 (True, row_number 3) = served_sock"
    by (simp add: push_row_simp message_seq_def row_number_def served_sock_def)
       (simp add: sample_sock_def new_sock_def enqueue_def)
  then have 3: "moves sample_env ?s2 (GroupMessage (frame_message ''chat:ws:1'' 3 [])) served_sock"
    using hear [OF idle(1,2), of 3] by simp
  have old: "moves sample_env served_sock (GroupMessage (frame_message ''chat:ws:1'' n [])) served_sock" if "n \<le> 3" for n
  proof -
    have "push_row served_sock (True, row_number n) = served_sock"
      using that by (simp add: push_row_simp message_seq_def served_sock_def row_number_def)
    then show ?thesis using hear [OF idle(3,4), of n] by simp
  qed
  show ?thesis
    unfolding session_events_def
    by (rule runs.then_move [OF 1 runs.then_move [OF 2 runs.then_move [OF 3 runs.then_move [OF old
          runs.then_move [OF old runs.rest]]]]]) simp_all
qed

lemma sample_live: "live_rows session_events = [row_number 3, row_number 2, row_number 3]"
  by (simp add: live_rows_def session_events_def) (simp add: frame_message_def row_number_def)

lemma sample_fetched: "\<forall>ev\<in>set session_events. fetched [row_number 1] ev"
  by (simp add: session_events_def fetched_def is_server_seq_def)

lemma sample_journal:
  "sorted_wrt (<) (map row_seq session_journal)" "prefix [row_number 1] session_journal"
  "\<forall>r\<in>set session_journal. 0 < row_seq r" "{row_number 3, row_number 2} \<subseteq> set session_journal"
  by (simp_all add: session_journal_def row_number_def)

lemma sample_overtaken:
  "overtaken session_journal 1 [row_number 3, row_number 2, row_number 3] 3 = {row_number 2}"
  "in_order session_journal 1 [row_number 3, row_number 2, row_number 3] = False"
proof -
  have apart: "row_number a = row_number b \<longleftrightarrow> a = b" "row_seq (row_number a) = a" for a b by (simp_all add: row_number_def)
  show "in_order session_journal 1 [row_number 3, row_number 2, row_number 3] = False"
    by (simp add: in_order_def session_journal_def apart)
  have "overtaken session_journal 1 [row_number 3, row_number 2, row_number 3] 3 =
      set (filter (\<lambda>r. 1 < row_seq r \<and> row_seq r \<le> 3 \<and> \<not> on_time [row_number 3, row_number 2, row_number 3] r) session_journal)"
    by (simp only: overtaken_def set_filter)
  also have "\<dots> = {row_number 2}" by (simp add: session_journal_def on_time_def apart)
  finally show "overtaken session_journal 1 [row_number 3, row_number 2, row_number 3] 3 = {row_number 2}" .
qed

theorem session_complete_witness:
  "journal_rows served_sock = filter (\<lambda>r. r \<in> set [row_number 1] \<or> last (0 # map row_seq [row_number 1]) < row_seq r \<and>
      on_time (live_rows session_events) r) session_journal \<and>
    journal_rows served_sock = [row_number 1, row_number 3]"
proof -
  have "journal_rows served_sock = filter (\<lambda>r. r \<in> set [row_number 1] \<or> last (0 # map row_seq [row_number 1]) < row_seq r \<and>
      on_time (live_rows session_events) r) session_journal"
    by (rule session_complete [OF greeted_fresh(2,1,3) sample_max_replay _ sample_journal(1,2)
          sample_rows_after [symmetric] greeted_runs sample_fetched, THEN conjunct1])
       (use sample_journal(4) in \<open>simp_all add: sample_live\<close>,
        simp_all add: session_events_def served_sock_def sample_sock_def)
  then show ?thesis by (simp add: sample_live session_journal_def on_time_def row_number_def)
qed

theorem reconnects_lose_only_overtaken_witness:
  "client_holds session_journal [row_number 1, row_number 3] 3 {row_number 2} False \<and>
   [row_number 1, row_number 3] = filter (\<lambda>r. row_seq r \<le> 3 \<and> r \<notin> {row_number 2}) session_journal \<and>
   (\<exists>x\<in>set [row_number 1, row_number 3]. row_seq (row_number 2) < row_seq x)"
proof -
  obtain evs where w: "runs sample_env served_sock evs (writer_loop served_sock)" "set evs \<subseteq> {WriterTakes, WriterWrites}"
    using loop_runs [of served_sock sample_env] by (auto simp: served_sock_def sample_sock_def)
  have silent: "concat (map row_messages evs) = []" "\<forall>ev\<in>set evs. fetched rows ev" for rows
    using w(2) by (auto simp: fetched_def is_server_seq_def)
  have run: "runs sample_env greeted_sock (ServerSeq (Inr (PInt 1)) # (session_events @ evs)) (writer_loop served_sock)"
    using runs_append [OF greeted_runs w(1)] by simp
  have live: "live_rows (session_events @ evs) = [row_number 3, row_number 2, row_number 3]"
    using silent(1) sample_live by (simp add: live_rows_def)
  have wire: "wire_rows (writer_loop served_sock) = [row_number 1, row_number 3]"
  proof -
    have "log (writer_loop served_sock) = log served_sock @ map Wire (outbox served_sock)"
      using loop_result [of served_sock] by (simp add: pending_def served_sock_def sample_sock_def)
    then show ?thesis
      by (simp add: wire_rows_def wire_frames_def List.map_filter_def served_sock_def sample_sock_def)
         (simp add: row_of_def welcome_frame_def done_frame_def row_number_def)
  qed
  have "session sample_env session_journal 0 [row_number 1] [row_number 3, row_number 2, row_number 3] (writer_loop served_sock)"
  proof (rule session.session [OF greeted_reachable greeted_fresh(2,1,3) sample_max_replay _ sample_journal(2)
        sample_rows_after [symmetric] run _ live])
    show "\<forall>ev\<in>set (session_events @ evs). fetched [row_number 1] ev" using sample_fetched silent(2) by auto
  qed (use sample_journal(4) in simp_all)
  from client_holds.reconnects [OF client_holds.fresh this prefix_order.refl refl refl]
  have "client_holds session_journal [row_number 1, row_number 3] 3
      (overtaken session_journal 1 [row_number 3, row_number 2, row_number 3] 3)
      (in_order session_journal 1 [row_number 3, row_number 2, row_number 3])"
    by (simp add: wire row_number_def)
  moreover have "overtaken session_journal 1 [row_number 3, row_number 2, row_number 3] 3 = {row_number 2}"
    "\<not> in_order session_journal 1 [row_number 3, row_number 2, row_number 3]"
    by (simp_all add: sample_overtaken)
  ultimately have life: "client_holds session_journal [row_number 1, row_number 3] 3 {row_number 2} False" by simp
  from life reconnects_lose_only_overtaken [OF sample_journal(1,3) life] show ?thesis by blast
qed

end
