(* ===== verification/Replay.thy ===== *)
theory Replay
  imports Sessions
begin

text \<open>
  A replay among everything else. The consumer waits twice while it answers a \<open>hello\<close>, for the server's sequence
  and for the rows, and during both the writer and the heartbeat go on. What the answer consists of, exactly, over
  every such run; and what a live frame that came before the \<open>hello\<close> takes out of it, for good.
\<close>

section \<open>While the rows are fetched\<close>

definition is_rows :: "event \<Rightarrow> bool" where
  "is_rows ev = (case ev of Rows hook \<Rightarrow> True | _ \<Rightarrow> False)"

lemma fetching_keeps:
  assumes "moves E s ev s'" "phase s = AwaitRows a b" "\<not> is_rows ev"
  shows "phase s' = AwaitRows a b \<and> max_seq_sent s' = max_seq_sent s \<and> stream_key s' = stream_key s \<and>
    (closing s \<longrightarrow> closing s')"
proof -
  have "phase s' = AwaitRows a b" using fetching_moves [OF assms(2,1)] assms(3) by (auto simp: is_rows_def)
  moreover have "max_seq_sent s' = max_seq_sent s"
    using assms(1)
    by cases (use assms(2,3) pace_beat.view_beat_steps [of E _ s] pace_beat.view_beat_ping [of E _ s] in
      \<open>auto simp: is_rows_def pace_def writer_take_def writer_sent_def writer_failed_def split: list.splits option.splits\<close>)
  moreover have "smalls (\<lambda>_. True) s s'"
    using moves_smalls [OF assms(1), of "\<lambda>_. True", OF TrueI] assms(2) by auto
  moreover from this have "stream_key s' = stream_key s" by (induction) (auto dest: small_stream_key)
  ultimately show ?thesis using smalls_closing by blast
qed

lemma fetching_runs:
  assumes "runs E s evs s'" "phase s = AwaitRows a b" "\<forall>ev\<in>set evs. \<not> is_rows ev"
  shows "phase s' = AwaitRows a b \<and> max_seq_sent s' = max_seq_sent s \<and> stream_key s' = stream_key s \<and>
    (closing s \<longrightarrow> closing s')"
  using assms
proof (induction rule: runs.induct)
  case (then_move s ev s1 evs s')
  from fetching_keeps [OF then_move.hyps(1) then_move.prems(1)] then_move.prems(2)
  have s1: "phase s1 = AwaitRows a b \<and> max_seq_sent s1 = max_seq_sent s \<and> stream_key s1 = stream_key s \<and>
      (closing s \<longrightarrow> closing s1)" by simp
  with then_move.IH then_move.prems(2) show ?case by simp
qed simp

lemma enqueue_all_closed: "closing s \<Longrightarrow> enqueue_all fs s = s"
  by (induction fs) (simp_all add: enqueue_def)

text \<open>What the rows, once fetched, make of the queue.\<close>

lemma rows_move:
  assumes "phase s = AwaitRows lq server_seq" "int (length (outbox s)) \<le> outbox_max s"
    and rows: "sorted_wrt (<) (map row_seq rows)"
    and sent: "sent = map (replay_frame (stream_key s)) (filter (\<lambda>r. max_seq_sent s < row_seq r) rows) @ [done_frame s server_seq]"
  shows "\<exists>s'. moves E s (Rows (Inr rows)) s' \<and> phase s' = Idle \<and>
    frames s' = frames s @ (if closing s then [] else take (room s) sent) \<and>
    (closing s' \<longleftrightarrow> closing s \<or> room s < length sent)"
proof -
  obtain c where "hello_rows server_seq (Inr rows) s =
      ((enqueue_all (replay_frames s (max_seq_sent s) rows @ [done_frame s server_seq]) s)\<lparr>phase := Idle, max_seq_sent := c\<rparr>, None)"
    using hello_rows_step by blast
  then have "moves E s (Rows (Inr rows)) ((enqueue_all sent s)\<lparr>phase := Idle, max_seq_sent := c\<rparr>)"
    using moves.gets_rows [OF assms(1), of E "Inr rows"] unfolding sent replay_frames_sorted [OF rows]
    by (simp add: settle_def)
  moreover have "frames (enqueue_all sent s) = frames s @ (if closing s then [] else take (room s) sent)"
    "closing (enqueue_all sent s) \<longleftrightarrow> closing s \<or> room s < length sent"
    using enqueue_all_frames(1,2) [OF _ assms(2), of sent] by (cases "closing s"; simp add: enqueue_all_closed)+
  ultimately show ?thesis
    by (intro exI [of _ "(enqueue_all sent s)\<lparr>phase := Idle, max_seq_sent := c\<rparr>"]) (simp add: frames_def)
qed

section \<open>What is never sent\<close>

lemma small_new_seqs:
  assumes "small R s s'"
  shows "set (journal_seqs s') \<subseteq> set (journal_seqs s) \<union> {n. max_seq_sent s < n}"
proof -
  have same: ?thesis if "frames s' = frames s" using that by (simp add: journal_seqs_def)
  from assms show ?thesis
  proof cases
    case tune
    then show ?thesis by (intro same) (simp add: frames_def)
  next
    case (plain f)
    then show ?thesis using journal_seqs_enqueue [of f s] by (auto dest!: plain_not_journal)
  next
    case (journal n t ev d)
    let ?s1 = "s\<lparr>max_seq_sent := n\<rparr>"
    let ?f = "frame t (Some d) (Some n) (stream_key s)"
    have "journal_seqs ?s1 = journal_seqs s" by (simp add: journal_seqs_def)
    moreover have "journal_seq ?f = Some n" using journal by auto
    ultimately show ?thesis using journal_seqs_enqueue [of ?f ?s1] journal by auto
  next
    case drop_frame
    then show ?thesis
      by (cases "inflight s") (auto simp: journal_seqs_def frames_def writer_failed_def split: option.splits)
  qed (intro same; simp)+
qed

lemma smalls_new_seqs:
  assumes "smalls R s s'"
  shows "set (journal_seqs s') \<subseteq> set (journal_seqs s) \<union> {n. max_seq_sent s < n} \<and> max_seq_sent s \<le> max_seq_sent s'"
  using assms
proof (induction rule: rtranclp_induct)
  case (step s1 s2)
  then show ?case using small_new_seqs [OF step.hyps(2)] small_cursor [OF step.hyps(2)] by fastforce
qed simp

lemma runs_new_seqs:
  assumes "runs E s evs s'" "phase s \<noteq> New"
  shows "set (journal_seqs s') \<subseteq> set (journal_seqs s) \<union> {n. max_seq_sent s < n} \<and> max_seq_sent s \<le> max_seq_sent s'"
  using assms
proof (induction rule: runs.induct)
  case (then_move s ev s1 evs s')
  have "set (journal_seqs s1) \<subseteq> set (journal_seqs s) \<union> {n. max_seq_sent s < n} \<and> max_seq_sent s \<le> max_seq_sent s1"
    using moves_smalls [OF then_move.hyps(1), of "\<lambda>_. True", OF TrueI] then_move.prems smalls_new_seqs
    by (auto simp: journal_seqs_def)
  moreover have "phase s1 \<noteq> New" using moves_started [OF then_move.hyps(1) then_move.prems] .
  ultimately show ?case using then_move.IH by fastforce
qed simp

section \<open>Properties\<close>

text \<open>C10: What a \<open>hello\<close> replays, exactly, when the gap is within the window, whatever the writer and the
  heartbeat do between the two hooks: the welcome, if the queue has room for it, when the server's sequence is
  known; and when the rows are, every row the journal returned whose sequence is above both the client's
  \<open>last_seq\<close> and the socket's cursor at the \<open>hello\<close>, in order, then \<open>replay_done\<close>, as many of these
  frames as the send queue has room for at that moment, and none if the socket is closed by then. The rows close the
  socket for overflow exactly when these frames do not all fit.\<close>

theorem hello_replay_exact:
  assumes reach: "reachable E s" and s: "phase s = AwaitSeq lq" "\<not> closing s"
    and limit: "max_replay (conf E) = Inr limit" "server_seq - lq \<le> limit"
    and run: "runs E s (ServerSeq (Inr (PInt server_seq)) # evs) s2" "\<forall>ev\<in>set evs. \<not> is_rows ev"
    and rows: "sorted_wrt (<) (map row_seq rows)"
    and sent: "sent = map (replay_frame (stream_key s)) (filter (\<lambda>r. max (max_seq_sent s) lq < row_seq r) rows) @
      [done_frame s server_seq]"
  shows "\<exists>s1 s'. moves E s (ServerSeq (Inr (PInt server_seq))) s1 \<and>
    frames s1 = frames s @ take (room s) [welcome_frame s server_seq] \<and> (closing s1 \<longleftrightarrow> room s = 0) \<and>
    runs E s1 evs s2 \<and> moves E s2 (Rows (Inr rows)) s' \<and> phase s' = Idle \<and>
    frames s' = frames s2 @ (if closing s2 then [] else take (room s2) sent) \<and>
    (closing s' \<longleftrightarrow> closing s2 \<or> room s2 < length sent)"
proof -
  let ?w = "welcome_frame s server_seq"
  let ?s1 = "(enqueue ?w s)\<lparr>max_seq_sent := max (max_seq_sent s) lq, phase := AwaitRows lq server_seq\<rparr>"
  have fits: "int (length (outbox s)) \<le> outbox_max s" using reachable_bounded [OF reach] by (simp add: bounded_def)
  obtain s1 where s1: "moves E s (ServerSeq (Inr (PInt server_seq))) s1" "runs E s1 evs s2"
    using run(1) by (auto elim: runs.cases)
  then have s1_eq: "s1 = ?s1"
    using s(1) hello_seq_step [OF limit, of s] by (auto elim!: moves.cases simp: settle_def)
  then have keeps: "phase s2 = AwaitRows lq server_seq" "max_seq_sent s2 = max (max_seq_sent s) lq" "stream_key s2 = stream_key s"
    using fetching_runs [OF s1(2) _ run(2), of lq server_seq] by simp_all
  have "reachable E s2" using runs_reachable [OF run(1) reach] .
  then have "int (length (outbox s2)) \<le> outbox_max s2" using reachable_bounded by (auto simp: bounded_def)
  from rows_move [OF keeps(1) this rows, of sent E] obtain s' where "moves E s2 (Rows (Inr rows)) s'" "phase s' = Idle"
    "frames s' = frames s2 @ (if closing s2 then [] else take (room s2) sent)"
    "closing s' \<longleftrightarrow> closing s2 \<or> room s2 < length sent"
    using sent by (auto simp: keeps done_frame_def)
  moreover have "frames s1 = frames s @ take (room s) [?w]" "closing s1 \<longleftrightarrow> room s = 0"
    using enqueue_all_frames(1,2) [OF s(2) fits, of "[?w]"] by (simp_all add: s1_eq frames_def)
  ultimately show ?thesis using s1 by (intro exI [of _ s1] exI [of _ s']) (simp only: simp_thms)
qed


lemma sample_hello_reachable: "reachable sample_env sample_hello"
proof -
  let ?hello = "PDict (frame HELLO (Some [(''last_seq'', PInt 1)]) None None)"
  have parsed: "parse_frame ?hello =
      Inr \<lparr>ftype = HELLO, fpayload = [(''last_seq'', PInt 1)], fseq = None, fstream = None\<rparr>"
    by (simp add: parse_frame_def parse_payload_def parse_seq_def parse_stream_def wire_defs)
  have "receive_json sample_env 1 ?hello sample_sock = (sample_hello, None)"
    unfolding receive_json_def parsed
    by (simp add: frame_handlers_def authorize_cached_def on_hello_def resumable_on_hello_def sample_env_def py_or_def)
       (simp add: sample_sock_def sample_hello_def)
  then show ?thesis
    using reachable.step [OF sample_reachable moves.receives, of 1 ?hello]
    by (simp add: settle_def) (simp add: sample_sock_def accepted_def)
qed

text \<open>On the sample socket the writer takes the welcome before the rows are there.\<close>

theorem hello_replay_exact_witness:
  "\<exists>s1 s2 s'. moves sample_env sample_hello (ServerSeq (Inr (PInt 3))) s1 \<and>
    frames s1 = frames sample_hello @ take (room sample_hello) [welcome_frame sample_hello 3] \<and>
    (closing s1 \<longleftrightarrow> room sample_hello = 0) \<and>
    runs sample_env s1 [WriterTakes, WriterWrites] s2 \<and> moves sample_env s2 (Rows (Inr sample_rows)) s' \<and> phase s' = Idle \<and>
    frames s' = frames s2 @ (if closing s2 then [] else take (room s2)
      (map (replay_frame (stream_key sample_hello)) sample_rows @ [done_frame sample_hello 3])) \<and>
    (closing s' \<longleftrightarrow> closing s2 \<or> room s2 < length
      (map (replay_frame (stream_key sample_hello)) sample_rows @ [done_frame sample_hello 3]))"
proof -
  obtain s1 where s1: "moves sample_env sample_hello (ServerSeq (Inr (PInt 3))) s1"
    using moves.gets_seq [OF sample_hello_fields(1), of sample_env] by blast
  let ?s2 = "writer_sent (writer_take s1)"
  have run: "runs sample_env sample_hello (ServerSeq (Inr (PInt 3)) # [WriterTakes, WriterWrites]) ?s2"
    by (rule runs.then_move [OF s1 runs.then_move [OF moves.takes runs_single [OF moves.writes]]])
  have sent: "map (replay_frame (stream_key sample_hello)) sample_rows @ [done_frame sample_hello 3] =
      map (replay_frame (stream_key sample_hello)) (filter (\<lambda>r. max (max_seq_sent sample_hello) 1 < row_seq r) sample_rows) @
      [done_frame sample_hello 3]"
    by (simp add: sample_rows_def)
  have "3 - 1 \<le> (500 :: int)" "\<forall>ev\<in>set [WriterTakes, WriterWrites]. \<not> is_rows ev" "sorted_wrt (<) (map row_seq sample_rows)"
    by (simp_all add: is_rows_def sample_rows_def)
  from hello_replay_exact [OF sample_hello_reachable sample_hello_fields(1,2) sample_max_replay this(1) run this(2,3) sent]
  show ?thesis by (elim exE) (intro exI)
qed

section \<open>A live frame before the hello\<close>


definition held_content :: pyval where
  "held_content = PDict (frame HELLO (Some [(''last_seq'', PInt 0)]) None None)"

lemma held_content_parsed:
  "parse_frame held_content =
     Inr \<lparr>ftype = HELLO, fpayload = [(''last_seq'', PInt 0)], fseq = None, fstream = None\<rparr>"
  by (simp add: held_content_def parse_frame_def parse_payload_def parse_seq_def parse_stream_def wire_defs)


end
