(* ===== verification/Audience.thy ===== *)
theory Audience
  imports Heartbeat Presence
begin

text \<open>
  The consumers' side of presence: the calls one socket makes of the registry, in the order of its log, and
  what the oracle answers after them. A call that raises or cannot write is swallowed by
  \<open>_presence_write\<close>, so what reaches the socket is nothing and what reaches the store is the call's own
  effect.
\<close>

section \<open>The calls of a socket\<close>

text \<open>\<open>_presence_write\<close>: the store after the call, whatever the call answered or raised.\<close>

definition presence_write :: "(bool res \<times> 'c option) \<Rightarrow> 'c option" where
  "presence_write r = (case r of (Inl e, store) \<Rightarrow> store | (Inr b, store) \<Rightarrow> store)"

fun perform_call :: "'c cache_ops \<Rightarrow> settings \<Rightarrow> (string \<Rightarrow> string) \<Rightarrow> presence_call \<Rightarrow> 'c option \<Rightarrow> 'c option" where
  "perform_call ops st sha (RecordConnect t u sid f) store = presence_write (record_connect ops st sha t u sid f store)"
| "perform_call ops st sha (RecordHeartbeat t u sid f) store = presence_write (record_heartbeat ops st sha t u sid f store)"
| "perform_call ops st sha (RecordDisconnect t u sid) store = presence_write (record_disconnect ops st sha t u sid store)"

definition presence_calls :: "sock \<Rightarrow> presence_call list" where
  "presence_calls s = List.map_filter (\<lambda>e. case e of Presence c \<Rightarrow> Some c | _ \<Rightarrow> None) (log s)"

definition perform_calls :: "'c cache_ops \<Rightarrow> settings \<Rightarrow> (string \<Rightarrow> string) \<Rightarrow> presence_call list \<Rightarrow> 'c option \<Rightarrow> 'c option" where
  "perform_calls ops st sha cs store = fold (perform_call ops st sha) cs store"

fun call_time :: "presence_call \<Rightarrow> rat" where
  "call_time (RecordConnect t u sid f) = t"
| "call_time (RecordHeartbeat t u sid f) = t"
| "call_time (RecordDisconnect t u sid) = t"

text \<open>The lease event a call is, for a user that is known.\<close>

fun lease_of :: "presence_call \<Rightarrow> (ident \<times> string, string option) lease_event list" where
  "lease_of (RecordConnect t (Some u) sid f) = [Renew t (u, sid) f]"
| "lease_of (RecordHeartbeat t (Some u) sid f) = [Renew t (u, sid) f]"
| "lease_of (RecordDisconnect t (Some u) sid) = [Release t (u, sid)]"
| "lease_of _ = []"

lemma presence_write_snd [simp]: "presence_write r = snd r"
  by (cases r; cases "fst r") (auto simp: presence_write_def)

lemma unknown_user [simp]:
  "snd (touch ops st sha t None sid f store) = store" "snd (record_disconnect ops st sha t None sid store) = store"
  by (simp_all add: touch_def record_disconnect_def split: sum.splits)

lemma perform_call_lease: "perform_call ops st sha c store = run_store ops st sha store (lease_of c)"
  by (cases c rule: lease_of.cases)
     (simp_all add: run_store_def record_connect_def record_heartbeat_def)

lemma perform_calls_leases: "perform_calls ops st sha cs store = run_store ops st sha store (concat (map lease_of cs))"
  by (induction cs arbitrary: store) (simp_all add: perform_calls_def perform_call_lease run_store_def)

section \<open>What a socket's log says of its lease\<close>

lemma presence_calls_emit [simp]:
  "presence_calls (emit e s) = presence_calls s @ (case e of Presence c \<Rightarrow> [c] | _ \<Rightarrow> [])"
  by (simp add: presence_calls_def split: effect.split)

lemma presence_calls_log: "log s' = log s \<Longrightarrow> presence_calls s' = presence_calls s"
  by (simp add: presence_calls_def)

lemma presence_calls_fields [simp]:
  "presence_calls (s\<lparr>phase := p\<rparr>) = presence_calls s" "presence_calls (s\<lparr>max_seq_sent := n\<rparr>) = presence_calls s"
  "presence_calls (s\<lparr>closing := c\<rparr>) = presence_calls s" "presence_calls (s\<lparr>pong_pending := q\<rparr>) = presence_calls s"
  "presence_calls (s\<lparr>beat := b\<rparr>) = presence_calls s" "presence_calls (s\<lparr>outbox := fs\<rparr>) = presence_calls s"
  "presence_calls (s\<lparr>inflight := i\<rparr>) = presence_calls s" "presence_calls (s\<lparr>writing := w\<rparr>) = presence_calls s"
  "presence_calls (s\<lparr>authorized_until := x\<rparr>) = presence_calls s" "presence_calls (s\<lparr>strikes := k\<rparr>) = presence_calls s"
  "presence_calls (s\<lparr>presence_session := ps\<rparr>) = presence_calls s" "presence_calls (s\<lparr>sgroup := g\<rparr>) = presence_calls s"
  by (auto intro: presence_calls_log)

text \<open>The view a socket's presence depends on; nothing but the lifecycle and the heartbeat touches it.\<close>

definition attendance :: "sock \<Rightarrow> string option \<times> presence_call list" where
  "attendance s = (presence_session s, presence_calls s)"

lemma presence_calls_enqueue [simp]: "presence_calls (enqueue f s) = presence_calls s"
  by (simp add: enqueue_def)

interpretation attendance: untouched_by_receive attendance
  by unfold_locales
     (auto simp: attendance_def writer_take_def writer_sent_def writer_failed_def split: list.splits option.splits)

text \<open>The calls of one socket all name its user and its channel: a connect, renewals, and a disconnect that is
  last; the session is kept exactly until then.\<close>

definition own_calls :: "env \<Rightarrow> string option \<times> presence_call list \<Rightarrow> bool" where
  "own_calls E a \<longleftrightarrow>
     (\<exists>renewed released. snd a = renewed @ released \<and>
        (\<forall>c\<in>set renewed. (\<exists>t f. c = RecordConnect t (socket_user_id E) (channel_of E) f) \<or>
           (\<exists>t f. c = RecordHeartbeat t (socket_user_id E) (channel_of E) f)) \<and>
        (if fst a = None then renewed = [] \<and> released = [] \<or>
             (\<exists>t. released = [RecordDisconnect t (socket_user_id E) (channel_of E)])
         else released = [] \<and> renewed \<noteq> [] \<and> fst a = Some (channel_of E)))"

lemma beat_ping_attendance: "attendance (beat_ping E now s) = attendance s"
proof -
  have "attendance (fst (send_frame PING PNone PNone (s\<lparr>pong_pending := True\<rparr>))) = attendance s"
    by (simp add: attendance.view_send attendance.view_pong)
  then show ?thesis
    by (auto simp: beat_ping_def attendance_def split: prod.splits option.splits sum.splits)
qed

lemma own_calls_renew:
  assumes "own_calls E (Some sid, cs)"
  shows "sid = channel_of E \<and> own_calls E (Some sid, cs @ [RecordHeartbeat t (socket_user_id E) sid f])"
  using assms by (auto simp: own_calls_def)

lemma wake_attendance:
  assumes "own_calls E (attendance s)"
  shows "own_calls E (attendance (beat_wake E now s))"
proof -
  have keep: "attendance s' = attendance s \<Longrightarrow> own_calls E (attendance s')" for s' using assms by simp
  show ?thesis
  proof (cases "text_given (presence_session s)")
    case None
    then show ?thesis
      using keep beat_ping_attendance [of E now s]
      by (auto simp: beat_wake_def attendance_def split: sum.splits bool.splits)
  next
    case (Some sid)
    then have "presence_session s = Some sid" by (cases "presence_session s" rule: text_given.cases) auto
    with Some own_calls_renew [of E sid "presence_calls s"] assms show ?thesis
      by (auto simp: beat_wake_def attendance_def split: sum.splits bool.splits)
  qed
qed

lemma deadline_attendance: "attendance (beat_deadline E now s) = attendance s"
  by (auto simp: beat_deadline_def attendance_def split: sum.splits)

lemma connect_attendance: "own_calls E (attendance (settle (connect E tick now ok new_sock)))"
proof -
  let ?s = "settle (connect E tick now ok new_sock)"
  from connect_outcome [of E tick now ok] show ?thesis
  proof
    assume u: "unopened ?s"
    then have "presence_calls ?s = []"
      by (auto simp: presence_calls_def unopened_def List.map_filter_def filter_empty_conv)
    with u show ?thesis by (simp add: own_calls_def attendance_def unopened_def)
  next
    assume o: "opened E ?s"
    then obtain now family where "presence_calls ?s = [RecordConnect now (socket_user_id E) (channel_of E) family]"
      by (auto simp: opened_def presence_calls_def List.map_filter_def)
    with o show ?thesis by (simp add: own_calls_def attendance_def opened_def)
  qed
qed

lemma disconnect_attendance:
  assumes "own_calls E (attendance s)" "channel_of E \<noteq> []"
  shows "own_calls E (attendance (stop (disconnect E now ok s)))"
proof (cases "presence_session s")
  case None
  then have "attendance (stop (disconnect E now ok s)) = attendance s"
    by (auto simp: disconnect_def stop_def Let_def attendance_def split: option.splits)
  with assms show ?thesis by simp
next
  case (Some sid)
  then have sid: "sid = channel_of E" "text_given (Some sid) = Some sid"
    using assms by (auto simp: own_calls_def attendance_def neq_Nil_conv)
  have "attendance (stop (disconnect E now ok s)) =
      (None, presence_calls s @ [RecordDisconnect now (socket_user_id E) (channel_of E)])"
    using Some sid by (auto simp: disconnect_def stop_def Let_def attendance_def split: option.splits)
  with assms(1) Some show ?thesis by (auto simp: own_calls_def attendance_def)
qed

lemma reachable_own_calls:
  assumes "reachable E s" "channel_of E \<noteq> []"
  shows "own_calls E (attendance s)"
  using assms(1)
proof (induction rule: reachable.induct)
  case start
  then show ?case by (simp add: own_calls_def attendance_def presence_calls_def new_sock_def List.map_filter_def)
next
  case (step s ev s')
  from step.hyps(2) show ?case
  proof cases
    case (connects tick now ok)
    then show ?thesis using reachable_New [OF step.hyps(1)] connect_attendance by simp
  next
    case (leaves now ok)
    then show ?thesis using disconnect_attendance [OF step.IH assms(2)] by simp
  next
    case (wakes due now)
    then show ?thesis using wake_attendance [OF step.IH] by simp
  qed (use step.IH in \<open>simp_all add: attendance.view_dispatch attendance.view_receive beat_ping_attendance deadline_attendance\<close>)
qed

section \<open>What the registry then answers\<close>

lemma event_times: "map event_time (concat (map lease_of cs)) = map call_time (filter (\<lambda>c. lease_of c \<noteq> []) cs)"
proof (induction cs)
  case (Cons c cs)
  then show ?case by (cases c rule: lease_of.cases) simp_all
qed simp

lemma renewed_word:
  assumes "\<forall>c\<in>set cs. (\<exists>t f. c = RecordConnect t (Some u) ch f) \<or> (\<exists>t f. c = RecordHeartbeat t (Some u) ch f)"
  shows "(\<forall>sid. sid \<noteq> ch \<longrightarrow> last_word norm_family (concat (map lease_of cs)) (u, sid) = None) \<and>
    (if cs = [] then last_word norm_family (concat (map lease_of cs)) (u, ch) = None
     else \<exists>g. last_word norm_family (concat (map lease_of cs)) (u, ch) = Some (call_time (last cs), g))"
  using assms
proof (induction cs rule: rev_induct)
  case (snoc c cs)
  then obtain t f where "c = RecordConnect t (Some u) ch f \<or> c = RecordHeartbeat t (Some u) ch f" by auto
  with snoc show ?case by auto
qed simp

lemma own_calls_word:
  assumes own: "own_calls E (attendance s)" and u: "socket_user_id E = Some u"
  shows "{sid. \<exists>q g. last_word norm_family (concat (map lease_of (presence_calls s))) (u, sid) = Some (q, g) \<and> now - q \<le> d} =
    (if presence_session s \<noteq> None \<and> now - call_time (last (presence_calls s)) \<le> d then {channel_of E} else {})"
proof -
  obtain renewed released where calls: "presence_calls s = renewed @ released"
    and r: "\<forall>c\<in>set renewed. (\<exists>t f. c = RecordConnect t (Some u) (channel_of E) f) \<or>
           (\<exists>t f. c = RecordHeartbeat t (Some u) (channel_of E) f)"
    and p: "if presence_session s = None then renewed = [] \<and> released = [] \<or>
             (\<exists>t. released = [RecordDisconnect t (Some u) (channel_of E)])
         else released = [] \<and> renewed \<noteq> []"
    using own u by (auto simp: own_calls_def attendance_def split: if_splits)
  note w = renewed_word [OF r]
  show ?thesis
  proof (cases "presence_session s")
    case None
    have "last_word norm_family (concat (map lease_of (presence_calls s))) (u, sid) = None" for sid
      using p None w calls by (cases "sid = channel_of E") auto
    with None show ?thesis by simp
  next
    case (Some x)
    then have calls': "presence_calls s = renewed" "renewed \<noteq> []" using p calls by simp_all
    then obtain g where g: "last_word norm_family (concat (map lease_of renewed)) (u, channel_of E) =
        Some (call_time (last renewed), g)" using w by auto
    have none: "last_word norm_family (concat (map lease_of renewed)) (u, sid) = None" if "sid \<noteq> channel_of E" for sid
      using w that by blast
    have "(\<exists>q g. last_word norm_family (concat (map lease_of renewed)) (u, sid) = Some (q, g) \<and> now - q \<le> d) \<longleftrightarrow>
        sid = channel_of E \<and> now - call_time (last renewed) \<le> d" for sid
      by (cases "sid = channel_of E") (simp_all add: g none)
    with Some calls' show ?thesis by auto
  qed
qed

lemma own_calls_proper:
  assumes own: "own_calls E (attendance s)" and u: "socket_user_id E = Some u" and "channel_of E \<noteq> []"
    and "sorted (map call_time (presence_calls s))"
  shows "proper_history sha {u} (concat (map lease_of (presence_calls s)))"
proof -
  have "holder e = (u, channel_of E)" if "c \<in> set (presence_calls s)" "e \<in> set (lease_of c)" for c e
  proof -
    from own that(1) u have "(\<exists>t f. c = RecordConnect t (Some u) (channel_of E) f) \<or>
        (\<exists>t f. c = RecordHeartbeat t (Some u) (channel_of E) f) \<or> (\<exists>t. c = RecordDisconnect t (Some u) (channel_of E))"
      unfolding own_calls_def attendance_def by (fastforce split: if_splits)
    with that(2) show ?thesis by auto
  qed
  then have "\<forall>e\<in>set (concat (map lease_of (presence_calls s))). holder e = (u, channel_of E)" by auto
  moreover have "sorted (map event_time (concat (map lease_of (presence_calls s))))"
    unfolding event_times using assms(4) by (rule sorted_filter)
  ultimately show ?thesis using assms(3) by (auto simp: proper_history_def chronological_def)
qed

lemma counted_by_calls:
  assumes s: "reachable E s" "channel_of E \<noteq> []" and u: "socket_user_id E = Some u"
    and cache: "working_cache ops" "empty_store ops c0" and ttl: "presence_ttl st = Inr ttl" "0 < ttl"
    and times: "sorted (map call_time (presence_calls s))" "\<forall>c\<in>set (presence_calls s). call_time c \<le> now"
  shows "\<exists>snap. is_live ops st sha now (Some u) None (perform_calls ops st sha (presence_calls s) (Some c0)) = Inr snap \<and>
    (live snap \<longleftrightarrow> presence_session s \<noteq> None \<and> now - call_time (last (presence_calls s)) \<le> of_int ttl) \<and>
    sessions snap = (if live snap then 1 else 0)"
proof -
  let ?evs = "concat (map lease_of (presence_calls s))"
  note own = reachable_own_calls [OF s]
  have "set (map event_time ?evs) \<subseteq> set (map call_time (presence_calls s))"
    unfolding event_times by auto
  then have "event_time e \<in> call_time ` set (presence_calls s)" if "e \<in> set ?evs" for e
    using that by (metis image_set imageI subsetD)
  then have now: "\<forall>e\<in>set ?evs. event_time e \<le> now" using times(2) by fastforce
  obtain c where c: "run_store ops st sha (Some c0) ?evs = Some c"
    and d: "displays ops ttl now c (cache_key sha (ident_str u)) (words_of ?evs u)"
    using store_displays [OF cache ttl own_calls_proper [OF own u s(2) times(1)]] now by blast
  have count: "{sid. \<exists>q g. words_of ?evs u sid = Some (q, g) \<and> now - q \<le> of_int ttl \<and> (None = None \<or> g = None)} =
      (if presence_session s \<noteq> None \<and> now - call_time (last (presence_calls s)) \<le> of_int ttl
       then {channel_of E} else {})"
    using own_calls_word [OF own u, of now "of_int ttl"] by (simp add: words_of_def)
  have "is_live ops st sha now (Some u) None (perform_calls ops st sha (presence_calls s) (Some c0)) =
      is_live ops st sha now (Some u) None (Some c)"
    by (simp only: perform_calls_leases c)
  with is_live_displays [OF d ttl, of None] show ?thesis
    unfolding count by (auto split: if_splits)
qed

end
