(* ===== verification/Crash.thy ===== *)
theory Crash
  imports Audience Fleet
begin

text \<open>
  What an exception that leaves a handler does to a socket. Channels ends the consumer's dispatch with it, so
  \<open>disconnect\<close> is never called: the group is not left, the presence session is not taken back, and the writer and
  the heartbeat, tasks of their own, go on until they end by themselves. One received frame is enough to get there:
  the \<open>OverflowError\<close> of an infinite sequence is not the \<open>InvalidEnvelope\<close> that \<open>receive_json\<close> catches.
\<close>

section \<open>After the exception\<close>

text \<open>How many more renewals the heartbeat can make, when no answer to a ping is dispatched any more.\<close>

definition renewals_left :: "sock \<Rightarrow> nat" where
  "renewals_left s =
     (case beat s of
        Sleeping due \<Rightarrow> if closing s then 0 else 1
      | AwaitPong due \<Rightarrow> if closing s \<or> pong_pending s then 0 else 1
      | _ \<Rightarrow> 0)"

definition stranded :: "exc \<Rightarrow> sock \<Rightarrow> sock \<Rightarrow> bool" where
  "stranded e s s' \<longleftrightarrow> phase s' = Dead (Some e) \<and> presence_session s' = presence_session s \<and>
     (\<forall>g. in_group g s \<longrightarrow> in_group g s') \<and>
     length (presence_calls s') + renewals_left s' \<le> length (presence_calls s) + renewals_left s"

lemma stranded_same:
  "phase s = Dead (Some e) \<Longrightarrow> phase s' = phase s \<Longrightarrow> presence_session s' = presence_session s \<Longrightarrow>
    log s' = log s @ es \<Longrightarrow> (\<forall>x\<in>set es. \<forall>g. x \<noteq> GroupDiscard g) \<Longrightarrow>
    length (presence_calls s') + renewals_left s' \<le> length (presence_calls s) + renewals_left s \<Longrightarrow> stranded e s s'"
  by (auto simp: stranded_def in_group_def)

lemma stranded_trans: "stranded e s s1 \<Longrightarrow> stranded e s1 s' \<Longrightarrow> stranded e s s'"
  by (auto simp: stranded_def)

lemma enqueue_log: "\<exists>es. log (enqueue f s) = log s @ es \<and> (\<forall>x\<in>set es. x = CloseSent 4413) \<and>
    (closing s \<longrightarrow> closing (enqueue f s))"
  by (auto simp: enqueue_def CLOSE_OVERFLOW_def)

lemma stranded_ping:
  assumes "phase s = Dead (Some e)"
  shows "stranded e s (beat_ping E now s)"
proof -
  let ?t = "s\<lparr>pong_pending := True\<rparr>"
  let ?t1 = "enqueue (frame PING (Some []) None (stream_key ?t)) ?t"
  obtain es where es: "log ?t1 = log s @ es" "\<forall>x\<in>set es. x = CloseSent 4413" using enqueue_log [of _ ?t] by auto
  obtain b where b: "beat_ping E now s = ?t1\<lparr>beat := b\<rparr>" "\<forall>due. b \<noteq> Sleeping due"
    unfolding beat_ping_def ping_sends by (cases "heartbeat_timeout (conf E)") auto
  have "pong_pending (beat_ping E now s)" by (simp add: b enqueue_def emit_def)
  then have "renewals_left (beat_ping E now s) = 0" using b by (auto simp: renewals_left_def split: beat.splits)
  moreover have "presence_calls (beat_ping E now s) = presence_calls s"
    unfolding b presence_calls_def using es by (auto simp: List.map_filter_def filter_empty_conv)
  ultimately show ?thesis using es assms b by (intro stranded_same [of s e _ es]) auto
qed

lemma stranded_ended:
  assumes "phase s = Dead (Some e)" "phase s' = phase s" "presence_session s' = presence_session s" "beat s' = BeatDone"
    "log s' = log s @ es" "\<forall>x\<in>set es. \<exists>c. x = CloseSent c"
  shows "stranded e s s'"
proof -
  have "filter (\<lambda>x. (case x of Presence c \<Rightarrow> Some c | _ \<Rightarrow> None) \<noteq> None) es = []"
    using assms(6) by (induction es) auto
  then have calls: "presence_calls s' = presence_calls s"
    unfolding presence_calls_def assms(5) List.map_filter_def by simp
  show ?thesis
  proof (rule stranded_same [OF assms(1,2,3,5)])
    show "\<forall>x\<in>set es. \<forall>g. x \<noteq> GroupDiscard g" using assms(6) by fastforce
    show "length (presence_calls s') + renewals_left s' \<le> length (presence_calls s) + renewals_left s"
      unfolding calls by (simp add: renewals_left_def assms(4))
  qed
qed

lemma stranded_wake:
  assumes "phase s = Dead (Some e)" "beat s = Sleeping due"
  shows "stranded e s (beat_wake E now s)"
proof (cases "closing s \<or> token_expired E now \<noteq> Inr False")
  case True
  then consider (done_) "closing s" | (raised) x where "\<not> closing s" "token_expired E now = Inl x"
    | (expired) "\<not> closing s" "token_expired E now = Inr True"
    by (metis sum.exhaust)
  then show ?thesis
  proof cases
    case expired
    then show ?thesis
      using assms by (intro stranded_ended [of s e _ "[CloseSent CLOSE_UNAUTHENTICATED]"]) (simp_all add: beat_wake_def)
  qed (use assms in \<open>auto intro!: stranded_ended [of s e _ "[]"] simp: beat_wake_def\<close>)
next
  case False
  then have open_: "\<not> closing s" "token_expired E now = Inr False" by auto
  show ?thesis
  proof (cases "text_given (presence_session s)")
    case None
    then show ?thesis using stranded_ping [OF assms(1)] open_ by (simp add: beat_wake_def)
  next
    case (Some sid)
    show ?thesis
    proof (cases "presence_family E s")
      case (Inl x)
      then show ?thesis
        using Some open_ assms by (intro stranded_ended [of s e _ "[]"]) (simp_all add: beat_wake_def)
    next
      case (Inr f)
      then show ?thesis
        using Some open_ assms
        by (intro stranded_same [of s e _ "[Presence (RecordHeartbeat now (socket_user_id E) sid f)]"])
           (auto simp: beat_wake_def renewals_left_def)
    qed
  qed
qed

lemma stranded_deadline:
  assumes "phase s = Dead (Some e)" "beat s = AwaitPong due"
  shows "stranded e s (beat_deadline E now s)"
proof (cases "pong_pending s \<and> \<not> closing s")
  case True
  then show ?thesis
    using assms by (intro stranded_same [of s e _ "[CloseSent CLOSE_HEARTBEAT_TIMEOUT]"])
      (auto simp: beat_deadline_def renewals_left_def)
next
  case False
  then show ?thesis
    using assms by (intro stranded_same [of s e _ "[]"])
      (auto simp: beat_deadline_def renewals_left_def split: sum.splits)
qed

lemma stranded_writer:
  assumes "phase s = Dead (Some e)"
  shows "stranded e s (writer_take s)" "stranded e s (writer_sent s)" "stranded e s (writer_failed s)"
proof -
  show "stranded e s (writer_take s)" "stranded e s (writer_failed s)"
    using assms by (auto intro!: stranded_same [of s e _ "[]"] simp: writer_take_def writer_failed_def renewals_left_def
        presence_calls_def split: list.splits)
  show "stranded e s (writer_sent s)"
  proof (cases "inflight s")
    case (Some f)
    then show ?thesis
      using assms by (auto intro: stranded_same [of s e _ "[]"] stranded_same [of s e _ "[Wire f]"]
          simp: writer_sent_def renewals_left_def)
  qed (use assms in \<open>auto intro: stranded_same [of s e _ "[]"] simp: writer_sent_def\<close>)
qed

lemma stranded_move:
  assumes "phase s = Dead (Some e)" "moves E s ev s'"
  shows "stranded e s s'"
  using assms(2)
proof cases
  case (wakes due now)
  then show ?thesis using stranded_wake assms(1) by simp
next
  case (renewed t now)
  then show ?thesis using stranded_ping assms(1) by simp
next
  case (deadline due now)
  then show ?thesis using stranded_deadline assms(1) by simp
qed (use assms(1) stranded_writer in simp_all)

lemma stranded_runs:
  assumes "runs E s evs s'" "phase s = Dead (Some e)"
  shows "stranded e s s'"
  using assms
proof (induction rule: runs.induct)
  case (rest s)
  then show ?case by (simp add: stranded_def)
next
  case (then_move s ev s1 evs s')
  then have "stranded e s s1" using stranded_move by blast
  moreover from this have "phase s1 = Dead (Some e)" by (simp add: stranded_def)
  ultimately show ?case using then_move.IH stranded_trans by blast
qed

section \<open>Properties\<close>

text \<open>C12: One frame strands a socket. A client that sends a frame whose sequence is an infinite number ends the
  dispatch of its own socket with an exception; whatever happens to the socket afterwards, it stays a member of its
  stream's group and keeps its presence session, it renews its lease at most once more, and the oracle answers live
  for its user until the lease of the last renewal runs out: it is never taken back.\<close>

theorem one_frame_strands_socket:
  assumes s: "reachable E s" "phase s = Idle" "accepted s" "in_group g s" "presence_session s = Some sid"
    and content: "parse_frame content = Inl OverflowError"
    and u: "channel_of E \<noteq> []" "socket_user_id E = Some u"
    and cache: "working_cache ops" "empty_store ops c0" and ttl: "presence_ttl st = Inr ttl" "0 < ttl"
  shows "\<exists>s1. moves E s (Receive t content) s1 \<and>
    (\<forall>evs s'. runs E s1 evs s' \<longrightarrow>
       phase s' = Dead (Some OverflowError) \<and> in_group g s' \<and> presence_session s' = Some sid \<and>
       length (presence_calls s') \<le> length (presence_calls s) + 1 \<and>
       (\<forall>now. sorted (map call_time (presence_calls s') @ [now]) \<longrightarrow>
          (\<exists>snap. is_live ops st sha now (Some u) None (perform_calls ops st sha (presence_calls s') (Some c0)) =
              Inr snap \<and> (live snap \<longleftrightarrow> now - call_time (last (presence_calls s')) \<le> of_int ttl))))"
proof -
  let ?s1 = "s\<lparr>phase := Dead (Some OverflowError)\<rparr>"
  have "settle (receive_json E t content s) = ?s1" using content by (simp add: receive_json_def settle_def)
  then have move: "moves E s (Receive t content) ?s1" using moves.receives [OF s(2,3), of E t content] by simp
  have st: "phase s' = Dead (Some OverflowError) \<and> in_group g s' \<and> presence_session s' = Some sid \<and>
      length (presence_calls s') \<le> length (presence_calls s) + 1" if run: "runs E ?s1 evs s'" for evs s'
  proof -
    have "stranded OverflowError ?s1 s'" by (rule stranded_runs [OF run]) simp
    moreover have "presence_calls ?s1 = presence_calls s" "renewals_left ?s1 \<le> 1" "in_group g ?s1"
      using s(4) by (auto simp: presence_calls_def renewals_left_def in_group_def split: beat.splits)
    ultimately show ?thesis using s(5) by (auto simp: stranded_def)
  qed
  have counted: "\<exists>snap. is_live ops st sha now (Some u) None (perform_calls ops st sha (presence_calls s') (Some c0)) =
      Inr snap \<and> (live snap \<longleftrightarrow> now - call_time (last (presence_calls s')) \<le> of_int ttl)"
    if run: "runs E ?s1 evs s'" and "sorted (map call_time (presence_calls s') @ [now])" for evs s' now
  proof -
    have times: "sorted (map call_time (presence_calls s'))" "\<forall>c\<in>set (presence_calls s'). call_time c \<le> now"
      using that(2) by (auto simp: sorted_append)
    have "reachable E s'" by (rule runs_reachable [OF run reachable.step [OF s(1) move]])
    from counted_by_calls [OF this u cache ttl times] st [OF run] show ?thesis by auto
  qed
  show ?thesis
    using st counted by (intro exI [of _ ?s1] conjI move) simp
qed

text \<open>\<open>{"v": 1, "type": "ping", "seq": 1e999}\<close>, as \<open>json.loads\<close> returns it.\<close>

definition endless_ping :: pyval where
  "endless_ping = PDict [(''v'', PInt 1), (''type'', PStr ''ping''), (''seq'', PFloat PosInf)]"

theorem one_frame_strands_socket_witness:
  "\<exists>s1. moves sample_env sample_sock (Receive 1 endless_ping) s1 \<and> phase s1 = Dead (Some OverflowError) \<and>
    in_group ''chat.ws.1'' s1 \<and> presence_session s1 = Some ''c1''"
proof -
  have "parse_frame endless_ping = Inl OverflowError" by code_simp
  then obtain s1 where "moves sample_env sample_sock (Receive 1 endless_ping) s1"
    "\<forall>evs s'. runs sample_env s1 evs s' \<longrightarrow> phase s' = Dead (Some OverflowError) \<and> in_group ''chat.ws.1'' s' \<and>
       presence_session s' = Some ''c1''"
    using one_frame_strands_socket [OF sample_reachable _ _ sample_in_group, of "''c1''" endless_ping "IdInt 7" sample_cache
        "[]" defaults 60 1 id] sample_cache_works(1,3) presence_ttl_defaults
    by (simp add: sample_sock_def accepted_def sample_env_def socket_user_id_def opt_or_def) blast
  then show ?thesis using runs.rest by blast
qed

end
