(* ===== verification/Races.thy ===== *)
theory Races
  imports Presence
begin

text \<open>
  Concurrent writes of the presence registry. A write reads the user's document, computes the next one and
  stores it, and the cache does not make the three atomic: between the read and the store of one socket's write
  another socket's write may run. Each write is split at that point; the whole write is its two halves in a
  row, and the two interleavings that lose information are followed to what the oracle then answers.
\<close>

section \<open>A write in two halves\<close>

text \<open>The first half: the document that will be stored, if the write gets that far.\<close>

definition touch_read :: "'c cache_ops \<Rightarrow> settings \<Rightarrow> (string \<Rightarrow> string) \<Rightarrow> rat \<Rightarrow>
    ident option \<Rightarrow> string \<Rightarrow> string option \<Rightarrow> 'c option \<Rightarrow> (string \<times> pyval) option res" where
  "touch_read ops st sha now uid sid family store =
     (case presence_ttl st of
        Inl e \<Rightarrow> Inl e
      | Inr ttl \<Rightarrow>
          (case (uid, store) of
             (Some u, Some c) \<Rightarrow>
               if ttl \<le> 0 \<or> sid = [] then Inr None
               else let key = cache_key sha (ident_str u)
                 in (case rbind (cget ops now c key) (touch_doc now ttl sid family) of
                       Inl _ \<Rightarrow> Inr None
                     | Inr doc \<Rightarrow> Inr (Some (key, doc)))
           | _ \<Rightarrow> Inr None))"

definition disconnect_read :: "'c cache_ops \<Rightarrow> settings \<Rightarrow> (string \<Rightarrow> string) \<Rightarrow> rat \<Rightarrow>
    ident option \<Rightarrow> string \<Rightarrow> 'c option \<Rightarrow> (string \<times> pyval) option res" where
  "disconnect_read ops st sha now uid sid store =
     (case presence_ttl st of
        Inl e \<Rightarrow> Inl e
      | Inr ttl \<Rightarrow>
          (case (uid, store) of
             (Some u, Some c) \<Rightarrow>
               if ttl \<le> 0 \<or> sid = [] then Inr None
               else let key = cache_key sha (ident_str u)
                 in (case cget ops now c key of
                       Inr (PDict d) \<Rightarrow>
                         (case drop_doc now ttl sid (PDict d) of
                            Inl _ \<Rightarrow> Inr None
                          | Inr doc \<Rightarrow> Inr (Some (key, doc)))
                     | _ \<Rightarrow> Inr None)
           | _ \<Rightarrow> Inr None))"

text \<open>The second half, on the store as it is by then.\<close>

definition store_write :: "'c cache_ops \<Rightarrow> settings \<Rightarrow> rat \<Rightarrow> (string \<times> pyval) option res \<Rightarrow>
    'c option \<Rightarrow> bool res \<times> 'c option" where
  "store_write ops st now plan store =
     (case plan of
        Inl e \<Rightarrow> (Inl e, store)
      | Inr None \<Rightarrow> (Inr False, store)
      | Inr (Some (key, doc)) \<Rightarrow>
          (case (store, presence_ttl st) of
             (Some c, Inr ttl) \<Rightarrow> written store (cset ops now c key doc ttl)
           | _ \<Rightarrow> (Inr False, store)))"

lemma touch_halves:
  "touch ops st sha now uid sid family store =
     store_write ops st now (touch_read ops st sha now uid sid family store) store"
  by (auto simp: touch_def touch_read_def store_write_def written_def Let_def rbind_def
      split: sum.splits option.splits)

lemma disconnect_halves:
  "record_disconnect ops st sha now uid sid store =
     store_write ops st now (disconnect_read ops st sha now uid sid store) store"
  by (auto simp: record_disconnect_def disconnect_read_def store_write_def written_def Let_def rbind_def
      split: sum.splits option.splits pyval.splits)

section \<open>A store that comes late\<close>

text \<open>However the store changed since the read, the late store makes it display what the read saw, with the
  writer's own session renewed: every write in between is undone.\<close>

lemma late_store:
  assumes cache: "working_cache ops" and ttl: "presence_ttl st = Inr ttl" "0 < ttl" and sid: "sid \<noteq> []"
    and seen: "displays ops ttl te c (cache_key sha (ident_str u)) spec" "dated te spec" and tw: "te \<le> tw"
  shows "\<exists>c'. store_write ops st tw (touch_read ops st sha te (Some u) sid f (Some c)) (Some cw) = (Inr True, Some c') \<and>
    (\<forall>t\<ge>tw. displays ops ttl t c' (cache_key sha (ident_str u)) (spec(sid := Some (te, norm_family f))))"
proof -
  let ?key = "cache_key sha (ident_str u)"
  from seen obtain doc where doc: "cget ops te c ?key = Inr doc" "wf_doc doc"
    and agree: "\<forall>sid. lapse ttl te (session_view (sessions_of doc) sid) = lapse ttl te (spec sid)"
    by (auto simp: displays_def)
  obtain ss where ss: "touch_doc te ttl sid f doc = Inr (document ss te)" "wf_sessions ss"
    "\<forall>sid'. lapse ttl te (session_view ss sid') = lapse ttl te ((spec(sid := Some (te, norm_family f))) sid')"
    using touch_doc_agrees [OF doc(2) agree] by blast
  obtain c' where c': "cset ops tw cw ?key (document ss te) ttl = Inr c'"
    using cset_works [OF cache] by blast
  have "touch_read ops st sha te (Some u) sid f (Some c) = Inr (Some (?key, document ss te))"
    using ttl sid by (simp add: touch_read_def Let_def doc ss(1))
  moreover have "\<forall>t\<ge>tw. displays ops ttl t c' ?key (spec(sid := Some (te, norm_family f)))"
    using displays_written [OF cache c' ss(2) tw _ dated_renewed [OF seen(2)] ss(3)] by blast
  ultimately show ?thesis using c' ttl by (simp add: store_write_def written_def)
qed

text \<open>A store that from a time on shows a user a specification of that age, and what each call makes of it.\<close>

definition showing :: "'c cache_ops \<Rightarrow> (string \<Rightarrow> string) \<Rightarrow> int \<Rightarrow> ident \<Rightarrow> rat \<Rightarrow>
    (string \<Rightarrow> (rat \<times> string option) option) \<Rightarrow> 'c option \<Rightarrow> bool" where
  "showing ops sha ttl u t0 spec store \<longleftrightarrow> dated t0 spec \<and>
     (\<exists>c. store = Some c \<and> (\<forall>t\<ge>t0. displays ops ttl t c (cache_key sha (ident_str u)) spec))"

lemma showing_empty: "empty_store ops c \<Longrightarrow> showing ops sha ttl u t0 Map.empty (Some c)"
  by (auto simp: showing_def dated_def displays_def empty_store_def wf_doc_def session_view_def)

lemma showing_later: "showing ops sha ttl u t0 spec store \<Longrightarrow> t0 \<le> t1 \<Longrightarrow> showing ops sha ttl u t1 spec store"
  by (force simp: showing_def dated_def)

lemma showing_touch:
  assumes "working_cache ops" and ttl: "presence_ttl st = Inr ttl" "0 < ttl" and "sid \<noteq> []"
    and "showing ops sha ttl u t0 spec store" "t0 \<le> te" and "touch ops st sha te (Some u) sid f store = (r, store')"
  shows "showing ops sha ttl u te (spec(sid := Some (te, norm_family f))) store'"
proof -
  obtain c where c: "store = Some c" "displays ops ttl te c (cache_key sha (ident_str u)) spec" "dated te spec"
    using showing_later [OF assms(5,6)] by (auto simp: showing_def)
  from touch_displays [OF assms(1) ttl assms(4) c(2,3), of f] assms(7) c dated_renewed [OF c(3)] show ?thesis
    by (auto simp: showing_def)
qed

lemma showing_disconnect:
  assumes "working_cache ops" and ttl: "presence_ttl st = Inr ttl" "0 < ttl" and "sid \<noteq> []"
    and "showing ops sha ttl u t0 spec store" "t0 \<le> te" and "record_disconnect ops st sha te (Some u) sid store = (r, store')"
  shows "showing ops sha ttl u te (spec(sid := None)) store'"
proof -
  obtain c where c: "store = Some c" "\<forall>t\<ge>te. displays ops ttl t c (cache_key sha (ident_str u)) spec" "dated te spec"
    using showing_later [OF assms(5,6)] by (auto simp: showing_def)
  from disconnect_displays [OF assms(1) ttl assms(4) c(2,3)] assms(7) c dated_released [OF c(3)] show ?thesis
    by (auto simp: showing_def)
qed

lemma showing_late:
  assumes "working_cache ops" and ttl: "presence_ttl st = Inr ttl" "0 < ttl" and "sid \<noteq> []"
    and "showing ops sha ttl u t0 spec store" "t0 \<le> te" "te \<le> tw" and "other = Some c1"
    and "store_write ops st tw (touch_read ops st sha te (Some u) sid f store) other = (r, store')"
  shows "showing ops sha ttl u tw (spec(sid := Some (te, norm_family f))) store'"
proof -
  obtain c where c: "store = Some c" "displays ops ttl te c (cache_key sha (ident_str u)) spec" "dated te spec"
    using showing_later [OF assms(5,6)] by (auto simp: showing_def)
  have "dated tw (spec(sid := Some (te, norm_family f)))"
    using dated_renewed [OF c(3)] assms(7) by (force simp: dated_def)
  with late_store [OF assms(1) ttl assms(4) c(2,3) assms(7), of f c1] assms(8,9) c(1) show ?thesis
    by (auto simp: showing_def)
qed

lemma showing_some: "showing ops sha ttl u t0 spec store \<Longrightarrow> \<exists>c. store = Some c"
  by (auto simp: showing_def)

text \<open>The sessions of a specification whose lease is running.\<close>

definition running :: "int \<Rightarrow> rat \<Rightarrow> (string \<Rightarrow> (rat \<times> string option) option) \<Rightarrow> string set" where
  "running ttl now spec = {sid. \<exists>q g. spec sid = Some (q, g) \<and> now - q \<le> of_int ttl}"

lemma is_live_showing:
  assumes "showing ops sha ttl u t0 spec store" "t0 \<le> now" and "presence_ttl st = Inr ttl" "0 < ttl"
    and "running ttl now spec = S"
  shows "\<exists>s. is_live ops st sha now (Some u) None store = Inr s \<and> sessions s = card S \<and> (live s \<longleftrightarrow> card S \<noteq> 0)"
proof -
  obtain c where c: "store = Some c" "displays ops ttl now c (cache_key sha (ident_str u)) spec"
    using assms(1,2) by (auto simp: showing_def)
  from is_live_displays [OF c(2) assms(3,4), of None] c(1) assms(5) show ?thesis by (auto simp: running_def)
qed

section \<open>Properties\<close>

text \<open>A write is its two halves in a row: reading and computing, then storing. Every branch of the calls of
  the registry (disabled, unknown user, no cache, a raising read, a raising store, a document that is not one)
  is the same through the halves.\<close>

theorem writes_are_halves:
  "touch ops st sha now uid sid family store =
     store_write ops st now (touch_read ops st sha now uid sid family store) store \<and>
   record_disconnect ops st sha now uid sid store =
     store_write ops st now (disconnect_read ops st sha now uid sid store) store"
  using touch_halves disconnect_halves by blast

text \<open>C25: A race that over-counts: a second socket connects while the first leaves, its store comes after the
  other's disconnect and brings the departed session back; once the second has left too, the oracle still
  answers live, with one session, until the departed lease runs out, although no socket of the user is open: the
  error is not always in the direction of under-counting.\<close>

theorem race_overcounts:
  assumes cache: "working_cache ops" and empty: "empty_store ops c0"
    and ttl: "presence_ttl st = Inr ttl" "0 < ttl" and sids: "a \<noteq> []" "b \<noteq> []" "a \<noteq> b"
    and times: "t0 \<le> t1" "t1 \<le> t2" "t2 \<le> t3" "t3 \<le> t4" "t4 \<le> t5" "t5 - t0 \<le> of_int ttl"
    and joined: "touch ops st sha t0 (Some u) a f (Some c0) = (r1, s1)"
    and left: "record_disconnect ops st sha t2 (Some u) a s1 = (r2, s2)"
    and late: "store_write ops st t3 (touch_read ops st sha t1 (Some u) b f s1) s2 = (r3, s3)"
    and gone: "record_disconnect ops st sha t4 (Some u) b s3 = (r4, s4)"
  shows "\<exists>s. is_live ops st sha t5 (Some u) None s4 = Inr s \<and> live s \<and> sessions s = 1"
proof -
  note step = showing_touch [OF cache ttl] showing_disconnect [OF cache ttl]
  have 1: "showing ops sha ttl u t0 (Map.empty(a := Some (t0, norm_family f))) s1"
    using step(1) [OF sids(1) showing_empty [OF empty] order_refl joined] .
  have "showing ops sha ttl u t2 (Map.empty(a := None)) s2"
    using step(2) [OF sids(1) 1 _ left] times by simp
  then obtain c2 where "s2 = Some c2" using showing_some by blast
  from showing_late [OF cache ttl sids(2) 1 times(1) _ this late] times
  have "showing ops sha ttl u t3 (Map.empty(a := Some (t0, norm_family f), b := Some (t1, norm_family f))) s3"
    by simp
  from step(2) [OF sids(2) this times(4) gone]
  have "showing ops sha ttl u t4 (Map.empty(a := Some (t0, norm_family f), b := Some (t1, norm_family f), b := None)) s4" .
  moreover have "running ttl t5 (Map.empty(a := Some (t0, norm_family f), b := Some (t1, norm_family f), b := None)) = {a}"
    using times sids by (auto simp: running_def)
  ultimately show ?thesis using is_live_showing [OF _ times(5) ttl] by fastforce
qed

text \<open>A race that under-counts, and its repair: a second socket's connect overlaps the first one's and its
  store erases the first session; when the second leaves, the oracle answers offline although the first socket is
  open and just connected. The first socket's next renewal, at the latest one heartbeat period later, repairs
  it.\<close>

theorem race_undercounts:
  assumes cache: "working_cache ops" and empty: "empty_store ops c0"
    and ttl: "presence_ttl st = Inr ttl" "0 < ttl" and sids: "a \<noteq> []" "b \<noteq> []" "a \<noteq> b"
    and times: "t1 \<le> t2" "t2 \<le> t3" "t3 \<le> t4" "t4 \<le> t5"
    and joined: "touch ops st sha t2 (Some u) a f (Some c0) = (r1, s1)"
    and late: "store_write ops st t3 (touch_read ops st sha t1 (Some u) b f (Some c0)) s1 = (r2, s2)"
    and gone: "record_disconnect ops st sha t4 (Some u) b s2 = (r3, s3)"
    and renewed: "touch ops st sha t5 (Some u) a f s3 = (r4, s4)"
  shows "(\<exists>s. is_live ops st sha t4 (Some u) None s3 = Inr s \<and> \<not> live s \<and> sessions s = 0) \<and>
    (\<exists>s. is_live ops st sha t5 (Some u) None s4 = Inr s \<and> live s \<and> sessions s = 1)"
proof -
  note step = showing_touch [OF cache ttl] showing_disconnect [OF cache ttl]
  have 0: "showing ops sha ttl u t1 Map.empty (Some c0)" using showing_empty [OF empty] .
  have "showing ops sha ttl u t2 (Map.empty(a := Some (t2, norm_family f))) s1"
    using step(1) [OF sids(1) 0 times(1) joined] .
  then obtain c1 where "s1 = Some c1" using showing_some by blast
  from showing_late [OF cache ttl sids(2) 0 order_refl _ this late] times
  have "showing ops sha ttl u t3 (Map.empty(b := Some (t1, norm_family f))) s2" by simp
  from step(2) [OF sids(2) this times(3) gone]
  have 3: "showing ops sha ttl u t4 Map.empty s3" by simp
  moreover have "running ttl t4 Map.empty = {}" by (simp add: running_def)
  ultimately have off: "\<exists>s. is_live ops st sha t4 (Some u) None s3 = Inr s \<and> \<not> live s \<and> sessions s = 0"
    using is_live_showing [OF _ order_refl ttl] by fastforce
  have "showing ops sha ttl u t5 (Map.empty(a := Some (t5, norm_family f))) s4"
    using step(1) [OF sids(1) 3 times(4) renewed] .
  moreover have "running ttl t5 (Map.empty(a := Some (t5, norm_family f))) = {a}"
    using ttl(2) by (auto simp: running_def)
  ultimately have "\<exists>s. is_live ops st sha t5 (Some u) None s4 = Inr s \<and> live s \<and> sessions s = 1"
    using is_live_showing [OF _ order_refl ttl] by fastforce
  with off show ?thesis ..
qed

text \<open>Both races on the sample cache, with two sockets of user 7.\<close>

definition race_touch :: "rat \<Rightarrow> string \<Rightarrow> ttl_map option \<Rightarrow> ttl_map option" where
  "race_touch t sid store = snd (touch sample_cache defaults id t (Some (IdInt 7)) sid None store)"

definition race_leave :: "rat \<Rightarrow> string \<Rightarrow> ttl_map option \<Rightarrow> ttl_map option" where
  "race_leave t sid store = snd (record_disconnect sample_cache defaults id t (Some (IdInt 7)) sid store)"

definition race_late :: "rat \<Rightarrow> rat \<Rightarrow> string \<Rightarrow> ttl_map option \<Rightarrow> ttl_map option \<Rightarrow> ttl_map option" where
  "race_late t t' sid seen store =
     snd (store_write sample_cache defaults t' (touch_read sample_cache defaults id t (Some (IdInt 7)) sid None seen) store)"

theorem race_overcounts_witness:
  "\<exists>s. is_live sample_cache defaults id 40 (Some (IdInt 7)) None
      (race_leave 4 ''b'' (race_late 1 3 ''b'' (race_touch 0 ''a'' (Some []))
        (race_leave 2 ''a'' (race_touch 0 ''a'' (Some []))))) = Inr s \<and> live s \<and> sessions s = 1"
  unfolding race_touch_def race_leave_def race_late_def
  by (rule race_overcounts [OF sample_cache_works(1,3) presence_ttl_defaults _ _ _ _ _ _ _ _ _ _
        prod.collapse [symmetric] prod.collapse [symmetric] prod.collapse [symmetric] prod.collapse [symmetric]])
     simp_all

theorem race_undercounts_witness:
  "(\<exists>s. is_live sample_cache defaults id 4 (Some (IdInt 7)) None
      (race_leave 4 ''b'' (race_late 1 3 ''b'' (Some []) (race_touch 2 ''a'' (Some [])))) = Inr s \<and>
      \<not> live s \<and> sessions s = 0) \<and>
   (\<exists>s. is_live sample_cache defaults id 27 (Some (IdInt 7)) None
      (race_touch 27 ''a'' (race_leave 4 ''b'' (race_late 1 3 ''b'' (Some []) (race_touch 2 ''a'' (Some []))))) = Inr s \<and>
      live s \<and> sessions s = 1)"
  unfolding race_touch_def race_leave_def race_late_def
  by (rule race_undercounts [OF sample_cache_works(1,3) presence_ttl_defaults _ _ _ _ _ _ _ _
        prod.collapse [symmetric] prod.collapse [symmetric] prod.collapse [symmetric] prod.collapse [symmetric]])
     simp_all

end
