(* ===== verification/Lapse.thy ===== *)
theory Lapse
  imports Audience Checks
begin

text \<open>
  Where the system check of the presence lease and the heartbeat task meet: the check compares the lease with
  the interval, the task renews it once per interval and answer timeout. The last lemmas are a deployment that
  the check accepts and a healthy socket of it whose lease has lapsed.
\<close>

lemma renewals_calls:
  "renewals s = List.map_filter (\<lambda>c. case c of RecordHeartbeat t u sid f \<Rightarrow> Some t | _ \<Rightarrow> None) (presence_calls s)"
proof -
  have "List.map_filter (\<lambda>e. case e of Presence (RecordHeartbeat t u sid f) \<Rightarrow> Some t | _ \<Rightarrow> None) es =
      List.map_filter (\<lambda>c. case c of RecordHeartbeat t u sid f \<Rightarrow> Some t | _ \<Rightarrow> None)
        (List.map_filter (\<lambda>e. case e of Presence c \<Rightarrow> Some c | _ \<Rightarrow> None) es)" for es
    by (induction es) (auto simp: List.map_filter_def split: effect.split presence_call.split)
  then show ?thesis by (simp add: renewals_def presence_calls_def)
qed

lemma lease_lapses_between_beats:
  assumes silent: "check_presence_ttl h = Inr []" and h: "package h = conf E" "strict_ttl h = Inr n"
    and conf: "heartbeat_interval (conf E) = Inr (Fin i)" "0 < i" "heartbeat_timeout (conf E) = Inr (Fin w)"
    and s: "reachable E s" "channel_of E \<noteq> []" "socket_user_id E = Some u" "beat s = Sleeping due"
    and last: "presence_calls s = cs @ [RecordHeartbeat a v sid f]"
    and t: "of_int n < t - a" "t < a + w + i"
    and cache: "working_cache ops" "empty_store ops c0"
    and times: "sorted (map call_time (presence_calls s))"
  shows "presence_session s = Some (channel_of E) \<and> pf_lt (Fin t) due \<and>
    (\<exists>snap. is_live ops (conf E) sha t (Some u) None (perform_calls ops (conf E) sha (presence_calls s) (Some c0)) = Inr snap \<and>
       \<not> live snap \<and> sessions snap = 0)"
proof -
  have n: "0 < n"
    using silent strict_ttl_view [OF h(2)] by (auto split: if_splits)
  have ttl: "presence_ttl (conf E) = Inr n"
    using h by (simp add: presence_ttl_def strict_ttl_def)
  have w: "0 \<le> w" using heartbeat_timeout_ge [OF conf(3)] by simp
  have sp: "spaced i w (pulse s)"
    using reachable_spaced [OF s(1) conf(1) _ conf(3) w] conf(2) by simp
  have "a \<in> set (renewals s)" unfolding renewals_calls last by simp
  with sp s(4) t(2) have due: "pf_lt (Fin t) due"
    by (auto simp: spaced_def pulse_def)
  have session: "presence_session s = Some (channel_of E)"
    using reachable_own_calls [OF s(1,2)] last by (auto simp: own_calls_def attendance_def split: if_splits)
  have "\<forall>c\<in>set (presence_calls s). call_time c \<le> a"
    using times last by (auto simp: sorted_append)
  moreover have "a \<le> t" using t(1) n by (simp add: less_le_not_le) 
  ultimately have "\<forall>c\<in>set (presence_calls s). call_time c \<le> t" by fastforce
  from counted_by_calls [OF s(1-3) cache ttl n times this, of sha] last t(1) session due show ?thesis
    by fastforce
qed

text \<open>A deployment with a lease of 30 seconds, which the check accepts, and one healthy socket of it: connected
  at 0, renewed and pinged at 25, the answer in time, asleep again from 35 until 60.\<close>

definition short_lease :: settings where
  "short_lease = defaults\<lparr>PRESENCE_TTL_S := PInt 30\<rparr>"

definition short_lease_env :: env where
  "short_lease_env = sample_env\<lparr>conf := short_lease\<rparr>"

definition ping_frame :: pydict where
  "ping_frame = frame PING (Some []) None (Some ''chat:ws:1'')"

definition renewed_sock :: sock where
  "renewed_sock = sample_sock\<lparr>outbox := [ping_frame], beat := Sleeping (Fin 60),
     log := log sample_sock @ [Presence (RecordHeartbeat 25 (Some (IdInt 7)) ''c1'' (Some ''chat''))]\<rparr>"

lemma short_lease_reads [simp]:
  "send_queue_maxsize short_lease = Inr 100" "heartbeat_interval short_lease = Inr (Fin 25)"
  "heartbeat_timeout short_lease = Inr (Fin 10)" "authorize_ttl short_lease = Inr (Fin 30)"
  "presence_ttl short_lease = Inr 30"
  by (simp_all add: short_lease_def conf_defs defaults_def py_or_def float_limit_def pf_max_def presence_ttl_def)

lemma short_lease_fields [simp]:
  "cls short_lease_env = cls sample_env" "conf short_lease_env = short_lease"
  "canon_of short_lease_env = canon_of sample_env" "sha_of short_lease_env = sha_of sample_env"
  "repr_of short_lease_env = repr_of sample_env" "scope_of short_lease_env = scope_of sample_env"
  "channel_of short_lease_env = channel_of sample_env"
  by (simp_all add: short_lease_env_def)

lemma short_lease_key: "get_stream_key short_lease_env = Inr ''chat:ws:1''"
  by code_simp

lemma short_lease_connect: "settle (connect short_lease_env 0 0 True new_sock) = sample_sock"
  using short_lease_key sample_group sample_family
  by (simp add: connect_def Let_def subscribe_def authorize_cached_def authorize_def after_accept_def
      presence_family_def settle_def short_lease_env_def sample_env_def sample_sock_def socket_user_id_def opt_or_def
      start_beat_def emit_def new_sock_def)

lemma short_lease_wake: "beat_wake short_lease_env 25 sample_sock =
    emit (Presence (RecordHeartbeat 25 (Some (IdInt 7)) ''c1'' (Some ''chat''))) (sample_sock\<lparr>beat := Renewing 25\<rparr>)"
proof -
  have "token_expired short_lease_env 25 = Inr False"
    by (simp add: token_expired_def) (simp add: sample_env_def)
  moreover have "presence_family short_lease_env sample_sock = Inr (Some ''chat'')"
    using sample_family by (simp add: presence_family_def sample_sock_def) (simp add: sample_env_def)
  moreover have "socket_user_id short_lease_env = Some (IdInt 7)"
    by (simp add: socket_user_id_def) (simp add: sample_env_def opt_or_def)
  moreover have "presence_session sample_sock = Some ''c1''" "\<not> closing sample_sock"
    by (simp_all add: sample_sock_def new_sock_def)
  ultimately show ?thesis by (simp add: beat_wake_def)
qed

lemma renewed_reachable: "reachable short_lease_env renewed_sock"
proof -
  let ?s1 = "emit (Presence (RecordHeartbeat 25 (Some (IdInt 7)) ''c1'' (Some ''chat''))) (sample_sock\<lparr>beat := Renewing 25\<rparr>)"
  let ?s2 = "renewed_sock\<lparr>pong_pending := True, beat := AwaitPong (Fin 35)\<rparr>"
  let ?s3 = "renewed_sock\<lparr>beat := AwaitPong (Fin 35)\<rparr>"
  let ?pong = "PDict (frame PONG None None None)"
  have 0: "reachable short_lease_env sample_sock"
    using reachable.step [OF reachable.start moves.connects [of new_sock short_lease_env 0 0 True]]
      short_lease_connect by simp
  have 1: "reachable short_lease_env ?s1"
    using reachable.step [OF 0 moves.wakes [of sample_sock "Fin 25" 25]] short_lease_wake
    by (simp add: sample_sock_def)
  have "beat_ping short_lease_env 25 ?s1 = ?s2"
    by (simp add: beat_ping_def send_frame_def queue_frame_def py_or_def renewed_sock_def ping_frame_def)
       (simp add: enqueue_def sample_sock_def new_sock_def emit_def)
  then have 2: "reachable short_lease_env ?s2"
    using reachable.step [OF 1 moves.renewed [of ?s1 25 25]] by simp
  have parsed: "parse_frame ?pong = Inr \<lparr>ftype = PONG, fpayload = [], fseq = None, fstream = None\<rparr>"
    using parse_frame_built [of PONG None None None] by (simp add: wire_defs)
  have pong: "map_of (frame_handlers short_lease_env) PONG = Some on_pong" "PONG \<noteq> HELLO"
    by (simp_all add: frame_handlers_def wire_defs)
  have "receive_json short_lease_env 26 ?pong ?s2 = (?s3, None)"
    using pong unfolding receive_json_def parsed
    by (simp add: on_pong_def) (simp add: renewed_sock_def sample_sock_def new_sock_def)
  then have "settle (receive_json short_lease_env 26 ?pong ?s2) = ?s3" by (simp add: settle_def)
  moreover have "phase ?s2 = Idle" "accepted ?s2"
    by (simp_all add: renewed_sock_def sample_sock_def accepted_def)
  ultimately have 3: "reachable short_lease_env ?s3"
    using reachable.step [OF 2 moves.receives [of ?s2 short_lease_env 26 ?pong]] by simp
  have "beat_deadline short_lease_env 35 ?s3 = renewed_sock"
    by (simp add: beat_deadline_def renewed_sock_def sample_sock_def new_sock_def)
  then show ?thesis
    using reachable.step [OF 3 moves.deadline [of ?s3 "Fin 35" 35]] by simp
qed

end
