(* ===== verification/Provenance.thy ===== *)
theory Provenance
  imports Fleet
begin

text \<open>
  Where the frames of a socket come from. A history of a socket is the list of its events from the start;
  every frame it has written, is writing or has queued is one of the protocol's own, completes a signal that
  its group brought, or carries a journal row that its group or its replay hook brought. The events are the
  socket's inputs, so this bounds what a client can be shown by what the server was given for it.
\<close>

definition stems :: "event set \<Rightarrow> string option \<Rightarrow> pydict \<Rightarrow> bool" where
  "stems evs k f \<longleftrightarrow>
     (\<exists>t d. protocol_payload t d \<and> f = frame t (Some d) None k) \<or>
     (\<exists>key d. GroupMessage (signal_message key d) \<in> evs \<and> f = dict_setdefault ''stream'' (key_value k) d) \<or>
     (\<exists>key n d. GroupMessage (frame_message key n d) \<in> evs \<and> f = frame LIVE (Some d) (Some n) k) \<or>
     (\<exists>rows r. Rows (Inr rows) \<in> evs \<and> r \<in> set rows \<and>
        f = frame REPLAY (Some (row_payload r)) (Some (row_seq r)) k)"

definition all_stem :: "event set \<Rightarrow> sock \<Rightarrow> bool" where
  "all_stem evs s \<longleftrightarrow> (\<forall>f\<in>set (frames s). stems evs (stream_key s) f)"

lemma stems_mono: "stems evs k f \<Longrightarrow> evs \<subseteq> evs' \<Longrightarrow> stems evs' k f"
  unfolding stems_def by blast

lemma all_stem_mono: "all_stem evs s \<Longrightarrow> evs \<subseteq> evs' \<Longrightarrow> all_stem evs' s"
  unfolding all_stem_def using stems_mono by blast

lemma all_stem_frames:
  "set (frames s') \<subseteq> set (frames s) \<Longrightarrow> stream_key s' = stream_key s \<Longrightarrow> all_stem evs s \<Longrightarrow> all_stem evs s'"
  by (auto simp: all_stem_def)

lemma plain_stems: "plain_frame (\<lambda>ev. ev \<in> evs) k f \<Longrightarrow> stems evs k f"
  by (induction rule: plain_frame.induct) (auto simp: stems_def)

lemma brought_stems: "ev \<in> evs \<Longrightarrow> brings ev t n d \<Longrightarrow> stems evs k (frame t (Some d) (Some n) k)"
  by (cases "(ev, t, n, d)" rule: brings.cases) (auto simp: stems_def)

lemma small_stems:
  assumes "small (\<lambda>ev. ev \<in> evs) s s'" and stem: "all_stem evs s"
  shows "all_stem evs s'"
  using assms(1)
proof cases
  case (plain f)
  then show ?thesis
    using stem plain_stems frames_enqueue [of f s] by (auto simp: all_stem_def)
next
  case (journal n t ev d)
  let ?f = "frame t (Some d) (Some n) (stream_key s)"
  have "stems evs (stream_key s) ?f" using journal brought_stems by simp
  moreover have "set (frames s') \<subseteq> insert ?f (set (frames s))"
    using frames_enqueue [of ?f "s\<lparr>max_seq_sent := n\<rparr>"] journal by auto
  ultimately show ?thesis using stem journal by (auto simp: all_stem_def)
next
  case tune
  then show ?thesis using stem by (intro all_stem_frames [of s' s]) (simp_all add: frames_def)
next
  case drop_frame
  then show ?thesis
    using stem by (intro all_stem_frames [of s' s]) (auto simp: frames_def writer_failed_def)
qed (use stem small_stream_key [OF assms(1)] in \<open>simp_all add: all_stem_def\<close>)

lemma smalls_stems: "smalls (\<lambda>ev. ev \<in> evs) s s' \<Longrightarrow> all_stem evs s \<Longrightarrow> all_stem evs s'"
  by (induction rule: rtranclp_induct) (auto intro: small_stems)

lemma moves_stems:
  assumes "reachable E s" and m: "moves E s ev s'" and stem: "all_stem evs s"
  shows "all_stem (insert ev evs) s'"
proof (cases "phase s = New")
  case True
  then have "unopened s" using reachable_New [OF assms(1)] by (simp add: unopened_def new_sock_def)
  then have "frames s' = []" using unopened_moves [OF _ m] frames_unopened frames_opened by blast
  then show ?thesis by (simp add: all_stem_def)
next
  case False
  have old: "all_stem (insert ev evs) s" using stem by (rule all_stem_mono) auto
  from moves_smalls [OF m, of "\<lambda>x. x \<in> insert ev evs"] False consider
    (leave) now ok where "s' = stop (disconnect E now ok s)" | (small) "smalls (\<lambda>x. x \<in> insert ev evs) s s'"
    by auto
  then show ?thesis
    using old smalls_stems [OF _ old] by cases (simp_all add: all_stem_def)
qed

text \<open>Over a whole history; and the last event of a history.\<close>

lemma runs_stems: "runs E s evs s' \<Longrightarrow> reachable E s \<Longrightarrow> all_stem evs0 s \<Longrightarrow> all_stem (evs0 \<union> set evs) s'"
proof (induction arbitrary: evs0 rule: runs.induct)
  case (then_move s ev s1 evs s')
  then have "all_stem (insert ev evs0 \<union> set evs) s'"
    using moves_stems reachable.step by metis
  then show ?case by (rule all_stem_mono) auto
qed simp

lemma history_stems:
  assumes "runs E new_sock evs s"
  shows "all_stem (set evs) s"
proof -
  have "all_stem {} new_sock" by (simp add: all_stem_def frames_def new_sock_def)
  then show ?thesis using runs_stems [OF assms reachable.start] by fastforce
qed

text \<open>A socket with frames was admitted.\<close>

lemma frames_admitted: "reachable E s \<Longrightarrow> f \<in> set (frames s) \<Longrightarrow> admitted E s"
  using reachable_cases frames_unopened by fastforce

lemma admitted_key: "admitted E s \<Longrightarrow>
  \<exists>key g u t. stream_key s = Some key \<and> sgroup s = Some g \<and> GroupAdd g \<in> set (log s) \<and>
    group_name (canon_of E) (sha_of E) key = Inr g \<and>
    scope_user (scope_of E) = Some u \<and> is_authenticated u \<and> authorize E t key = Inr True"
  by (force simp: admitted_def)

section \<open>A log only grows\<close>

lemma moves_log:
  assumes "reachable E s" and m: "moves E s ev s'"
  shows "\<exists>es. log s' = log s @ es"
proof (cases "phase s = New")
  case True
  then show ?thesis using reachable_New [OF assms(1)] by (simp add: new_sock_def)
next
  case False
  from moves_smalls [OF m, of "\<lambda>_. True", OF TrueI] False consider
    (leave) now ok where "s' = stop (disconnect E now ok s)" | (small) "smalls (\<lambda>_. True) s s'"
    by auto
  then show ?thesis
  proof cases
    case leave
    then show ?thesis using disconnect_log by blast
  next
    case small
    then show ?thesis
    proof (induction rule: rtranclp_induct)
      case (step s1 s2)
      then show ?case using small_log by (metis append_assoc)
    qed simp
  qed
qed

end
