(* ===== verification/Deployment.thy ===== *)
theory Deployment
  imports Provenance Audience
begin

text \<open>
  A whole deployment as one step relation: the sockets of all server processes, each with the messages the
  channel layer still holds for it; what the layer has accepted, in order; and the presence calls in the order
  the registry performed them. A step is a call of one of the three send paths, a move of one socket, or the
  layer losing a message, so every interleaving of emitters and sockets is a sequence of steps. The layer is
  Channels': a message sent to a group is put into the mailbox of each channel that is in the group at that
  moment, a consumer takes its messages in order, and a message may be lost. Every process runs the same build,
  so the emitters and the sockets share the core's key builder and the digest.
\<close>

section \<open>The state and its steps\<close>

record node =
  node_env :: env
  node_sock :: sock
  heard :: "event list"
  mailbox :: "pydict list"

record deployment =
  nodes :: "node list"
  posted :: "(string \<times> pydict) list"
  spoken :: "presence_call list"

text \<open>A group send, as the layer dispatches it.\<close>

definition post :: "string \<times> pydict \<Rightarrow> node list \<Rightarrow> node list" where
  "post gm = map (\<lambda>n. if in_group (fst gm) (node_sock n) then n\<lparr>mailbox := mailbox n @ [snd gm]\<rparr> else n)"

definition post_all :: "(string \<times> pydict) list \<Rightarrow> node list \<Rightarrow> node list" where
  "post_all gms ns = fold post gms ns"

text \<open>The three send paths, on a layer that records.\<close>

datatype emission =
    Signal string pyval
  | LiveFrame string pyval pyval
  | Revoke string "ident option" string

fun send_path :: "canon \<Rightarrow> (string \<Rightarrow> string) \<Rightarrow> emission \<Rightarrow> (string \<times> pydict) list option \<Rightarrow>
    bool res \<times> (string \<times> pydict) list option" where
  "send_path build sha (Signal key fr) = deliver build sha recorder key fr"
| "send_path build sha (LiveFrame key payload seq) = deliver_frame build sha recorder key payload seq"
| "send_path build sha (Revoke key uid reason) = revoke build sha recorder key uid reason"

text \<open>A group message is the next one of the mailbox; the other events leave it alone.\<close>

fun take_mail :: "event \<Rightarrow> pydict list \<Rightarrow> pydict list option" where
  "take_mail (GroupMessage msg) (m # ms) = (if m = msg then Some ms else None)"
| "take_mail (GroupMessage msg) [] = None"
| "take_mail ev ms = Some ms"

definition node_after :: "node \<Rightarrow> event \<Rightarrow> sock \<Rightarrow> pydict list \<Rightarrow> node" where
  "node_after n ev s ms = n\<lparr>node_sock := s, heard := heard n @ [ev], mailbox := ms\<rparr>"

definition new_calls :: "sock \<Rightarrow> sock \<Rightarrow> presence_call list" where
  "new_calls s s' = drop (length (presence_calls s)) (presence_calls s')"

inductive deploys :: "canon \<Rightarrow> (string \<Rightarrow> string) \<Rightarrow> deployment \<Rightarrow> deployment \<Rightarrow> bool" for build sha where
  sends: "send_path build sha em (Some (posted D)) = (verdict, Some sends) \<Longrightarrow>
    deploys build sha D
      (D\<lparr>nodes := post_all (drop (length (posted D)) sends) (nodes D), posted := sends\<rparr>)"
| acts: "\<lbrakk>nodes D = ns @ n # ns'; moves (node_env n) (node_sock n) ev s'; take_mail ev (mailbox n) = Some ms\<rbrakk> \<Longrightarrow>
    deploys build sha D
      (D\<lparr>nodes := ns @ node_after n ev s' ms # ns', spoken := spoken D @ new_calls (node_sock n) s'\<rparr>)"
| loses: "nodes D = ns @ n # ns' \<Longrightarrow> mailbox n = ms @ m # ms' \<Longrightarrow>
    deploys build sha D (D\<lparr>nodes := ns @ n\<lparr>mailbox := ms @ ms'\<rparr> # ns'\<rparr>)"

definition launch :: "env list \<Rightarrow> deployment" where
  "launch Es =
     \<lparr>nodes = map (\<lambda>E. \<lparr>node_env = E, node_sock = new_sock, heard = [], mailbox = []\<rparr>) Es, posted = [], spoken = []\<rparr>"

inductive deployed :: "canon \<Rightarrow> (string \<Rightarrow> string) \<Rightarrow> deployment \<Rightarrow> bool" for build sha where
  opens: "\<forall>E\<in>set Es. canon_of E = build \<and> sha_of E = sha \<Longrightarrow> deployed build sha (launch Es)"
| goes_on: "deployed build sha D \<Longrightarrow> deploys build sha D D' \<Longrightarrow> deployed build sha D'"

section \<open>What the layer holds was sent\<close>

text \<open>What the send paths accept: a message of theirs for a key with that group.\<close>

definition sent_to :: "canon \<Rightarrow> (string \<Rightarrow> string) \<Rightarrow> string \<times> pydict \<Rightarrow> bool" where
  "sent_to build sha gm \<longleftrightarrow>
     (\<exists>key. group_name build sha key = Inr (fst gm) \<and>
        ((\<exists>d. snd gm = signal_message key d) \<or> (\<exists>n d. snd gm = frame_message key n d) \<or>
         (\<exists>uid reason. snd gm = revoke_message key uid reason)))"

lemma group_send_recorded:
  "snd (do_group_send build sha recorder key msg (Some l)) = Some l' \<Longrightarrow>
     l' = l \<or> (\<exists>g. group_name build sha key = Inr g \<and> l' = l @ [(g, msg)])"
  by (auto simp: do_group_send_def recorder_def rbind_eq_Inr_iff split: sum.splits)

lemma path_recorded:
  assumes "send_path build sha em (Some l) = (verdict, Some l')"
  shows "l' = l \<or> (\<exists>gm. sent_to build sha gm \<and> l' = l @ [gm])"
proof -
  have *: "l' = l \<or> (\<exists>gm. sent_to build sha gm \<and> l' = l @ [gm])"
    if "map_prod Inr id (do_group_send build sha recorder key msg (Some l)) = (verdict, Some l')"
      "(\<exists>d. msg = signal_message key d) \<or> (\<exists>n d. msg = frame_message key n d) \<or>
       (\<exists>uid reason. msg = revoke_message key uid reason)" for key msg
  proof -
    have "snd (do_group_send build sha recorder key msg (Some l)) = Some l'"
      using that(1) by (cases "do_group_send build sha recorder key msg (Some l)") auto
    from group_send_recorded [OF this] that(2) show ?thesis by (fastforce simp: sent_to_def)
  qed
  show ?thesis
  proof (cases em)
    case (Signal key fr)
    with assms * [of key] show ?thesis
      by (fastforce simp: deliver_def split: pyval.splits sum.splits if_splits)
  next
    case (LiveFrame key payload seq)
    with assms * [of key] show ?thesis
      by (fastforce simp: deliver_frame_def split: sum.splits prod.splits)
  next
    case (Revoke key uid reason)
    with assms * [of key] show ?thesis by (fastforce simp: revoke_def)
  qed
qed

text \<open>A node: its socket is where its history leads, its build is the deployment's, and every message in
  its mailbox or its history was sent to a group it has joined.\<close>

definition delivered :: "node \<Rightarrow> pydict set" where
  "delivered n = set (mailbox n) \<union> {msg. GroupMessage msg \<in> set (heard n)}"

definition node_ok :: "canon \<Rightarrow> (string \<Rightarrow> string) \<Rightarrow> (string \<times> pydict) set \<Rightarrow> node \<Rightarrow> bool" where
  "node_ok build sha sends n \<longleftrightarrow>
     runs (node_env n) new_sock (heard n) (node_sock n) \<and>
     canon_of (node_env n) = build \<and> sha_of (node_env n) = sha \<and>
     (\<forall>msg\<in>delivered n. \<exists>g. (g, msg) \<in> sends \<and> GroupAdd g \<in> set (log (node_sock n)))"

definition deployment_ok :: "canon \<Rightarrow> (string \<Rightarrow> string) \<Rightarrow> deployment \<Rightarrow> bool" where
  "deployment_ok build sha D \<longleftrightarrow>
     (\<forall>gm\<in>set (posted D). sent_to build sha gm) \<and> (\<forall>n\<in>set (nodes D). node_ok build sha (set (posted D)) n)"

lemma node_reachable: "node_ok build sha sends n \<Longrightarrow> reachable (node_env n) (node_sock n)"
  using runs_reachable reachable.start by (auto simp: node_ok_def)

lemma node_ok_mail:
  assumes "node_ok build sha sends n" and "in_group g (node_sock n)"
  shows "node_ok build sha (insert (g, msg) sends) (n\<lparr>mailbox := mailbox n @ [msg]\<rparr>)"
proof -
  have "delivered (n\<lparr>mailbox := mailbox n @ [msg]\<rparr>) = insert msg (delivered n)" by (auto simp: delivered_def)
  then show ?thesis using assms by (auto simp: node_ok_def in_group_def)
qed

lemma node_ok_more: "node_ok build sha sends n \<Longrightarrow> node_ok build sha (insert gm sends) n"
  unfolding node_ok_def by blast

lemma node_ok_post:
  assumes "\<forall>n\<in>set ns. node_ok build sha sends n"
  shows "\<forall>n\<in>set (post gm ns). node_ok build sha (insert gm sends) n"
  using assms node_ok_mail [of build sha sends _ "fst gm" "snd gm"] node_ok_more [of build sha sends _ gm]
  by (auto simp: post_def)

lemma take_mail_set:
  "take_mail ev ms = Some ms' \<Longrightarrow> set ms' \<subseteq> set ms \<and> (\<forall>msg. ev = GroupMessage msg \<longrightarrow> msg \<in> set ms)"
  by (cases "(ev, ms)" rule: take_mail.cases) (auto split: if_splits)

lemma node_ok_acts:
  assumes ok: "node_ok build sha sends n" and m: "moves (node_env n) (node_sock n) ev s'"
    and mail: "take_mail ev (mailbox n) = Some ms"
  shows "node_ok build sha sends (node_after n ev s' ms)"
proof -
  obtain es where "log s' = log (node_sock n) @ es" using moves_log [OF node_reachable [OF ok] m] by blast
  moreover have "runs (node_env n) new_sock (heard n @ [ev]) s'"
    using runs_append [OF _ runs_single [OF m]] ok by (simp add: node_ok_def)
  moreover have "delivered (node_after n ev s' ms) \<subseteq> delivered n"
    using take_mail_set [OF mail] by (auto simp: delivered_def node_after_def)
  ultimately show ?thesis using ok unfolding node_ok_def by (fastforce simp: node_after_def)
qed

lemma deployed_ok: "deployed build sha D \<Longrightarrow> deployment_ok build sha D"
proof (induction rule: deployed.induct)
  case (opens Es)
  then show ?case
    by (auto simp: deployment_ok_def launch_def node_ok_def delivered_def intro: runs.rest)
next
  case (goes_on D D')
  from goes_on.hyps(2) show ?case
  proof cases
    case (sends em verdict l)
    from path_recorded [OF sends(2)] goes_on.IH sends(1) node_ok_post show ?thesis
      by (auto simp: deployment_ok_def post_all_def)
  next
    case (acts ns n ns' ev s' ms)
    then show ?thesis using goes_on.IH node_ok_acts by (auto simp: deployment_ok_def)
  next
    case (loses ns n ns' ms m ms')
    then show ?thesis using goes_on.IH by (auto simp: deployment_ok_def node_ok_def delivered_def)
  qed
qed

text \<open>The key of a message is in it.\<close>

lemma sent_signal: "sent_to build sha (g, signal_message k d) \<Longrightarrow> group_name build sha k = Inr g"
  by (auto simp: sent_to_def signal_message_def frame_message_def revoke_message_def
      GROUP_TYPE_SIGNAL_def GROUP_TYPE_FRAME_def GROUP_TYPE_REVOKE_def)

lemma sent_frame: "sent_to build sha (g, frame_message k m d) \<Longrightarrow> group_name build sha k = Inr g"
  by (auto simp: sent_to_def signal_message_def frame_message_def revoke_message_def
      GROUP_TYPE_SIGNAL_def GROUP_TYPE_FRAME_def GROUP_TYPE_REVOKE_def)

section \<open>A sample deployment\<close>

text \<open>One user with two tabs on a stream; a signal is sent to it and reaches the first.\<close>

definition sample_env' :: env where
  "sample_env' = sample_env\<lparr>channel_of := ''c2''\<rparr>"

definition sample_sock' :: sock where
  "sample_sock' = sample_sock\<lparr>presence_session := Some ''c2'',
     log := [GroupAdd ''chat.ws.1'', Accept, Presence (RecordConnect 10 (Some (IdInt 7)) ''c2'' (Some ''chat''))],
     beat := Sleeping (Fin 35)\<rparr>"

definition sample_node :: node where
  "sample_node = \<lparr>node_env = sample_env, node_sock = sample_sock, heard = [Connect 0 0 True], mailbox = []\<rparr>"

definition sample_node' :: node where
  "sample_node' = \<lparr>node_env = sample_env', node_sock = sample_sock', heard = [Connect 0 10 True], mailbox = []\<rparr>"

definition sample_deployment :: deployment where
  "sample_deployment = \<lparr>nodes = [sample_node, sample_node'], posted = [],
     spoken = presence_calls sample_sock @ presence_calls sample_sock'\<rparr>"

lemma sample_connect': "settle (connect sample_env' 0 10 True new_sock) = sample_sock'"
proof -
  have "get_stream_key sample_env' = Inr ''chat:ws:1''" by code_simp
  then show ?thesis
    using sample_group sample_family
    by (simp add: connect_def Let_def subscribe_def authorize_cached_def authorize_def after_accept_def
        presence_family_def settle_def sample_env_def sample_env'_def sample_sock'_def sample_sock_def
        socket_user_id_def opt_or_def start_beat_def emit_def new_sock_def)
qed

lemma sample_calls:
  "presence_calls new_sock = []"
  "presence_calls sample_sock = [RecordConnect 0 (Some (IdInt 7)) ''c1'' (Some ''chat'')]"
  "presence_calls sample_sock' = [RecordConnect 10 (Some (IdInt 7)) ''c2'' (Some ''chat'')]"
  by (simp_all add: presence_calls_def sample_sock_def sample_sock'_def new_sock_def List.map_filter_def)

lemma sample_deployed: "deployed sample_canon id sample_deployment"
proof -
  let ?fresh = "\<lambda>E. \<lparr>node_env = E, node_sock = new_sock, heard = [], mailbox = []\<rparr>"
  let ?D1 = "\<lparr>nodes = [sample_node, ?fresh sample_env'], posted = [], spoken = presence_calls sample_sock\<rparr>"
  have 0: "deployed sample_canon id (launch [sample_env, sample_env'])"
    by (rule opens) (simp add: sample_env_def sample_env'_def)
  have new: "phase new_sock = New" by (simp add: new_sock_def)
  have "moves sample_env new_sock (Connect 0 0 True) sample_sock"
    using moves.connects [OF new, of sample_env 0 0 True] by (simp add: sample_connect)
  then have "deploys sample_canon id (launch [sample_env, sample_env']) ?D1"
    using acts [of "launch [sample_env, sample_env']" "[]" "?fresh sample_env" "[?fresh sample_env']" _ _ "[]"]
    by (simp add: launch_def sample_node_def node_after_def new_calls_def sample_calls(1))
  then have 1: "deployed sample_canon id ?D1" by (rule goes_on [OF 0])
  have "moves sample_env' new_sock (Connect 0 10 True) sample_sock'"
    using moves.connects [OF new, of sample_env' 0 10 True] by (simp add: sample_connect')
  then have "deploys sample_canon id ?D1 sample_deployment"
    using acts [of ?D1 "[sample_node]" "?fresh sample_env'" "[]" _ _ "[]"]
    by (simp add: sample_deployment_def sample_node'_def node_after_def new_calls_def sample_calls(1))
  then show ?thesis by (rule goes_on [OF 1])
qed

section \<open>Properties\<close>

text \<open>C3: Every frame has a source. In every state a deployment can reach, under every interleaving of
  emitters, sockets and losses, a frame that a socket has written, is writing or has queued belongs to the
  connection of an authenticated user for whom the authorizer said yes to the socket's stream key; and it is
  one of the protocol's own, or a journal row that the socket's own replay hook returned, or was sent by
  \<open>deliver\<close> or \<open>deliver_frame\<close> to a key of the very same group, unchanged but for the socket's
  stream. The package relays no frame of a client to another one.\<close>

theorem every_frame_has_a_source:
  assumes "deployed build sha D" "n \<in> set (nodes D)" "f \<in> set (frames (node_sock n))"
  shows "\<exists>key g u t. stream_key (node_sock n) = Some key \<and> group_name build sha key = Inr g \<and>
    scope_user (scope_of (node_env n)) = Some u \<and> is_authenticated u \<and> authorize (node_env n) t key = Inr True \<and>
    ((\<exists>ty d. protocol_payload ty d \<and> f = frame ty (Some d) None (Some key)) \<or>
     (\<exists>rows r. Rows (Inr rows) \<in> set (heard n) \<and> r \<in> set rows \<and>
        f = frame REPLAY (Some (row_payload r)) (Some (row_seq r)) (Some key)) \<or>
     (\<exists>k d. (g, signal_message k d) \<in> set (posted D) \<and> group_name build sha k = Inr g \<and>
        f = dict_setdefault ''stream'' (PStr key) d) \<or>
     (\<exists>k m d. (g, frame_message k m d) \<in> set (posted D) \<and> group_name build sha k = Inr g \<and>
        f = frame LIVE (Some d) (Some m) (Some key)))"
proof -
  have ok: "node_ok build sha (set (posted D)) n" and sent: "\<And>gm. gm \<in> set (posted D) \<Longrightarrow> sent_to build sha gm"
    using deployed_ok [OF assms(1)] assms(2) by (auto simp: deployment_ok_def)
  note r = node_reachable [OF ok]
  obtain key g u t where key: "stream_key (node_sock n) = Some key" "sgroup (node_sock n) = Some g"
      "group_name build sha key = Inr g"
    and user: "scope_user (scope_of (node_env n)) = Some u" "is_authenticated u" "authorize (node_env n) t key = Inr True"
    using admitted_key [OF frames_admitted [OF r assms(3)]] ok by (auto simp: node_ok_def)
  have posted: "(g, msg) \<in> set (posted D) \<and> sent_to build sha (g, msg)" if heard: "GroupMessage msg \<in> set (heard n)" for msg
  proof -
    obtain g' where g': "(g', msg) \<in> set (posted D)" "GroupAdd g' \<in> set (log (node_sock n))"
      using ok heard by (auto simp: node_ok_def delivered_def)
    then show ?thesis using reachable_group [OF r g'(2)] key(2) sent by auto
  qed
  have "all_stem (set (heard n)) (node_sock n)" using ok by (intro history_stems) (auto simp: node_ok_def)
  then have "stems (set (heard n)) (Some key) f" using assms(3) key(1) by (simp add: all_stem_def)
  then have "(\<exists>ty d. protocol_payload ty d \<and> f = frame ty (Some d) None (Some key)) \<or>
     (\<exists>rows r. Rows (Inr rows) \<in> set (heard n) \<and> r \<in> set rows \<and>
        f = frame REPLAY (Some (row_payload r)) (Some (row_seq r)) (Some key)) \<or>
     (\<exists>k d. (g, signal_message k d) \<in> set (posted D) \<and> group_name build sha k = Inr g \<and>
        f = dict_setdefault ''stream'' (PStr key) d) \<or>
     (\<exists>k m d. (g, frame_message k m d) \<in> set (posted D) \<and> group_name build sha k = Inr g \<and>
        f = frame LIVE (Some d) (Some m) (Some key))"
    using posted unfolding stems_def by (simp add: key_value_def) (metis sent_signal sent_frame)
  with key user show ?thesis by blast
qed

theorem every_frame_has_a_source_witness:
  "\<exists>D n f key g u t. deployed sample_canon id D \<and> n \<in> set (nodes D) \<and> f \<in> set (frames (node_sock n)) \<and>
    dict_get f ''type'' = PStr ''chat.typing'' \<and>
    stream_key (node_sock n) = Some key \<and> group_name sample_canon id key = Inr g \<and>
    scope_user (scope_of (node_env n)) = Some u \<and> is_authenticated u \<and> authorize (node_env n) t key = Inr True \<and>
    ((\<exists>ty d. protocol_payload ty d \<and> f = frame ty (Some d) None (Some key)) \<or>
     (\<exists>rows r. Rows (Inr rows) \<in> set (heard n) \<and> r \<in> set rows \<and>
        f = frame REPLAY (Some (row_payload r)) (Some (row_seq r)) (Some key)) \<or>
     (\<exists>k d. (g, signal_message k d) \<in> set (posted D) \<and> group_name sample_canon id k = Inr g \<and>
        f = dict_setdefault ''stream'' (PStr key) d) \<or>
     (\<exists>k m d. (g, frame_message k m d) \<in> set (posted D) \<and> group_name sample_canon id k = Inr g \<and>
        f = frame LIVE (Some d) (Some m) (Some key)))"
proof -
  let ?msg = "signal_message ''chat:ws:1'' sample_signal"
  let ?gm = "(''chat.ws.1'', ?msg)"
  let ?D1 = "sample_deployment\<lparr>nodes := post_all [?gm] (nodes sample_deployment), posted := [?gm]\<rparr>"
  let ?n1 = "sample_node\<lparr>mailbox := [?msg]\<rparr>"
  let ?s = "settle (dispatch_group sample_env ?msg sample_sock)"
  let ?n2 = "node_after ?n1 (GroupMessage ?msg) ?s []"
  let ?D2 = "?D1\<lparr>nodes := ?n2 # tl (nodes ?D1), spoken := spoken ?D1 @ new_calls sample_sock ?s\<rparr>"
  let ?f = "dict_setdefault ''stream'' (PStr ''chat:ws:1'') sample_signal"
  have free: "py_in_strings (dict_get sample_signal ''type'') PROTOCOL_FRAME_TYPES = Inr False" by code_simp
  then have "deliver sample_canon id recorder ''chat:ws:1'' (PDict sample_signal) (Some []) = (Inr True, Some [?gm])"
    unfolding deliver_accept_iff using sample_group by (auto simp: recorder_def)
  then have "deploys sample_canon id sample_deployment ?D1"
    using sends [of sample_canon id "Signal ''chat:ws:1'' (PDict sample_signal)" sample_deployment _ "[?gm]"]
    by (simp add: sample_deployment_def)
  then have 1: "deployed sample_canon id ?D1" by (rule goes_on [OF sample_deployed])
  have nodes: "nodes ?D1 = [] @ ?n1 # tl (nodes ?D1)"
    using sample_in_group by (simp add: sample_deployment_def post_all_def post_def sample_node_def)
  have idle: "phase sample_sock = Idle" "accepted sample_sock" by (simp_all add: sample_sock_def accepted_def)
  have "moves sample_env sample_sock (GroupMessage ?msg) ?s" by (rule moves.hears [OF idle by_deliver [OF free]])
  then have "deploys sample_canon id ?D1 ?D2"
    using acts [OF nodes, of "GroupMessage ?msg" ?s "[]"] by (simp add: sample_node_def)
  then have 2: "deployed sample_canon id ?D2" by (rule goes_on [OF 1])
  have "frames ?s = frames sample_sock @ [dict_setdefault ''stream'' (stream_value sample_sock) sample_signal]"
  proof -
    have "sample_signal \<noteq> []" "(1::nat) \<le> 100" by (simp_all add: sample_signal_def)
    then show ?thesis using signal_step [OF sample_ready] by blast
  qed
  then have f: "?f \<in> set (frames (node_sock ?n2))"
    by (simp add: node_after_def stream_value_def sample_sock_def)
  have n: "?n2 \<in> set (nodes ?D2)" by simp
  have ty: "dict_get ?f ''type'' = PStr ''chat.typing''" by code_simp
  show ?thesis
    using every_frame_has_a_source [OF 2 n f] 2 n f ty by blast
qed

end
