(* ===== verification/Ledger.thy ===== *)
theory Ledger
  imports Deployment
begin

text \<open>
  The presence registry of a whole deployment. The calls of all sockets reach the registry in one order; those
  that name a session are exactly the calls of the socket whose channel it is, so the last word the registry has
  on a session is its socket's, and the number of sessions it shows is a number of sockets.
\<close>

section \<open>Whose calls the registry has seen\<close>

fun call_session :: "presence_call \<Rightarrow> string" where
  "call_session (RecordConnect t u sid f) = sid"
| "call_session (RecordHeartbeat t u sid f) = sid"
| "call_session (RecordDisconnect t u sid) = sid"

fun call_user :: "presence_call \<Rightarrow> ident option" where
  "call_user (RecordConnect t u sid f) = u"
| "call_user (RecordHeartbeat t u sid f) = u"
| "call_user (RecordDisconnect t u sid) = u"

text \<open>The last word on a session is a matter of that session's calls, and of its user's.\<close>

lemma last_word_session:
  "last_word tag (concat (map lease_of cs)) (u, sid) =
     last_word tag (concat (map lease_of (filter (\<lambda>c. call_session c = sid) cs))) (u, sid)"
proof (induction cs rule: rev_induct)
  case (snoc c cs)
  then show ?case by (cases c rule: lease_of.cases) auto
qed simp

lemma last_word_other:
  "\<forall>c\<in>set cs. call_user c \<noteq> Some u \<Longrightarrow> last_word tag (concat (map lease_of cs)) (u, sid) = None"
proof (induction cs rule: rev_induct)
  case (snoc c cs)
  then show ?case by (cases c rule: lease_of.cases) auto
qed simp

text \<open>Every call of a socket names its user and its channel.\<close>

lemma reachable_call:
  assumes "reachable E s" "channel_of E \<noteq> []" "c \<in> set (presence_calls s)"
  shows "call_session c = channel_of E \<and> call_user c = socket_user_id E"
  using reachable_own_calls [OF assms(1,2)] assms(3)
  unfolding own_calls_def attendance_def by (fastforce split: if_splits)

lemma moves_calls:
  assumes "reachable E s" "moves E s ev s'"
  shows "presence_calls s' = presence_calls s @ new_calls s s'"
proof -
  obtain es where "log s' = log s @ es" using moves_log [OF assms] by blast
  then show ?thesis by (simp add: new_calls_def presence_calls_def)
qed

text \<open>In a deployment whose channels are named and distinct, as Channels names them, the calls of a session
  are those of its socket, and there are no others.\<close>

definition fleet_of :: "deployment \<Rightarrow> fleet" where
  "fleet_of D = map (\<lambda>n. (node_env n, node_sock n)) (nodes D)"

definition named_apart :: "fleet \<Rightarrow> bool" where
  "named_apart fl \<longleftrightarrow> distinct (map (channel_of \<circ> fst) fl) \<and> (\<forall>m\<in>set fl. channel_of (fst m) \<noteq> [])"

definition calls_of :: "presence_call list \<Rightarrow> env \<times> sock \<Rightarrow> bool" where
  "calls_of cs m \<longleftrightarrow> filter (\<lambda>c. call_session c = channel_of (fst m)) cs = presence_calls (snd m)"

definition ledger_ok :: "presence_call list \<Rightarrow> fleet \<Rightarrow> bool" where
  "ledger_ok cs fl \<longleftrightarrow> (\<forall>m\<in>set fl. calls_of cs m) \<and>
     (\<forall>c\<in>set cs. \<exists>m\<in>set fl. c \<in> set (presence_calls (snd m)))"

lemma fleet_post_all: "map (\<lambda>n. (node_env n, node_sock n)) (post_all gms ns) = map (\<lambda>n. (node_env n, node_sock n)) ns"
proof (induction gms arbitrary: ns)
  case (Cons gm gms)
  have "map (\<lambda>n. (node_env n, node_sock n)) (post gm ns) = map (\<lambda>n. (node_env n, node_sock n)) ns"
    by (auto simp: post_def)
  with Cons show ?case by (simp add: post_all_def)
qed (simp add: post_all_def)

lemma ledger_acts:
  assumes fl: "fl = ms @ (E, s) # ms'" and apart: "named_apart fl" and ok: "ledger_ok cs fl"
    and r: "reachable E s" and m: "moves E s ev s'"
  shows "ledger_ok (cs @ new_calls s s') (ms @ (E, s') # ms')"
proof -
  let ?new = "new_calls s s'"
  have calls: "presence_calls s' = presence_calls s @ ?new" by (rule moves_calls [OF r m])
  have ch: "channel_of E \<noteq> []" using apart fl by (simp add: named_apart_def)
  have mine: "call_session c = channel_of E" if "c \<in> set ?new" for c
    using reachable_call [OF reachable.step [OF r m] ch, of c] that calls by simp
  have other: "channel_of (fst k) \<noteq> channel_of E" if "k \<in> set ms \<union> set ms'" for k
    using apart that unfolding fl named_apart_def by (auto simp: image_iff)
  have "filter (\<lambda>c. call_session c = channel_of (fst k)) ?new = []" if "k \<in> set ms \<union> set ms'" for k
    using other [OF that] mine by (auto simp: filter_empty_conv)
  then have "calls_of (cs @ ?new) k" if "k \<in> set ms \<union> set ms'" for k
    using ok fl that by (simp add: ledger_ok_def calls_of_def)
  moreover have "filter (\<lambda>c. call_session c = channel_of E) ?new = ?new" using mine by (simp add: filter_id_conv)
  then have "calls_of (cs @ ?new) (E, s')"
    using ok fl calls by (simp add: ledger_ok_def calls_of_def)
  moreover have "\<exists>k\<in>set (ms @ (E, s') # ms'). c \<in> set (presence_calls (snd k))" if "c \<in> set (cs @ ?new)" for c
    using ok fl calls that by (auto simp: ledger_ok_def)
  ultimately show ?thesis unfolding ledger_ok_def by auto
qed

lemma deploys_fleet:
  assumes "deploys build sha D D'"
  shows "fleet_of D' = fleet_of D \<and> spoken D' = spoken D \<or>
    (\<exists>ms E s ms' ev s'. fleet_of D = ms @ (E, s) # ms' \<and> moves E s ev s' \<and>
       fleet_of D' = ms @ (E, s') # ms' \<and> spoken D' = spoken D @ new_calls s s')"
  using assms
proof cases
  case (acts ns n ns' ev s' ms)
  let ?p = "\<lambda>n. (node_env n, node_sock n)"
  from acts show ?thesis
    by (intro disjI2 exI [of _ "map ?p ns"] exI [of _ "node_env n"] exI [of _ "node_sock n"] exI [of _ "map ?p ns'"]
        exI [of _ ev] exI [of _ s']) (simp add: fleet_of_def node_after_def)
qed (simp_all add: fleet_of_def fleet_post_all)

lemma deployed_ledger: "deployed build sha D \<Longrightarrow> named_apart (fleet_of D) \<Longrightarrow> ledger_ok (spoken D) (fleet_of D)"
proof (induction rule: deployed.induct)
  case (opens Es)
  have "presence_calls new_sock = []" by (simp add: presence_calls_def new_sock_def List.map_filter_def)
  then show ?case by (auto simp: ledger_ok_def calls_of_def launch_def fleet_of_def)
next
  case (goes_on D D')
  have r: "reachable E s" if "(E, s) \<in> set (fleet_of D)" for E s
    using deployed_ok [OF goes_on.hyps(1)] node_reachable that unfolding deployment_ok_def fleet_of_def by auto
  from deploys_fleet [OF goes_on.hyps(2)] show ?case
  proof (elim disjE exE conjE)
    assume "fleet_of D' = fleet_of D" "spoken D' = spoken D"
    with goes_on show ?thesis by simp
  next
    fix ms E s ms' ev s'
    assume fl: "fleet_of D = ms @ (E, s) # ms'" "fleet_of D' = ms @ (E, s') # ms'" and m: "moves E s ev s'"
      and cs: "spoken D' = spoken D @ new_calls s s'"
    have apart: "named_apart (fleet_of D)" using goes_on.prems fl by (auto simp: named_apart_def)
    show ?thesis
      unfolding cs fl(2) by (rule ledger_acts [OF fl(1) apart goes_on.IH [OF apart] r m]) (simp add: fl)
  qed
qed

section \<open>How many sockets the registry shows\<close>

text \<open>A socket that counts for a user at a time: theirs, not yet disconnected, and its last call at most the
  lease old.\<close>

definition counts_for :: "ident \<Rightarrow> rat \<Rightarrow> int \<Rightarrow> env \<times> sock \<Rightarrow> bool" where
  "counts_for u now ttl m \<longleftrightarrow> socket_user_id (fst m) = Some u \<and> presence_session (snd m) \<noteq> None \<and>
     now - call_time (last (presence_calls (snd m))) \<le> of_int ttl"

lemma ledger_words:
  assumes ok: "ledger_ok cs fl" and apart: "named_apart fl"
    and r: "\<And>E s. (E, s) \<in> set fl \<Longrightarrow> reachable E s"
  shows "{sid. \<exists>q g. last_word norm_family (concat (map lease_of cs)) (u, sid) = Some (q, g) \<and> now - q \<le> of_int ttl} =
    (channel_of \<circ> fst) ` {m \<in> set fl. counts_for u now ttl m}" (is "?S = ?T")
proof -
  have own: "(\<exists>q g. last_word norm_family (concat (map lease_of cs)) (u, channel_of E) = Some (q, g) \<and> now - q \<le> of_int ttl) \<longleftrightarrow>
      counts_for u now ttl (E, s)" if m: "(E, s) \<in> set fl" for E s
  proof -
    have word: "last_word norm_family (concat (map lease_of cs)) (u, channel_of E) =
        last_word norm_family (concat (map lease_of (presence_calls s))) (u, channel_of E)"
      using ok m by (subst last_word_session) (auto simp: ledger_ok_def calls_of_def)
    have ch: "channel_of E \<noteq> []" using apart m by (auto simp: named_apart_def)
    show ?thesis
    proof (cases "socket_user_id E = Some u")
      case True
      have "channel_of E \<in> {sid. \<exists>q g. last_word norm_family (concat (map lease_of (presence_calls s))) (u, sid) = Some (q, g) \<and>
            now - q \<le> of_int ttl} \<longleftrightarrow> presence_session s \<noteq> None \<and> now - call_time (last (presence_calls s)) \<le> of_int ttl"
        unfolding own_calls_word [OF reachable_own_calls [OF r [OF m] ch] True] by simp
      then show ?thesis by (simp add: word counts_for_def True)
    next
      case False
      then have "\<forall>c\<in>set (presence_calls s). call_user c \<noteq> Some u" using reachable_call [OF r [OF m] ch] by simp
      then show ?thesis using False by (simp add: word last_word_other counts_for_def)
    qed
  qed
  have none: "last_word norm_family (concat (map lease_of cs)) (u, sid) = None" if "sid \<notin> (channel_of \<circ> fst) ` set fl" for sid
  proof -
    have "call_session c \<noteq> sid" if c: "c \<in> set cs" for c
    proof -
      obtain E s where m: "(E, s) \<in> set fl" "c \<in> set (presence_calls s)" using ok c by (force simp: ledger_ok_def)
      then have "call_session c = channel_of E" using reachable_call [OF r [OF m(1)] _ m(2)] apart by (auto simp: named_apart_def)
      with m \<open>sid \<notin> _\<close> show ?thesis by force
    qed
    then have "filter (\<lambda>c. call_session c = sid) cs = []" by (simp add: filter_empty_conv)
    then show ?thesis by (subst last_word_session) simp
  qed
  have "sid \<in> ?S \<longleftrightarrow> sid \<in> ?T" for sid
  proof (cases "sid \<in> (channel_of \<circ> fst) ` set fl")
    case True
    then obtain E s where m: "(E, s) \<in> set fl" and sid: "sid = channel_of E" by force
    have inj: "inj_on (channel_of \<circ> fst) (set fl)" using apart by (simp add: named_apart_def distinct_map)
    have "sid \<in> ?T \<longleftrightarrow> counts_for u now ttl (E, s)"
      using inj_on_image_mem_iff [OF inj m, of "{m \<in> set fl. counts_for u now ttl m}"] m sid by simp
    then show ?thesis using own [OF m] sid by simp
  next
    case False
    then show ?thesis using none by auto
  qed
  then show ?thesis by blast
qed

lemma ledger_count:
  assumes "named_apart fl"
  shows "card ((channel_of \<circ> fst) ` {m \<in> set fl. counts_for u now ttl m}) = length (filter (counts_for u now ttl) fl)"
proof -
  have d: "distinct (map (channel_of \<circ> fst) (filter (counts_for u now ttl) fl))"
    using assms distinct_map_filter by (auto simp: named_apart_def)
  have "(channel_of \<circ> fst) ` {m \<in> set fl. counts_for u now ttl m} = set (map (channel_of \<circ> fst) (filter (counts_for u now ttl) fl))"
    by simp
  with distinct_card [OF d] show ?thesis by simp
qed

text \<open>The ledger, as a history of leases.\<close>

lemma lease_times: "e \<in> set (concat (map lease_of cs)) \<Longrightarrow> \<exists>c\<in>set cs. event_time e = call_time c"
proof -
  have "e \<in> set (lease_of c) \<Longrightarrow> event_time e = call_time c" for c by (cases c rule: lease_of.cases) auto
  then show "e \<in> set (concat (map lease_of cs)) \<Longrightarrow> ?thesis" by auto
qed

lemma lease_holder: "e \<in> set (lease_of c) \<Longrightarrow> call_user c = Some (fst (holder e)) \<and> call_session c = snd (holder e)"
  by (cases c rule: lease_of.cases) auto

lemma ledger_proper:
  assumes ok: "ledger_ok cs fl" and apart: "named_apart fl"
    and r: "\<And>E s. (E, s) \<in> set fl \<Longrightarrow> reachable E s" and times: "sorted (map call_time cs)"
    and keys: "inj_on (\<lambda>v. cache_key sha (ident_str v)) (insert u {v. \<exists>m\<in>set fl. socket_user_id (fst m) = Some v})"
  shows "proper_history sha (insert u {v. \<exists>m\<in>set fl. socket_user_id (fst m) = Some v}) (concat (map lease_of cs))"
proof -
  have "(\<exists>m\<in>set fl. socket_user_id (fst m) = Some (fst (holder e))) \<and> snd (holder e) \<noteq> []"
    if e: "e \<in> set (concat (map lease_of cs))" for e
  proof -
    obtain c where c: "c \<in> set cs" "e \<in> set (lease_of c)" using e by auto
    obtain E s where m: "(E, s) \<in> set fl" "c \<in> set (presence_calls s)" using ok c(1) by (force simp: ledger_ok_def)
    have ch: "channel_of E \<noteq> []" using apart m(1) by (auto simp: named_apart_def)
    show ?thesis
      using reachable_call [OF r [OF m(1)] ch m(2)] lease_holder [OF c(2)] ch
      by (intro conjI bexI [OF _ m(1)]) simp_all
  qed
  moreover have "sorted (map event_time (concat (map lease_of cs)))"
    unfolding event_times using times by (rule sorted_filter)
  ultimately show ?thesis using keys by (auto simp: proper_history_def chronological_def)
qed

section \<open>Properties\<close>

text \<open>C14: The registry counts sockets. In every state a deployment can reach, when its channels have names
  of their own, distinct users have distinct cache keys, and each of its presence calls has been performed on a
  working cache in the order of their times, \<open>is_live\<close> answers for any
  user exactly the number of that user's sockets, in whatever process, that are open (counted by their
  \<open>connect\<close>, not yet uncounted by their \<open>disconnect\<close>) and whose last call is at most the lease old;
  refused sockets, other users' sockets and departed ones never count.\<close>

theorem registry_counts_sockets:
  assumes d: "deployed build sha D" and apart: "named_apart (fleet_of D)"
    and cache: "working_cache ops" "empty_store ops c0" and ttl: "presence_ttl st = Inr ttl" "0 < ttl"
    and times: "sorted (map call_time (spoken D))" "\<forall>c\<in>set (spoken D). call_time c \<le> now"
    and keys: "inj_on (\<lambda>v. cache_key sha (ident_str v)) (insert u {v. \<exists>m\<in>set (fleet_of D). socket_user_id (fst m) = Some v})"
  shows "\<exists>snap. is_live ops st sha now (Some u) None (perform_calls ops st sha (spoken D) (Some c0)) = Inr snap \<and>
    sessions snap = length (filter (counts_for u now ttl) (fleet_of D)) \<and> (live snap \<longleftrightarrow> sessions snap \<noteq> 0)"
proof -
  let ?us = "insert u {v. \<exists>m\<in>set (fleet_of D). socket_user_id (fst m) = Some v}"
  let ?evs = "concat (map lease_of (spoken D))"
  note ok = deployed_ledger [OF d apart]
  have r: "reachable E s" if "(E, s) \<in> set (fleet_of D)" for E s
    using deployed_ok [OF d] node_reachable that unfolding deployment_ok_def fleet_of_def by auto
  have proper: "proper_history sha ?us ?evs"
    using ledger_proper [OF ok apart r times(1) keys] .
  have "\<forall>e\<in>set ?evs. event_time e \<le> now" using times(2) lease_times by metis
  then obtain c where c: "run_store ops st sha (Some c0) ?evs = Some c"
    and shown: "displays ops ttl now c (cache_key sha (ident_str u)) (words_of ?evs u)"
    using store_displays [OF cache ttl proper] by blast
  have "{sid. \<exists>q g. words_of ?evs u sid = Some (q, g) \<and> now - q \<le> of_int ttl \<and> (None = None \<or> g = None)} =
      (channel_of \<circ> fst) ` {m \<in> set (fleet_of D). counts_for u now ttl m}"
    using ledger_words [OF ok apart r] by (simp add: words_of_def)
  with is_live_displays [OF shown ttl, of None] ledger_count [OF apart, of u now ttl] show ?thesis
    by (auto simp: perform_calls_leases c)
qed

lemma sample_fleet: "fleet_of sample_deployment = [(sample_env, sample_sock), (sample_env', sample_sock')]"
  by (simp add: fleet_of_def sample_deployment_def sample_node_def sample_node'_def)

lemma sample_users: "socket_user_id sample_env = Some (IdInt 7)" "socket_user_id sample_env' = Some (IdInt 7)"
  by (simp_all add: sample_env_def sample_env'_def socket_user_id_def opt_or_def)

text \<open>Two tabs, two sessions.\<close>

theorem registry_counts_sockets_witness:
  "\<exists>snap. is_live sample_cache defaults id 60 (Some (IdInt 7)) None
      (perform_calls sample_cache defaults id (spoken sample_deployment) (Some [])) = Inr snap \<and>
    sessions snap = length (filter (counts_for (IdInt 7) 60 60) (fleet_of sample_deployment)) \<and>
    (live snap \<longleftrightarrow> sessions snap \<noteq> 0) \<and>
    length (filter (counts_for (IdInt 7) 60 60) (fleet_of sample_deployment)) = 2"
proof -
  have apart: "named_apart (fleet_of sample_deployment)"
    by (simp add: sample_fleet named_apart_def sample_env_def sample_env'_def)
  have times: "sorted (map call_time (spoken sample_deployment))" "\<forall>c\<in>set (spoken sample_deployment). call_time c \<le> 60"
    by (simp_all add: sample_deployment_def sample_calls)
  have keys: "inj_on (\<lambda>v. cache_key id (ident_str v))
      (insert (IdInt 7) {v. \<exists>m\<in>set (fleet_of sample_deployment). socket_user_id (fst m) = Some v})"
    by (auto simp: sample_fleet sample_users)
  have "presence_session sample_sock \<noteq> None" "presence_session sample_sock' \<noteq> None"
    by (simp_all add: sample_sock_def sample_sock'_def)
  then have "length (filter (counts_for (IdInt 7) 60 60) (fleet_of sample_deployment)) = 2"
    by (simp add: sample_fleet counts_for_def sample_users sample_calls)
  with registry_counts_sockets [OF sample_deployed apart sample_cache_works(1,3) presence_ttl_defaults _ times keys]
  show ?thesis by simp
qed

end
