(* ===== verification/Spec2Isabelle.thy ===== *)
theory Spec2Isabelle
  imports Host Package Strikes Replay Crash Races Lapse Ledger
begin

text \<open>
  A model of stapel-realtime, the substrate of the fleet's WebSocket streams: a Django/Channels package that
  authenticates and authorizes a socket for one stream, relays signals to it, replays a journal after a
  reconnect, counts who is watching, and assembles and checks the host. The implementation is the Python files
  at the top of the repository.

  \<^bold>\<open>The program and its parts.\<close>
  A module emits through \<open>delivery.py\<close>, which sends one message to the Channels group of a stream;
  the name of the group comes from the stream key (\<open>streams.py\<close>). Each connected client is one
  consumer instance (\<open>consumers.py\<close>): it resolves its key, asks the authorizer
  (\<open>authorize.py\<close>), joins the group, accepts, and from then on runs three tasks beside each other:
  the dispatched handlers, the writer of the send queue, and the heartbeat. What travels are the envelopes of
  \<open>envelope.py\<close> and the close codes of \<open>close_codes.py\<close>. Accepting, every heartbeat
  and disconnecting call the presence registry (\<open>presence.py\<close>), which the Functions of
  \<open>functions.py\<close> read. \<open>asgi.py\<close> puts the origin guard around the sockets,
  \<open>checks.py\<close> judges the settings of \<open>conf.py\<close> at start-up, \<open>apps.py\<close>
  registers all of it, \<open>__init__.py\<close> exports it lazily, and \<open>testing.py\<close> is a client
  for tests.

  \<^bold>\<open>Theories and code.\<close>
  \<^item> \<open>PyBase\<close>: Python's values, exceptions and conversions (\<open>int\<close>,
    \<open>float\<close>, \<open>dict\<close>, \<open>str\<close>, truth); a call that may raise is a sum, the
    exception on the left. \<open>IsoTime\<close> and \<open>Urls\<close>: the ISO rendering and the URL
    splitting of the standard library as far as the code uses them.
  \<^item> \<open>CloseCodes\<close>, \<open>Conf\<close>, \<open>Envelope\<close>, \<open>Streams\<close>,
    \<open>Authorize\<close>, \<open>Delivery\<close>, \<open>Asgi\<close>, \<open>Checks\<close>: the files of
    those names, one definition per function, with the functions' names where Isabelle allows them.
  \<^item> \<open>Presence\<close>: \<open>presence.py\<close> over a cache that is a parameter.
    \<open>Leases\<close>: the abstract lease registry that one document refines. \<open>Races\<close>: the same
    writes cut between their read and their store.
  \<^item> \<open>Consumers\<close>: \<open>consumers.py\<close>. The attributes of an instance are the record
    \<open>sock\<close>, what a handler does to the outside is appended to its \<open>log\<close>; a handler
    returns the next state and the exception that leaves it. The relation \<open>moves\<close> says what one
    socket can do next and \<open>reachable\<close> closes it under sequences.
  \<^item> \<open>ConsumerSafety\<close>, \<open>SocketRights\<close>, \<open>SocketProperties\<close>,
    \<open>SocketActions\<close>, \<open>Resume\<close>, \<open>Heartbeat\<close>, \<open>Writer\<close>,
    \<open>Outbox\<close>: the properties of one socket. \<open>Strikes\<close>: its malformed frames, counted over
    its life. \<open>Sessions\<close>: the connections of a client's life. \<open>Replay\<close>: the answer to a
    \<open>hello\<close> among the moves of the writer and the heartbeat. \<open>Audience\<close>: the presence calls of a socket run on the registry. \<open>Fleet\<close>:
    many sockets behind one layer. \<open>Lapse\<close>: the heartbeat against the lease check.
    \<open>Crash\<close>: what an exception that leaves a handler does to the rest of the system.
    \<open>Provenance\<close>: which event of a socket each of its frames stems from. \<open>Deployment\<close>: all
    sockets of all processes, the layer's mailboxes and the emitters as one step relation. \<open>Ledger\<close>:
    the presence registry of a deployment.
  \<^item> \<open>Surface\<close>: \<open>functions.py\<close>, \<open>__init__.py\<close>,
    \<open>apps.py\<close>. \<open>Package\<close>: what every module imports and exports, and loading them.
    \<open>Schemas\<close>: the JSON schemas under \<open>schemas/\<close>, with the meaning of the keywords
    they use.
  \<^item> \<open>Harness\<close>: \<open>testing.py\<close> and the consumer of the end-to-end host.
    \<open>Host\<close>: the views, settings, routes and assembly of that host (\<open>e2e/\<close>).

  \<^bold>\<open>Interfaces.\<close>
  The locales are the contracts between components: \<open>lease_registry\<close> (what a renewal and a release
  do to what a registry shows; interpreted on the presence documents), \<open>identifying_authorizer\<close>
  (interpreted on both shipped authorizers), \<open>journal_sink\<close> (a queue with a dedup cursor;
  interpreted on the consumer's send path), \<open>unqueued\<close> and its extensions (a view of a socket that
  queueing, the cursor and the writer, the heartbeat or a received frame leave alone; interpreted on the verdict
  and strikes, on the heartbeat's pulse, on the presence attendance, and on the cursor with the writer's life).

  \<^bold>\<open>What the lemmas show.\<close>
  Every handler but \<open>connect\<close> and \<open>disconnect\<close> is a composition of eight small steps,
  so an invariant is proved for those once: admission is fail-closed, the queue is bounded, journal sequences
  increase strictly, closing is final. The outbound half refines an abstract lossy queue
  (\<open>Outbox\<close>); the writer's loop is a terminating function whose turns are moves, from which queued
  frames, the kick of a revoke included, are shown to reach the wire, in order, and a failing writer to lose
  one frame and no other (\<open>Writer\<close>). A
  \<open>hello\<close> replays exactly the missing rows, as many as the queue has room for when they arrive
  (\<open>Resume\<close>, \<open>Replay\<close>); over any number of connections, broken off anywhere, with a layer
  that may lose, repeat and reorder live rows, a client that declares what reached it holds the journal up to that
  row in order and without a repetition, and lacks only rows that a later live row overtook
  (\<open>Sessions\<close>). The third malformed frame of a socket's life, not of a row, closes it
  (\<open>Strikes\<close>). The registry's answer after any history of calls is the specification's,
  and after the calls of a socket it is whether that socket is open and renewed. A stream is heard by authorized
  sockets only, and a revoke ends exactly its target's sockets (\<open>Fleet\<close>). In a whole deployment,
  under every interleaving, each frame of a socket is the protocol's own, a row of its replay hook, or what an
  emitter sent to its group (\<open>Deployment\<close>), and the registry shows for each user the number of that
  user's open, renewed sockets (\<open>Ledger\<close>). A bulk write in one
  transaction reaches every ready member frame by frame and a rolled-back one sends nothing
  (\<open>Host\<close>). The guard, the checks and the parsers are characterized completely, the parser also
  against the published schema, and every protocol frame a socket sends satisfies that schema
  (\<open>Schemas\<close>). Only the consumers and the harness need Channels (\<open>Package\<close>). Several
  theorems state defects as the code has them: the race that counts a departed session, the lease that lapses
  between two beats although the check is silent, the replay that overflows its own queue, the live frame that
  makes a replay lose rows, the lost live frame that no replay brings back, the exceptions that escape \<open>parse_frame\<close> and \<open>is_live\<close>,
  the frame that strands its own socket in the group and in the registry, the end-to-end host that fails its own
  checks with a redis-py whose default timeout is below 70 seconds.

  \<^bold>\<open>Parameters and hypotheses.\<close>
  Code that is not in the repository is a parameter: the key builder of the core (\<open>core_canon\<close>: it
  joins segments that have no colon), the capability lookup, the fleet cache (\<open>working_cache\<close>,
  \<open>batch_agrees\<close>, \<open>empty_store\<close>), SHA-256, the channel layer, the site registry, the
  import system, the representation of a value in a message, Django's transactions
  (\<open>commits_in_order\<close>: a transaction that raises leaves nothing behind, one that returns is
  committed and then runs its callbacks in order) and models, the core's \<open>signal\<close>
  (\<open>core_signals\<close>: of a key and type it accepts, it is scheduled for the commit and hands the
  documented frame to the transport the settings name; of any other it raises), and which packages are installed. \<open>sample_canon\<close>, \<open>sample_cache\<close>
  and \<open>sample_atomic\<close> keep those contracts and carry the witnesses. Time is a rational number of
  seconds passed to each call; machine floats are rationals with infinities and NaN, without rounding.

  \<^bold>\<open>Bounds and recursion.\<close>
  No definition needs fuel. The writer's loop recurses on twice the queued frames plus the one in flight,
  loading a module on the weight of its imports (no module of the package imports another in a cycle); the other
  recursions are structural or on the digits of a number. The bounds of the code (100 queued frames, 500
  replayed rows, 3 strikes, 90 characters of a group name, 128 of an identifier, 100 users of a batch) are its
  own constants and settings.

  \<^bold>\<open>Interleaving.\<close>
  Channels dispatches one message of a consumer at a time, so a handler that does not wait for another task is
  one move. It is cut where the code waits for something others can overtake: the journal hooks, the drain
  before a close, the two sleeps of the heartbeat and its presence write. The wait of a drain may end at any
  time, which covers both its timeout and the empty queue. \<open>group_add\<close>, \<open>accept\<close> and
  the connect-time presence write are taken in one move with \<open>connect\<close>, because no message is
  dispatched before it returns. A deployment interleaves the moves of all its sockets with the send paths and
  with messages lost by the layer; a presence call is performed whole there, and \<open>Races\<close> shows what
  two of them cut between read and store can do.

  \<^bold>\<open>Not modelled.\<close>
  Logging and the wording of system check messages; looking a setting up in Django (\<open>AppSettings\<close>);
  the attributes of the Django app; the fleet cache's namespace; closing the communicator of the harness; the
  JWT middleware, the router and the consumer base class of Channels; WebSocket framing; of the end-to-end host
  the driver that boots redis and two processes, the row model and \<open>manage.py\<close>; and the test suite.
  They are calls into libraries, wiring, or texts for people.
\<close>

section \<open>Properties that span components\<close>

text \<open>C26: The lease check can be silent while users blink: it accepts every lease longer than
  \<open>HEARTBEAT_S\<close>, but a healthy socket renews only every \<open>HEARTBEAT_S\<close> plus the answer timeout. For a lease
  between the two, an open, counted socket whose heartbeat is asleep reads as offline from the end of the lease
  until its next wake-up: the registry, run on the calls the socket made, answers not live.\<close>

theorem silent_check_blinking_user:
  assumes silent: "check_presence_ttl h = Inr []" and h: "package h = conf E" "strict_ttl h = Inr n"
    and conf: "heartbeat_interval (conf E) = Inr (Fin i)" "0 < i" "heartbeat_timeout (conf E) = Inr (Fin w)"
    and s: "reachable E s" "channel_of E \<noteq> []" "socket_user_id E = Some u" "beat s = Sleeping due"
    and last: "presence_calls s = cs @ [RecordHeartbeat a v sid f]"
    and t: "of_int n < t - a" "t < a + w + i"
    and cache: "working_cache ops" "empty_store ops c0"
    and times: "sorted (map call_time (presence_calls s))"
  shows "presence_session s = Some (channel_of E) \<and> pf_lt (Fin t) due \<and>
    (\<exists>snap. is_live ops (conf E) sha t (Some u) None (perform_calls ops (conf E) sha (presence_calls s) (Some c0)) = Inr snap \<and>
       \<not> live snap \<and> sessions snap = 0)"
  using assms by (rule lease_lapses_between_beats)

theorem silent_check_blinking_user_witness:
  "presence_session renewed_sock = Some (channel_of short_lease_env) \<and> pf_lt (Fin 57) (Fin 60) \<and>
    (\<exists>snap. is_live sample_cache (conf short_lease_env) id 57 (Some (IdInt 7)) None
       (perform_calls sample_cache (conf short_lease_env) id (presence_calls renewed_sock) (Some [])) = Inr snap \<and>
       \<not> live snap \<and> sessions snap = 0)"
proof (rule silent_check_blinking_user [where h = "\<lparr>django = [], environ = [], package = short_lease\<rparr>" and n = 30
      and i = 25 and w = 10 and a = 25, OF _ _ _ _ _ _ renewed_reachable])
  let ?connect = "RecordConnect 0 (Some (IdInt 7)) ''c1'' (Some ''chat'')"
  show calls: "presence_calls renewed_sock = [?connect] @ [RecordHeartbeat 25 (Some (IdInt 7)) ''c1'' (Some ''chat'')]"
    by (simp add: presence_calls_def renewed_sock_def sample_sock_def List.map_filter_def)
  show "sorted (map call_time (presence_calls renewed_sock))" unfolding calls by simp
  have "strict_ttl \<lparr>django = [], environ = [], package = short_lease\<rparr> = Inr 30"
    by (simp add: strict_ttl_def short_lease_def py_or_def)
  then show "strict_ttl \<lparr>django = [], environ = [], package = short_lease\<rparr> = Inr 30"
    "check_presence_ttl \<lparr>django = [], environ = [], package = short_lease\<rparr> = Inr []"
    by (simp_all add: strict_ttl_view)
qed (simp_all add: sample_cache_works renewed_sock_def sample_env_def socket_user_id_def opt_or_def)

end
